(* ===== verification/Cpp_String.thy ===== *)
theory Cpp_String
  imports Main "HOL-Library.Sublist"
begin

text \<open>
  The prelude of the development: what the sources use of \<^verbatim>\<open>std::string\<close> and
  \<^verbatim>\<open>std::string_view\<close>, over HOL's \<^typ>\<open>string\<close> (a \<^typ>\<open>char\<close> is a byte), and the
  lemmas the components share.  \<^verbatim>\<open>npos\<close> is \<^term>\<open>None\<close>; sizes and positions are
  \<^typ>\<open>nat\<close>.  The find-and-replace loops of the sources restart \<^verbatim>\<open>find\<close> behind each
  replacement; \<open>replace_loop\<close> is that loop and \<open>subst_all\<close> the left-to-right scan it
  computes.  The locale \<open>framing\<close> is the contract of a self-delimiting encoding and
  \<open>invariant_system\<close> that of a step relation with an invariant; the components
  interpret them on their own operations.
\<close>

section \<open>Collections of facts\<close>

named_theorems str_defs \<open>unfold the std::string operations\<close>
named_theorems scan_simps \<open>scanners on a recognised prefix\<close>

section \<open>std::string operations\<close>

definition starts_with :: "'a list \<Rightarrow> 'a list \<Rightarrow> bool" where
  [str_defs]: "starts_with s p \<longleftrightarrow> take (length p) s = p"

definition ends_with :: "'a list \<Rightarrow> 'a list \<Rightarrow> bool" where
  [str_defs]: "ends_with s p \<longleftrightarrow> length p \<le> length s \<and> drop (length s - length p) s = p"

fun search :: "'a list \<Rightarrow> 'a list \<Rightarrow> nat option" where
  "search p [] = (if p = [] then Some 0 else None)"
| "search p (x # s) = (if starts_with (x # s) p then Some 0 else map_option Suc (search p s))"

text \<open>\<^verbatim>\<open>s.find(p, pos)\<close>: the first match at or behind \<open>pos\<close>.\<close>

definition str_find :: "'a list \<Rightarrow> 'a list \<Rightarrow> nat \<Rightarrow> nat option" where
  "str_find s p pos =
     (if pos \<le> length s then map_option ((+) pos) (search p (drop pos s)) else None)"

text \<open>\<^verbatim>\<open>s.rfind(p)\<close>: the last match.\<close>

fun str_rfind :: "'a list \<Rightarrow> 'a list \<Rightarrow> nat option" where
  "str_rfind [] p = (if p = [] then Some 0 else None)"
| "str_rfind (x # s) p =
     (case str_rfind s p of
        Some i \<Rightarrow> Some (Suc i)
      | None \<Rightarrow> (if starts_with (x # s) p then Some 0 else None))"

definition str_contains :: "'a list \<Rightarrow> 'a list \<Rightarrow> bool" where
  "str_contains s p \<longleftrightarrow> search p s \<noteq> None"

definition substr :: "'a list \<Rightarrow> nat \<Rightarrow> nat \<Rightarrow> 'a list" where
  [str_defs]: "substr s pos n = take n (drop pos s)"

definition str_replace :: "'a list \<Rightarrow> nat \<Rightarrow> nat \<Rightarrow> 'a list \<Rightarrow> 'a list" where
  [str_defs]: "str_replace s pos n r = take pos s @ r @ drop (pos + n) s"

text \<open>\<^verbatim>\<open>s.resize(n, c)\<close>: cut or padded with \<open>c\<close>.\<close>

definition str_resize :: "'a list \<Rightarrow> nat \<Rightarrow> 'a \<Rightarrow> 'a list" where
  [str_defs]: "str_resize s n c = take n s @ replicate (n - length s) c"

subsection \<open>Prefixes and suffixes\<close>

lemma starts_with_Nil [simp]: "starts_with s []"
  by (simp add: starts_with_def)

lemma starts_with_append [simp]: "starts_with (p @ s) p"
  by (simp add: starts_with_def)

lemma starts_with_iff: "starts_with s p \<longleftrightarrow> (\<exists>r. s = p @ r)"
  unfolding starts_with_def by (metis append_eq_conv_conj append_take_drop_id)

lemma starts_with_prefix: "starts_with s p \<longleftrightarrow> prefix p s"
  by (auto simp: starts_with_iff prefix_def)

lemma starts_withE: "starts_with s p \<Longrightarrow> (\<And>r. s = p @ r \<Longrightarrow> thesis) \<Longrightarrow> thesis"
  by (auto simp: starts_with_iff)

lemma starts_with_Cons [simp]: "starts_with (x # s) (y # p) \<longleftrightarrow> x = y \<and> starts_with s p"
  by (auto simp: starts_with_def)

lemma starts_with_Nil_iff [simp]: "starts_with [] p \<longleftrightarrow> p = []"
  by (auto simp: starts_with_def)

lemma starts_with_length: "starts_with s p \<Longrightarrow> length p \<le> length s"
  by (auto simp: starts_with_iff)

lemma starts_with_append_same [simp]: "starts_with (p @ s) (p @ q) \<longleftrightarrow> starts_with s q"
  by (auto simp: starts_with_iff)

lemma starts_with_cong_take:
  "take (length p) s = take (length p) t \<Longrightarrow> starts_with s p \<longleftrightarrow> starts_with t p"
  by (simp add: starts_with_def)

lemma starts_with_trans: "starts_with s p \<Longrightarrow> starts_with p q \<Longrightarrow> starts_with s q"
  by (auto simp: starts_with_iff)

lemma starts_with_set: "starts_with s p \<Longrightarrow> set p \<subseteq> set s"
  by (auto simp: starts_with_iff)

lemma starts_with_short:
  "starts_with (p @ s) q \<Longrightarrow> length q \<le> length p \<Longrightarrow> starts_with p q"
  by (auto simp: starts_with_def)

lemma ends_with_iff: "ends_with s p \<longleftrightarrow> (\<exists>r. s = r @ p)"
proof
  assume "ends_with s p"
  then have "s = take (length s - length p) s @ p"
    unfolding ends_with_def by (metis append_take_drop_id)
  then show "\<exists>r. s = r @ p" by blast
qed (auto simp: ends_with_def)

lemma ends_with_append [simp]: "ends_with (s @ p) p"
  by (auto simp: ends_with_iff)

subsection \<open>Search\<close>

lemma search_Some_iff:
  "search p s = Some i \<longleftrightarrow>
     i \<le> length s \<and> starts_with (drop i s) p \<and> (\<forall>j < i. \<not> starts_with (drop j s) p)"
proof (induction s arbitrary: i)
  case Nil
  then show ?case by auto
next
  case (Cons x s)
  then show ?case
    by (cases i) (auto simp: All_less_Suc2 map_option_case split: option.splits, metis linorder_neqE_nat)
qed

lemma search_None_iff: "search p s = None \<longleftrightarrow> (\<forall>i \<le> length s. \<not> starts_with (drop i s) p)"
proof (induction s)
  case Nil
  then show ?case by auto
next
  case (Cons x s)
  have "(\<forall>i \<le> length (x # s). \<not> starts_with (drop i (x # s)) p) \<longleftrightarrow>
      \<not> starts_with (x # s) p \<and> (\<forall>i \<le> length s. \<not> starts_with (drop i s) p)"
    (is "?l \<longleftrightarrow> ?r")
  proof
    assume ?l
    then show ?r by (metis Suc_le_mono drop0 drop_Suc_Cons le0 length_Cons)
  next
    assume ?r
    then show ?l by (auto simp: drop_Cons' split: if_splits)
  qed
  with Cons show ?case by auto
qed

lemma search_Nil [simp]: "search [] s = Some 0"
  by (cases s) auto

lemma search_bound: "search p s = Some i \<Longrightarrow> i + length p \<le> length s"
  by (auto simp: search_Some_iff dest!: starts_with_length)

lemma str_contains_iff: "str_contains s p \<longleftrightarrow> (\<exists>a b. s = a @ p @ b)"
proof -
  have "str_contains s p \<longleftrightarrow> (\<exists>i \<le> length s. starts_with (drop i s) p)"
    by (auto simp: str_contains_def search_None_iff)
  also have "\<dots> \<longleftrightarrow> (\<exists>a b. s = a @ p @ b)"
  proof
    assume "\<exists>i \<le> length s. starts_with (drop i s) p"
    then obtain i r where "drop i s = p @ r" by (auto simp: starts_with_iff)
    then have "s = take i s @ p @ r" by (metis append_take_drop_id)
    then show "\<exists>a b. s = a @ p @ b" by blast
  next
    assume "\<exists>a b. s = a @ p @ b"
    then obtain a b where "s = a @ p @ b" by blast
    then have "starts_with (drop (length a) s) p" and "length a \<le> length s" by simp_all
    then show "\<exists>i \<le> length s. starts_with (drop i s) p" by blast
  qed
  finally show ?thesis .
qed

lemma str_contains_sublist: "str_contains s p \<longleftrightarrow> sublist p s"
  by (auto simp: str_contains_iff sublist_def)

lemma str_contains_starts_with: "starts_with s p \<Longrightarrow> str_contains s p"
  by (auto simp: starts_with_iff str_contains_iff intro: exI [of _ "[]"])

lemma str_contains_Cons:
  "str_contains (x # s) p \<longleftrightarrow> starts_with (x # s) p \<or> str_contains s p"
  by (auto simp: str_contains_def)

lemma str_contains_Nil [simp]: "str_contains [] p \<longleftrightarrow> p = []"
  by (auto simp: str_contains_def)

lemma str_contains_append_left: "str_contains s p \<Longrightarrow> str_contains (r @ s) p"
  by (induction r) (auto simp: str_contains_Cons)

lemma str_contains_single: "str_contains s [c] \<longleftrightarrow> c \<in> set s"
  by (induction s) (auto simp: str_contains_Cons)

lemma str_find_bounds:
  "str_find s p pos = Some i \<Longrightarrow> pos \<le> i \<and> i + length p \<le> length s"
  by (auto simp: str_find_def dest!: search_bound split: if_splits)

lemma str_find_match: "str_find s p pos = Some i \<Longrightarrow> starts_with (drop i s) p"
  by (auto simp: str_find_def search_Some_iff add.commute split: if_splits)

lemma str_find_match_nth: "str_find s p pos = Some i \<Longrightarrow> take (length p) (drop i s) = p"
  using str_find_match by (simp add: starts_with_def)

lemma str_find_0: "str_find s p 0 = search p s"
  by (simp add: str_find_def) (metis (no_types, lifting) add_0 eq_id_iff option.map_id0 ext id_apply)

lemma search_char: "search [c] s = (if c \<in> set s then Some (length (takeWhile (\<lambda>x. x \<noteq> c) s)) else None)"
  by (induction s) auto

lemma str_find_char:
  "pos \<le> length s \<Longrightarrow> str_find s [c] pos =
     (if c \<in> set (drop pos s) then Some (pos + length (takeWhile (\<lambda>x. x \<noteq> c) (drop pos s))) else None)"
  by (simp add: str_find_def search_char)

lemma str_find_char_split:
  assumes "str_find s [c] pos = Some e"
  shows "drop pos s = take (e - pos) (drop pos s) @ c # drop (Suc e) s"
    and "c \<notin> set (take (e - pos) (drop pos s))"
proof -
  let ?u = "drop pos s" and ?w = "takeWhile (\<lambda>x. x \<noteq> c) (drop pos s)"
  have pos: "pos \<le> length s" using assms by (auto simp: str_find_def split: if_splits)
  then have c: "c \<in> set ?u" and e: "e = pos + length ?w"
    using assms by (auto simp: str_find_char split: if_splits)
  have w: "take (e - pos) ?u = ?w" by (simp add: e takeWhile_eq_take [symmetric])
  have "u = takeWhile (\<lambda>x. x \<noteq> c) u @ c # drop (Suc (length (takeWhile (\<lambda>x. x \<noteq> c) u))) u"
    if "c \<in> set u" for u
    using that by (induction u) auto
  from this [OF c] have "?u = ?w @ c # drop (Suc (length ?w)) ?u" .
  then show "drop pos s = take (e - pos) (drop pos s) @ c # drop (Suc e) s"
    by (simp add: w) (simp add: e add.commute)
  show "c \<notin> set (take (e - pos) (drop pos s))"
    using w set_takeWhileD by fastforce
qed

lemma search_skip:
  "\<lbrakk>\<And>i. i < length a \<Longrightarrow> \<not> starts_with (drop i (a @ s)) p\<rbrakk> \<Longrightarrow>
     search p (a @ s) = map_option ((+) (length a)) (search p s)"
proof (induction a)
  case Nil
  then show ?case by (simp add: option.map_ident_strong)
next
  case (Cons x a)
  from Cons.prems [of 0] have "\<not> starts_with (x # a @ s) p" by simp
  moreover have "search p (a @ s) = map_option ((+) (length a)) (search p s)"
    using Cons.prems [of "Suc _"] by (intro Cons.IH) auto
  ultimately show ?case by (simp add: option.map_comp comp_def)
qed

subsection \<open>The find-and-replace loop\<close>

text \<open>
  \<^verbatim>\<open>for (pos = 0; (pos = str.find(frm, pos)) != npos; pos += into.size())
      str.replace(pos, frm.size(), into);\<close>
\<close>

function replace_loop :: "'a list \<Rightarrow> 'a list \<Rightarrow> 'a list \<Rightarrow> nat \<Rightarrow> 'a list" where
  "replace_loop frm into str pos =
     (if frm = [] then str
      else (case str_find str frm pos of
              None \<Rightarrow> str
            | Some p \<Rightarrow>
                replace_loop frm into (str_replace str p (length frm) into) (p + length into)))"
  by pat_completeness auto
termination
proof (relation "measure (\<lambda>(frm, into, str, pos). length str - pos)")
  fix frm into str :: "'a list" and pos p :: nat
  assume "frm \<noteq> []" and f: "str_find str frm pos = Some p"
  then have "pos \<le> p" "p + length frm \<le> length str" "0 < length frm"
    using str_find_bounds [OF f] by auto
  then show "((frm, into, str_replace str p (length frm) into, p + length into),
      (frm, into, str, pos)) \<in> measure (\<lambda>(frm, into, str, pos). length str - pos)"
    by (cases frm) (auto simp: str_replace_def)
qed simp

declare replace_loop.simps [simp del]

text \<open>What the loop computes: one left-to-right scan.\<close>

function subst_all :: "'a list \<Rightarrow> 'a list \<Rightarrow> 'a list \<Rightarrow> 'a list" where
  "subst_all frm into [] = []"
| "subst_all frm into (x # s) =
     (if frm \<noteq> [] \<and> starts_with (x # s) frm
      then into @ subst_all frm into (drop (length frm) (x # s))
      else x # subst_all frm into s)"
  by pat_completeness auto
termination
  by (relation "measure (\<lambda>(frm, into, s). length s)") auto

declare subst_all.simps(2) [simp del]

lemma subst_all_hit [scan_simps]:
  "frm \<noteq> [] \<Longrightarrow> subst_all frm into (frm @ s) = into @ subst_all frm into s"
  by (cases "frm @ s") (auto simp: subst_all.simps(2) append_eq_Cons_conv)

lemma subst_all_miss [scan_simps]:
  "\<not> starts_with (x # s) frm \<Longrightarrow> subst_all frm into (x # s) = x # subst_all frm into s"
  by (simp add: subst_all.simps(2))

lemma subst_all_Nil_from [simp]: "subst_all [] into s = s"
  by (induction s) (auto simp: subst_all.simps(2))

lemma subst_all_skip:
  "\<lbrakk>\<And>i. i < length a \<Longrightarrow> \<not> starts_with (drop i (a @ s)) frm\<rbrakk> \<Longrightarrow>
     subst_all frm into (a @ s) = a @ subst_all frm into s"
proof (induction a)
  case (Cons x a)
  from Cons.prems [of 0] have "\<not> starts_with (x # a @ s) frm" by simp
  moreover have "subst_all frm into (a @ s) = a @ subst_all frm into s"
    using Cons.prems [of "Suc _"] by (intro Cons.IH) auto
  ultimately show ?case by (simp add: subst_all_miss)
qed simp

lemma subst_all_no_match: "search frm s = None \<Longrightarrow> subst_all frm into s = s"
  by (induction s) (auto simp: subst_all.simps(2) split: if_splits)

lemma subst_all_first:
  assumes "frm \<noteq> []" and "search frm s = Some i"
  shows "subst_all frm into s = take i s @ into @ subst_all frm into (drop (i + length frm) s)"
proof -
  from assms(2) have i: "i \<le> length s" "starts_with (drop i s) frm"
      "\<And>j. j < i \<Longrightarrow> \<not> starts_with (drop j s) frm"
    by (auto simp: search_Some_iff)
  then obtain r where r: "drop i s = frm @ r" by (auto simp: starts_with_iff)
  have "subst_all frm into (take i s @ drop i s) = take i s @ subst_all frm into (drop i s)"
    using i by (intro subst_all_skip) auto
  moreover have "r = drop (i + length frm) s"
    using r by (metis add.commute append_eq_conv_conj drop_drop)
  ultimately show ?thesis
    using assms(1) r by (metis append_take_drop_id subst_all_hit)
qed

lemma replace_loop_subst_all:
  "pos \<le> length str \<Longrightarrow>
     replace_loop frm into str pos = take pos str @ subst_all frm into (drop pos str)"
proof (induction frm into str pos rule: replace_loop.induct)
  case (1 frm into str pos)
  show ?case
  proof (cases "frm = []")
    case True
    then show ?thesis by (simp add: replace_loop.simps)
  next
    case ne: False
    show ?thesis
    proof (cases "str_find str frm pos")
      case None
      then have "search frm (drop pos str) = None"
        using "1.prems" by (auto simp: str_find_def)
      then show ?thesis using ne None by (simp add: replace_loop.simps subst_all_no_match)
    next
      case (Some p)
      then obtain i where i: "search frm (drop pos str) = Some i" "p = pos + i"
        using "1.prems" by (auto simp: str_find_def)
      have b: "p + length frm \<le> length str" using str_find_bounds [OF Some] by simp
      let ?t = "str_replace str p (length frm) into"
      have "replace_loop frm into str pos = replace_loop frm into ?t (p + length into)"
        using ne Some by (simp add: replace_loop.simps [of frm into str])
      also have "\<dots> = take (p + length into) ?t @ subst_all frm into (drop (p + length into) ?t)"
        using "1.IH" [OF ne Some] b by (simp add: str_replace_def)
      also have "\<dots> = take p str @ into @ subst_all frm into (drop (p + length frm) str)"
        using b by (simp add: str_replace_def)
      also have "take p str = take pos str @ take i (drop pos str)"
        by (simp add: i take_add)
      finally show ?thesis
        using subst_all_first [OF ne i(1), of into] by (simp add: i ac_simps)
    qed
  qed
qed

lemma replace_loop_0: "replace_loop frm into str 0 = subst_all frm into str"
  by (simp add: replace_loop_subst_all)

lemma length_subst_all:
  "length frm = length into \<Longrightarrow> length (subst_all frm into s) = length s"
  by (induction frm into s rule: subst_all.induct)
     (auto simp: subst_all.simps(2) dest!: starts_with_length)

subsection \<open>Splitting at a character\<close>

lemma takeWhile_append_char:
  "c \<notin> set w \<Longrightarrow> takeWhile (\<lambda>x. x \<noteq> c) (w @ c # s) = w"
  "c \<notin> set w \<Longrightarrow> dropWhile (\<lambda>x. x \<noteq> c) (w @ c # s) = c # s"
  by (induction w) auto

lemma takeWhile_no_char: "c \<notin> set w \<Longrightarrow> takeWhile (\<lambda>x. x \<noteq> c) w = w"
  by (induction w) auto

lemma dropWhile_no_char: "c \<notin> set w \<Longrightarrow> dropWhile (\<lambda>x. x \<noteq> c) w = []"
  by (induction w) auto

lemma dropWhile_char_Cons:
  "dropWhile (\<lambda>x. x \<noteq> c) s = y # r \<Longrightarrow> y = c \<and> s = takeWhile (\<lambda>x. x \<noteq> c) s @ c # r"
  by (metis (mono_tags, lifting) hd_dropWhile list.sel(1) list.simps(3) takeWhile_dropWhile_id)

lemma takeWhile_char_not_in: "c \<notin> set (takeWhile (\<lambda>x. x \<noteq> c) s)"
  by (metis (mono_tags, lifting) set_takeWhileD)

lemma search_char_append:
  "c \<notin> set w \<Longrightarrow> search [c] (w @ c # s) = Some (length w)"
  by (simp add: search_char takeWhile_append_char)

section \<open>Contracts shared by the components\<close>

text \<open>
  A self-delimiting encoding: the decoder gives back the value and what follows it, whatever
  follows.  Encodings of different values then differ, and so do the concatenations of lists.
\<close>

locale framing =
  fixes enc :: "'a \<Rightarrow> 'b list"
    and dec :: "'b list \<Rightarrow> ('a \<times> 'b list) option"
    and ok :: "'a \<Rightarrow> bool"
  assumes dec_enc: "ok x \<Longrightarrow> dec (enc x @ r) = Some (x, r)"
begin

lemma enc_append_inject:
  "ok x \<Longrightarrow> ok y \<Longrightarrow> enc x @ r = enc y @ r' \<Longrightarrow> x = y \<and> r = r'"
  by (metis dec_enc option.inject prod.inject)

lemma enc_inject: "ok x \<Longrightarrow> ok y \<Longrightarrow> enc x = enc y \<Longrightarrow> x = y"
  by (metis append_Nil2 enc_append_inject)

lemma enc_list_inject:
  "\<forall>x \<in> set xs. ok x \<Longrightarrow> \<forall>y \<in> set ys. ok y \<Longrightarrow> length xs = length ys \<Longrightarrow>
   concat (map enc xs) @ r = concat (map enc ys) @ r' \<Longrightarrow> xs = ys \<and> r = r'"
proof (induction xs arbitrary: ys)
  case Nil
  then show ?case by simp
next
  case (Cons x xs)
  then obtain y zs where ys: "ys = y # zs" by (cases ys) auto
  with Cons.prems have "x = y \<and> concat (map enc xs) @ r = concat (map enc zs) @ r'"
    by (intro enc_append_inject) simp_all
  with Cons.IH [of zs] Cons.prems ys show ?case by simp
qed

end

text \<open>When the decoder rejects the empty input, lists of any length are told apart.\<close>

locale nonempty_framing = framing +
  assumes dec_Nil: "dec [] = None"
begin

lemma enc_nonempty: "ok x \<Longrightarrow> enc x \<noteq> []"
  using dec_enc [of x "[]"] dec_Nil by auto

lemma enc_concat_inject:
  "\<forall>x \<in> set xs. ok x \<Longrightarrow> \<forall>y \<in> set ys. ok y \<Longrightarrow>
   concat (map enc xs) = concat (map enc ys) \<Longrightarrow> xs = ys"
proof (induction xs arbitrary: ys)
  case Nil
  then show ?case by (cases ys) (auto dest: enc_nonempty)
next
  case (Cons x xs)
  from Cons.prems(1) have "enc x \<noteq> []" by (simp add: enc_nonempty)
  with Cons.prems(3) have "ys \<noteq> []" by auto
  then obtain y zs where ys: "ys = y # zs" by (cases ys) auto
  with Cons.prems have "x = y \<and> concat (map enc xs) = concat (map enc zs)"
    by (intro enc_append_inject) simp_all
  with Cons.IH [of zs] Cons.prems ys show ?case by simp
qed

end

text \<open>A step relation with an invariant: the invariant holds in every reachable state.\<close>

locale invariant_system =
  fixes init :: "'s \<Rightarrow> bool"
    and step :: "'s \<Rightarrow> 's \<Rightarrow> bool"
    and inv :: "'s \<Rightarrow> bool"
  assumes inv_init: "init s \<Longrightarrow> inv s"
    and inv_step: "inv s \<Longrightarrow> step s t \<Longrightarrow> inv t"
begin

lemma inv_steps: "step\<^sup>*\<^sup>* s t \<Longrightarrow> inv s \<Longrightarrow> inv t"
  by (induction rule: rtranclp_induct) (auto intro: inv_step)

lemma inv_reachable: "init s \<Longrightarrow> step\<^sup>*\<^sup>* s t \<Longrightarrow> inv t"
  by (rule inv_steps) (auto intro: inv_init)

end

text \<open>
  A reader over a buffered stream: \<open>stream\<close> is all that is still to be read, however it is cut
  into buffers.  A reader that gets one message gets a sequence of them.
\<close>

fun read_n :: "('s \<Rightarrow> 'a option \<times> 's) \<Rightarrow> nat \<Rightarrow> 's \<Rightarrow> 'a list option \<times> 's" where
  "read_n recv 0 s = (Some [], s)"
| "read_n recv (Suc n) s =
     (case recv s of
        (None, s') \<Rightarrow> (None, s')
      | (Some x, s') \<Rightarrow>
          (case read_n recv n s' of
             (None, s'') \<Rightarrow> (None, s'')
           | (Some xs, s'') \<Rightarrow> (Some (x # xs), s'')))"

locale message_source =
  fixes stream :: "'s \<Rightarrow> 'b list"
    and recv :: "'s \<Rightarrow> 'a option \<times> 's"
    and enc :: "'a \<Rightarrow> 'b list"
    and ok :: "'a \<Rightarrow> bool"
  assumes recv_enc: "ok x \<Longrightarrow> stream s = enc x @ r \<Longrightarrow> \<exists>s'. recv s = (Some x, s') \<and> stream s' = r"
begin

lemma recv_fst: "ok x \<Longrightarrow> stream s = enc x @ r \<Longrightarrow> fst (recv s) = Some x \<and> stream (snd (recv s)) = r"
  using recv_enc by fastforce

lemma read_n_enc:
  "\<forall>x \<in> set xs. ok x \<Longrightarrow> stream s = concat (map enc xs) @ r \<Longrightarrow>
   \<exists>s'. read_n recv (length xs) s = (Some xs, s') \<and> stream s' = r"
proof (induction xs arbitrary: s)
  case (Cons x xs)
  then obtain s1 where s1: "recv s = (Some x, s1)" "stream s1 = concat (map enc xs) @ r"
    using recv_enc [of x s "concat (map enc xs) @ r"] by auto
  then obtain s2 where "read_n recv (length xs) s1 = (Some xs, s2)" "stream s2 = r"
    using Cons.IH [of s1] Cons.prems by auto
  with s1 show ?case by simp
qed simp

end

end
