(* ===== verification/Cpp_Number.thy ===== *)
theory Cpp_Number
  imports Cpp_String
begin

text \<open>
  Numbers as text: \<^verbatim>\<open>std::to_string\<close> and the \<^verbatim>\<open>{}\<close>, \<^verbatim>\<open>{:o}\<close>, \<^verbatim>\<open>{:02x}\<close> formats, and
  \<^verbatim>\<open>std::from_chars\<close> for \<^verbatim>\<open>std::uint64_t\<close>, which rejects a value of 64 or more bits.
\<close>

definition digit_char :: "nat \<Rightarrow> char" where
  "digit_char d = char_of (if d < 10 then 48 + d else 87 + d)"

definition digit_value :: "char \<Rightarrow> nat option" where
  "digit_value c =
     (let n = of_char c :: nat in
      if 48 \<le> n \<and> n \<le> 57 then Some (n - 48)
      else if 97 \<le> n \<and> n \<le> 122 then Some (n - 87)
      else if 65 \<le> n \<and> n \<le> 90 then Some (n - 55)
      else None)"

definition is_base_digit :: "nat \<Rightarrow> char \<Rightarrow> bool" where
  "is_base_digit b c = (case digit_value c of Some d \<Rightarrow> d < b | None \<Rightarrow> False)"

fun to_base :: "nat \<Rightarrow> nat \<Rightarrow> string" where
  "to_base b n =
     (if b < 2 \<or> n < b then [digit_char n] else to_base b (n div b) @ [digit_char (n mod b)])"

declare to_base.simps [simp del]

abbreviation to_decimal :: "nat \<Rightarrow> string" where
  "to_decimal \<equiv> to_base 10"

definition hex2 :: "char \<Rightarrow> string" where
  "hex2 c = [digit_char (of_char c div 16), digit_char (of_char c mod 16)]"

definition digits_value :: "nat \<Rightarrow> string \<Rightarrow> nat" where
  "digits_value b ds = foldl (\<lambda>a c. a * b + (case digit_value c of Some d \<Rightarrow> d | None \<Rightarrow> 0)) 0 ds"

definition from_chars :: "nat \<Rightarrow> string \<Rightarrow> (nat \<times> string) option" where
  "from_chars b s =
     (let ds = takeWhile (is_base_digit b) s; v = digits_value b ds in
      if ds = [] then None
      else if v < 2 ^ 64 then Some (v, dropWhile (is_base_digit b) s)
      else None)"

lemma digit_value_char [simp]: "d < 36 \<Longrightarrow> digit_value (digit_char d) = Some d"
  by (auto simp: digit_value_def digit_char_def Let_def)

lemma is_base_digit_char [simp]: "d < b \<Longrightarrow> b \<le> 36 \<Longrightarrow> is_base_digit b (digit_char d)"
  by (simp add: is_base_digit_def)

lemma digit_char_inject: "d < 36 \<Longrightarrow> e < 36 \<Longrightarrow> digit_char d = digit_char e \<Longrightarrow> d = e"
  by (metis digit_value_char option.inject)

lemma to_base_nonempty [simp]: "to_base b n \<noteq> []"
  by (subst to_base.simps) simp

lemma to_base_digits: "2 \<le> b \<Longrightarrow> b \<le> 36 \<Longrightarrow> c \<in> set (to_base b n) \<Longrightarrow> is_base_digit b c"
proof (induction b n rule: to_base.induct)
  case (1 b n)
  show ?case
  proof (cases "n < b")
    case True
    with 1 show ?thesis by (simp add: to_base.simps [of b n])
  next
    case False
    with "1.prems" have "c \<in> set (to_base b (n div b)) \<or> c = digit_char (n mod b)"
      by (auto simp: to_base.simps [of b n])
    then show ?thesis using 1 False by auto
  qed
qed

lemma digits_value_snoc: "digits_value b (ds @ [c]) =
    digits_value b ds * b + (case digit_value c of Some d \<Rightarrow> d | None \<Rightarrow> 0)"
  by (simp add: digits_value_def)

lemma digits_value_to_base: "2 \<le> b \<Longrightarrow> b \<le> 36 \<Longrightarrow> digits_value b (to_base b n) = n"
proof (induction b n rule: to_base.induct)
  case (1 b n)
  show ?case
  proof (cases "n < b")
    case True
    with 1 show ?thesis by (simp add: to_base.simps [of b n] digits_value_def)
  next
    case False
    with 1 have "digits_value b (to_base b (n div b)) = n div b" by auto
    moreover have "n mod b < 36" using "1.prems" by (auto intro: order_less_le_trans [OF mod_less_divisor])
    ultimately show ?thesis using False "1.prems"
      by (simp add: to_base.simps [of b n] digits_value_snoc)
  qed
qed

lemma to_base_inject: "2 \<le> b \<Longrightarrow> b \<le> 36 \<Longrightarrow> to_base b m = to_base b n \<Longrightarrow> m = n"
  by (metis digits_value_to_base)

text \<open>Reading back what was printed, up to the first character that is no digit.\<close>

lemma from_chars_to_base:
  assumes "2 \<le> b" "b \<le> 36" "n < 2 ^ 64" and r: "r = [] \<or> \<not> is_base_digit b (hd r)"
  shows "from_chars b (to_base b n @ r) = Some (n, r)"
proof -
  have d: "\<And>c. c \<in> set (to_base b n) \<Longrightarrow> is_base_digit b c"
    using assms to_base_digits by blast
  have "takeWhile (is_base_digit b) (to_base b n @ r) = to_base b n"
    using d r by (cases r) (simp_all add: takeWhile_append2)
  moreover have "dropWhile (is_base_digit b) (to_base b n @ r) = r"
    using d r by (cases r) (simp_all add: dropWhile_append2)
  ultimately show ?thesis
    using assms by (simp add: from_chars_def digits_value_to_base Let_def)
qed

lemma from_chars_Nil [simp]: "from_chars b [] = None"
  by (simp add: from_chars_def)

lemma from_chars_bound: "from_chars b s = Some (n, r) \<Longrightarrow> n < 2 ^ 64"
  by (auto simp: from_chars_def Let_def split: if_splits)

lemma to_decimal_digit: "c \<in> set (to_decimal n) \<Longrightarrow> is_base_digit 10 c"
  by (rule to_base_digits) auto

lemma to_decimal_chars: "c \<in> set (to_decimal n) \<Longrightarrow> 48 \<le> (of_char c :: nat) \<and> (of_char c :: nat) \<le> 57"
  using to_decimal_digit [of c n]
  by (auto simp: is_base_digit_def digit_value_def Let_def split: if_splits option.splits)

lemma to_decimal_not_in:
  "\<not> (48 \<le> (of_char c :: nat) \<and> (of_char c :: nat) \<le> 57) \<Longrightarrow> c \<notin> set (to_decimal n)"
  using to_decimal_chars by blast

lemma of_char_nat_less: "(of_char c :: nat) < 256"
  using nat_of_char_less_256 [of c] by simp

lemma of_char_nibble: "of_char c div 16 < (16 :: nat)"
  using of_char_nat_less [of c] by linarith

lemma hex2_inject: "hex2 c = hex2 d \<Longrightarrow> c = d"
proof -
  assume h: "hex2 c = hex2 d"
  have "of_char c div 16 = (of_char d div 16 :: nat)"
    using h of_char_nibble [of c] of_char_nibble [of d] by (intro digit_char_inject) (auto simp: hex2_def)
  moreover have "of_char c mod 16 = (of_char d mod 16 :: nat)"
    using h by (intro digit_char_inject) (auto simp: hex2_def intro: less_trans [of _ 16])
  ultimately have "of_char c = (of_char d :: nat)" by (metis div_mult_mod_eq)
  then show ?thesis by simp
qed

end
