(* ===== verification/Jig_Base.thy ===== *)
theory Jig_Base
  imports Cpp_Number "HOL-Library.Multiset"
begin

text \<open>
  \<^verbatim>\<open>pkgs/ji/jig/src/base.{h,cc}\<close>: strings, file reads and writes, hashing and descriptor
  ownership.  Loops over a \<^verbatim>\<open>string_view\<close> by index are recursions on the position
  (\<open>split_loop\<close>) or on the remaining view (\<open>split_ws\<close>, \<open>tokenize_gnu\<close>).  BLAKE3
  is third-party code: \<open>b3\<close> is a parameter, the function from the bytes fed to the hasher to
  the first 16 bytes of its output.  \<^verbatim>\<open>read(2)\<close> is a script of how many bytes each call gives
  (\<open>sz\<close>, \<^term>\<open>None\<close> for an error), so that \<open>ReadFile\<close> is proved for every
  chunking of the file.
\<close>

section \<open>Strings\<close>

abbreviation newline :: char where "newline \<equiv> CHR 0x0A"
abbreviation tab :: char where "tab \<equiv> CHR 0x09"
abbreviation backslash :: char where "backslash \<equiv> CHR 0x5C"
abbreviation dquote :: char where "dquote \<equiv> CHR 0x22"
abbreviation squote :: char where "squote \<equiv> CHR 0x27"

definition is_blank :: "char \<Rightarrow> bool" where
  "is_blank c \<longleftrightarrow> c = CHR '' '' \<or> c = tab \<or> c = newline"

lemma length_dropWhile2:
  "s \<noteq> [] \<Longrightarrow> length (dropWhile (\<lambda>c. \<not> P c) (dropWhile P s)) < length s"
  using length_dropWhile_le [of P "tl s"] length_dropWhile_le [of "\<lambda>c. \<not> P c" "tl s"]
    length_dropWhile_le [of "\<lambda>c. \<not> P c" "dropWhile P (tl s)"]
  by (cases s) auto

function split_ws :: "string \<Rightarrow> string list" where
  "split_ws s =
     (if s = [] then []
      else (let s1 = dropWhile is_blank s;
                w = takeWhile (\<lambda>c. \<not> is_blank c) s1;
                rest = dropWhile (\<lambda>c. \<not> is_blank c) s1
            in (if w \<noteq> [] then [w] else []) @ split_ws rest))"
  by pat_completeness auto
termination
  by (relation "measure length") (auto simp: length_dropWhile2)

declare split_ws.simps [simp del]

definition SplitWhitespace :: "string \<Rightarrow> string list" where
  "SplitWhitespace text = split_ws text"

text \<open>\<^verbatim>\<open>std::isspace\<close> in the C locale.\<close>

definition isspace :: "char \<Rightarrow> bool" where
  "isspace c \<longleftrightarrow> c = CHR '' '' \<or> (9 \<le> (of_char c :: nat) \<and> (of_char c :: nat) \<le> 13)"

fun tokenize_gnu :: "string \<Rightarrow> string \<Rightarrow> bool \<Rightarrow> char option \<Rightarrow> string list" where
  "tokenize_gnu [] word in_word quote = (if in_word then [word] else [])"
| "tokenize_gnu (chr # rest) word in_word quote =
     (if chr = backslash \<and> rest \<noteq> [] then tokenize_gnu (tl rest) (word @ [hd rest]) True quote
      else if quote = Some chr then tokenize_gnu rest word in_word None
      else if quote = None \<and> (chr = squote \<or> chr = dquote) then tokenize_gnu rest word True (Some chr)
      else if quote = None \<and> isspace chr then
        (if in_word then word # tokenize_gnu rest [] False quote
         else tokenize_gnu rest word False quote)
      else tokenize_gnu rest (word @ [chr]) True quote)"

definition TokenizeGnu :: "string \<Rightarrow> string list" where
  "TokenizeGnu text = tokenize_gnu text [] False None"

text \<open>\<open>rd\<close> is \<^verbatim>\<open>ReadFile\<close> on the file system at hand.\<close>

definition ExpandResponseFiles :: "(string \<Rightarrow> string option) \<Rightarrow> string list \<Rightarrow> string list" where
  "ExpandResponseFiles rd args =
     concat (map (\<lambda>arg. case (if starts_with arg ''@'' then rd (tl arg) else None) of
                          None \<Rightarrow> [arg]
                        | Some body \<Rightarrow> TokenizeGnu body) args)"

function split_loop :: "string \<Rightarrow> char \<Rightarrow> bool \<Rightarrow> nat \<Rightarrow> string list" where
  "split_loop str sep keep_empty start =
     (if start \<le> length str then
        (let e = (case str_find str [sep] start of None \<Rightarrow> length str | Some e \<Rightarrow> e)
         in (if keep_empty \<or> start < e then [substr str start (e - start)] else [])
              @ split_loop str sep keep_empty (e + 1))
      else [])"
  by pat_completeness auto
termination
  by (relation "measure (\<lambda>(str, sep, keep_empty, start). length str + 1 - start)")
     (auto dest!: str_find_bounds split: option.splits)

declare split_loop.simps [simp del]

definition Split :: "string \<Rightarrow> char \<Rightarrow> bool \<Rightarrow> string list" where
  "Split text sep keep_empty = split_loop text sep keep_empty 0"

definition Join :: "string list \<Rightarrow> string \<Rightarrow> string" where
  "Join parts sep = foldl (\<lambda>out part. (if out \<noteq> [] then out @ sep else out) @ part) [] parts"

definition is_trim :: "char \<Rightarrow> bool" where
  "is_trim c \<longleftrightarrow> c = CHR '' '' \<or> c = tab"

definition Trim :: "string \<Rightarrow> string" where
  "Trim text = rev (dropWhile is_trim (rev (dropWhile is_trim text)))"

definition ReplaceAll :: "string \<Rightarrow> string \<Rightarrow> string \<Rightarrow> string" where
  "ReplaceAll text frm replacement =
     (if frm = [] then text else replace_loop frm replacement text 0)"

definition ParseUint :: "string \<Rightarrow> nat \<Rightarrow> nat option" where
  "ParseUint text base =
     (case from_chars base (Trim text) of
        Some (v, rest) \<Rightarrow> if rest = [] then Some v else None
      | None \<Rightarrow> None)"

definition HexEncode :: "string \<Rightarrow> string" where
  "HexEncode bytes = concat (map hex2 bytes)"

section \<open>Hashing\<close>

text \<open>A hasher is the bytes fed to it so far.\<close>

definition Hasher_Update :: "string \<Rightarrow> string \<Rightarrow> string" where
  "Hasher_Update st data = st @ data"

definition Hasher_Field :: "string \<Rightarrow> string \<Rightarrow> string" where
  "Hasher_Field st data = Hasher_Update (Hasher_Update st (to_decimal (length data) @ '':'')) data"

definition Hasher_Finish :: "(string \<Rightarrow> string) \<Rightarrow> string \<Rightarrow> string" where
  "Hasher_Finish b3 st = HexEncode (b3 st)"

definition HashOf :: "(string \<Rightarrow> string) \<Rightarrow> string \<Rightarrow> string" where
  "HashOf b3 data = Hasher_Finish b3 (Hasher_Update [] data)"

abbreviation hash_fields :: "string \<Rightarrow> string list \<Rightarrow> string" where
  "hash_fields st fs \<equiv> foldl Hasher_Field st fs"

section \<open>Files, environment\<close>

definition Env :: "(string \<Rightarrow> string option) \<Rightarrow> string \<Rightarrow> string \<Rightarrow> string" where
  "Env env name fallback = (case env name of Some v \<Rightarrow> v | None \<Rightarrow> fallback)"

text \<open>The inner loop of \<^verbatim>\<open>ReadFile\<close>: read until \<open>capacity\<close> bytes, end of file or an error.
  \<open>out\<close> has the bytes so far, \<open>rem\<close> what the file still holds, \<open>n\<close> counts the calls.
  The last component of the result is \<^verbatim>\<open>failed\<close>.\<close>

function read_fill :: "(nat \<Rightarrow> nat option) \<Rightarrow> nat \<Rightarrow> string \<Rightarrow> string \<Rightarrow> nat
    \<Rightarrow> string \<times> string \<times> nat \<times> bool" where
  "read_fill sz capacity out rem n =
     (if length out < capacity then
        (case sz n of
           None \<Rightarrow> (out, rem, Suc n, True)
         | Some k \<Rightarrow>
             (let got = min (min (capacity - length out) (Suc k)) (length rem) in
              if got = 0 then (out, rem, Suc n, False)
              else read_fill sz capacity (out @ take got rem) (drop got rem) (Suc n)))
      else (out, rem, n, False))"
  by pat_completeness auto
termination
  by (relation "measure (\<lambda>(sz, capacity, out, rem, n). length rem)") auto

declare read_fill.simps [simp del]

definition kReadChunk :: nat where
  "kReadChunk = 65536"

lemma read_fill_content:
  "read_fill sz cap out rem n = (out', rem', n', f) \<Longrightarrow> out' @ rem' = out @ rem"
proof (induction sz cap out rem n rule: read_fill.induct)
  case (1 sz cap out rem n)
  then show ?case
    by (subst (asm) read_fill.simps) (auto simp: Let_def split: if_splits option.splits)
qed

lemma read_fill_length:
  "read_fill sz cap out rem n = (out', rem', n', f) \<Longrightarrow> length out \<le> length out'"
proof (induction sz cap out rem n rule: read_fill.induct)
  case (1 sz cap out rem n)
  show ?case
  proof (cases "\<exists>k. length out < cap \<and> sz n = Some k \<and> rem \<noteq> []")
    case True
    then obtain k where k: "length out < cap" "sz n = Some k" "rem \<noteq> []" by blast
    let ?got = "min (min (cap - length out) (Suc k)) (length rem)"
    have got: "?got \<noteq> 0" using k by auto
    then have "read_fill sz cap (out @ take ?got rem) (drop ?got rem) (Suc n) = (out', rem', n', f)"
      using 1(2) k by (subst (asm) read_fill.simps) (simp only: option.case if_True if_False Let_def)
    then have "length (out @ take ?got rem) \<le> length out'"
      using 1(1) [OF k(1,2) refl got] by blast
    then show ?thesis by simp
  next
    case False
    with 1(2) show ?thesis
      by (subst (asm) read_fill.simps) (auto split: if_splits option.splits)
  qed
qed

text \<open>The outer loop: \<open>known\<close> is \<^verbatim>\<open>st_size\<close> when it is known, \<open>want\<close> the next capacity.\<close>

function read_loop :: "(nat \<Rightarrow> nat option) \<Rightarrow> nat \<Rightarrow> string \<Rightarrow> string \<Rightarrow> nat \<Rightarrow> string option" where
  "read_loop sz want out rem n =
     (case read_fill sz want out rem n of
        (out', rem', n', failed) \<Rightarrow>
          if failed then None
          else if length out' < want then Some out'
          else read_loop sz (length out' + kReadChunk) out' rem' n')"
  by pat_completeness auto
termination
proof (relation "measure (\<lambda>(sz, want, out, rem, n).
    2 * length rem + (if want \<le> length out then 1 else 0))", goal_cases)
  case (2 sz want out rem n out' y rem' z n' failed)
  then have rf: "read_fill sz want out rem n = (out', rem', n', failed)"
    and w: "want \<le> length out'" by auto
  have "length out' + length rem' = length out + length rem"
    using read_fill_content [OF rf] by (metis length_append)
  then show ?case
    using w read_fill_length [OF rf] by (simp add: kReadChunk_def)
qed simp

declare read_loop.simps [simp del]

definition ReadFile :: "(nat \<Rightarrow> nat option) \<Rightarrow> nat \<Rightarrow> string \<Rightarrow> string option" where
  "ReadFile sz known content =
     read_loop sz (if known > 0 then known + 1 else kReadChunk) [] content 0"

section \<open>Splitting and joining\<close>

text \<open>The fields of a text between separators, the empty ones included.\<close>

fun split_char :: "char \<Rightarrow> string \<Rightarrow> string list" where
  "split_char sep [] = [[]]"
| "split_char sep (c # s) =
     (let r = split_char sep s in if c = sep then [] # r else (c # hd r) # tl r)"

declare split_char.simps(2) [simp del]

lemma split_char_Cons [simp]:
  "split_char sep (c # s) =
     (if c = sep then [] # split_char sep s
      else (c # hd (split_char sep s)) # tl (split_char sep s))"
  by (simp add: split_char.simps(2) Let_def)

lemma split_char_nonempty [simp]: "split_char sep s \<noteq> []"
  by (cases s) auto

lemma split_char_no_sep: "sep \<notin> set s \<Longrightarrow> split_char sep s = [s]"
  by (induction s) auto

lemma split_char_append:
  "sep \<notin> set p \<Longrightarrow> split_char sep (p @ sep # s) = p # split_char sep s"
  by (induction p) auto

lemma split_char_fields: "w \<in> set (split_char sep s) \<Longrightarrow> sep \<notin> set w"
proof (induction s arbitrary: w)
  case (Cons c s)
  then show ?case
    by (cases "split_char sep s") (auto split: if_splits)
qed simp

lemma split_loop_split_char:
  "start \<le> length str \<Longrightarrow>
   split_loop str sep keep start = filter (\<lambda>w. keep \<or> w \<noteq> []) (split_char sep (drop start str))"
proof (induction str sep keep start rule: split_loop.induct)
  case (1 str sep keep start)
  show ?case
  proof (cases "str_find str [sep] start")
    case None
    then have "sep \<notin> set (drop start str)"
      by (simp add: str_find_char 1(2) split: if_splits)
    then show ?thesis
      using 1(2) None
      by (subst split_loop.simps, subst split_loop.simps)
         (auto simp: split_char_no_sep substr_def)
  next
    case (Some e)
    note m = str_find_bounds [OF Some]
    let ?p = "take (e - start) (drop start str)"
    have d: "drop start str = ?p @ sep # drop (Suc e) str" "sep \<notin> set ?p"
      using str_find_char_split [OF Some] by auto
    have "split_char sep (drop start str) = ?p # split_char sep (drop (Suc e) str)"
      using d split_char_append by metis
    moreover have "split_loop str sep keep (e + 1)
        = filter (\<lambda>w. keep \<or> w \<noteq> []) (split_char sep (drop (Suc e) str))"
      using 1 Some m by simp
    moreover have "start < e \<longleftrightarrow> ?p \<noteq> []" using m by auto
    ultimately show ?thesis
      using 1(2) Some by (subst split_loop.simps) (auto simp: substr_def)
  qed
qed

lemma Split_eq: "Split t sep keep = filter (\<lambda>w. keep \<or> w \<noteq> []) (split_char sep t)"
  by (simp add: Split_def split_loop_split_char)

text \<open>Once the output of \<open>Join\<close> is not empty, every further part gets a separator.\<close>

lemma Join_tail:
  "out \<noteq> [] \<Longrightarrow>
   foldl (\<lambda>out part. (if out \<noteq> [] then out @ sep else out) @ part) out parts
     = out @ concat (map (\<lambda>p. sep @ p) parts)"
  by (induction parts arbitrary: out) auto

lemma Join_Nil [simp]: "Join [] sep = []"
  by (simp add: Join_def)

lemma Join_Cons_Nil [simp]: "Join ([] # ps) sep = Join ps sep"
  by (simp add: Join_def)

lemma Join_Cons: "p \<noteq> [] \<Longrightarrow> Join (p # ps) sep = p @ concat (map (\<lambda>p. sep @ p) ps)"
  by (simp add: Join_def Join_tail)

lemma split_char_concat:
  "hd (split_char sep s) @ concat (map (\<lambda>p. sep # p) (tl (split_char sep s))) = s"
proof (induction s)
  case (Cons c s)
  then show ?case
    by (cases "split_char sep s") simp_all
qed simp

lemma split_char_join_tail:
  "\<forall>q \<in> set ps. sep \<notin> set q \<Longrightarrow> sep \<notin> set p \<Longrightarrow>
   split_char sep (p @ concat (map (\<lambda>q. sep # q) ps)) = p # ps"
  by (induction ps arbitrary: p) (auto simp: split_char_no_sep split_char_append)

lemma dropWhile_sep_split:
  "Join (split_char sep s) [sep] = dropWhile (\<lambda>c. c = sep) s"
proof (induction s)
  case (Cons c s)
  show ?case
  proof (cases "c = sep")
    case True
    with Cons.IH show ?thesis by simp
  next
    case False
    then show ?thesis
      using split_char_concat [of sep s] by (simp add: Join_Cons)
  qed
qed simp

section \<open>Blank separated words\<close>

lemma split_ws_Nil [simp]: "split_ws [] = []"
  by (simp add: split_ws.simps)

lemma split_ws_unfold:
  "split_ws s = (if dropWhile is_blank s = [] then []
     else takeWhile (\<lambda>c. \<not> is_blank c) (dropWhile is_blank s)
            # split_ws (dropWhile (\<lambda>c. \<not> is_blank c) (dropWhile is_blank s)))"
proof -
  have "takeWhile (\<lambda>c. \<not> is_blank c) (dropWhile is_blank s) \<noteq> []" if "dropWhile is_blank s \<noteq> []"
    using hd_dropWhile [OF that] that by (cases "dropWhile is_blank s") auto
  then show ?thesis
    by (subst split_ws.simps) (auto simp only: Let_def dropWhile.simps takeWhile.simps
        split_ws_Nil append.simps split: if_split)
qed

lemma filter_dropWhile_not: "filter (\<lambda>c. \<not> P c) (dropWhile P s) = filter (\<lambda>c. \<not> P c) s"
  by (induction s) auto

lemma takeWhile_filter: "takeWhile P s @ filter P (dropWhile P s) = filter P s"
  by (induction s) auto

lemma split_ws_concat: "concat (split_ws s) = filter (\<lambda>c. \<not> is_blank c) s"
proof (induction "length s" arbitrary: s rule: less_induct)
  case less
  show ?case
  proof (cases "dropWhile is_blank s = []")
    case True
    then show ?thesis
      using filter_dropWhile_not [of is_blank s] by (subst split_ws_unfold) simp
  next
    case False
    then have "s \<noteq> []" by auto
    from less [OF length_dropWhile2 [OF this]] False show ?thesis
      by (subst split_ws_unfold) (simp add: takeWhile_filter filter_dropWhile_not)
  qed
qed

lemma split_ws_word: "w \<in> set (split_ws s) \<Longrightarrow> w \<noteq> [] \<and> (\<forall>c \<in> set w. \<not> is_blank c)"
proof (induction "length s" arbitrary: s rule: less_induct)
  case less
  show ?case
  proof (cases "dropWhile is_blank s = []")
    case True
    with less.prems show ?thesis by (subst (asm) split_ws_unfold) simp
  next
    case False
    then have s: "s \<noteq> []" and h: "\<not> is_blank (hd (dropWhile is_blank s))"
      using hd_dropWhile [OF False] by auto
    have "w = takeWhile (\<lambda>c. \<not> is_blank c) (dropWhile is_blank s)
        \<or> w \<in> set (split_ws (dropWhile (\<lambda>c. \<not> is_blank c) (dropWhile is_blank s)))"
      using less.prems False by (subst (asm) split_ws_unfold) (auto split: if_splits)
    then show ?thesis
    proof (elim disjE)
      assume "w = takeWhile (\<lambda>c. \<not> is_blank c) (dropWhile is_blank s)"
      with h False show ?thesis
        by (simp only: takeWhile_eq_Nil_iff) (metis set_takeWhileD)
    qed (rule less.hyps [OF length_dropWhile2 [OF s]])
  qed
qed

lemma split_ws_sep:
  assumes "w \<noteq> []" "\<forall>c \<in> set w. \<not> is_blank c" "\<forall>c \<in> set b. is_blank c"
    and "s = [] \<or> is_blank (hd s)"
  shows "split_ws (b @ w @ s) = w # split_ws s"
proof -
  have b: "dropWhile is_blank (b @ w @ s) = w @ s"
    using assms(1-3) by (cases w) auto
  have "takeWhile (\<lambda>c. \<not> is_blank c) s = []" "dropWhile (\<lambda>c. \<not> is_blank c) s = s"
    using assms(4) by (cases s; auto)+
  then show ?thesis
    using assms(1,2) b by (subst split_ws_unfold) simp
qed

lemma split_ws_blank: "\<forall>c \<in> set b. is_blank c \<Longrightarrow> split_ws b = []"
  by (subst split_ws_unfold) simp

lemma split_ws_words:
  "\<lbrakk>\<forall>w \<in> set ws. w \<noteq> [] \<and> (\<forall>c \<in> set w. \<not> is_blank c); sp \<noteq> []; \<forall>c \<in> set sp. is_blank c;
    \<forall>c \<in> set b. is_blank c\<rbrakk>
   \<Longrightarrow> split_ws (b @ concat (map (\<lambda>w. w @ sp) ws)) = ws"
proof (induction ws arbitrary: b)
  case Nil
  then show ?case by (simp add: split_ws_blank)
next
  case (Cons w ws)
  have "split_ws (b @ w @ (sp @ concat (map (\<lambda>w. w @ sp) ws)))
      = w # split_ws (sp @ concat (map (\<lambda>w. w @ sp) ws))"
    using Cons.prems by (intro split_ws_sep) (auto simp: hd_append)
  with Cons.IH [of sp] Cons.prems show ?case by simp
qed

section \<open>GNU words\<close>

text \<open>
  What the comment at \<^verbatim>\<open>TokenizeGnu\<close> promises, as a grammar: \<open>gnu_word w t\<close> says that the text
  \<open>t\<close> is a way to write the word \<open>w\<close> with backslashes and quotes.
\<close>

inductive gnu_quoted :: "char \<Rightarrow> string \<Rightarrow> string \<Rightarrow> bool" for q where
  gq_end: "gnu_quoted q [] []"
| gq_plain: "\<lbrakk>c \<noteq> q; c \<noteq> backslash; gnu_quoted q w t\<rbrakk> \<Longrightarrow> gnu_quoted q (c # w) (c # t)"
| gq_escape: "gnu_quoted q w t \<Longrightarrow> gnu_quoted q (c # w) (backslash # c # t)"

inductive gnu_text :: "string \<Rightarrow> string \<Rightarrow> bool" where
  gt_end: "gnu_text [] []"
| gt_plain: "\<lbrakk>c \<notin> {squote, dquote, backslash}; \<not> isspace c; gnu_text w t\<rbrakk> \<Longrightarrow> gnu_text (c # w) (c # t)"
| gt_escape: "gnu_text w t \<Longrightarrow> gnu_text (c # w) (backslash # c # t)"
| gt_quoted: "\<lbrakk>q \<in> {squote, dquote}; gnu_quoted q w1 t1; gnu_text w2 t2\<rbrakk>
    \<Longrightarrow> gnu_text (w1 @ w2) (q # t1 @ q # t2)"

definition gnu_word :: "string \<Rightarrow> string \<Rightarrow> bool" where
  "gnu_word w t \<longleftrightarrow> gnu_text w t \<and> t \<noteq> []"

lemma isspace_quote [simp]: "\<not> isspace squote" "\<not> isspace dquote" "\<not> isspace backslash"
  by (simp_all add: isspace_def)

lemma tokenize_quoted:
  assumes "gnu_quoted q w t" and q: "q \<in> {squote, dquote}"
  shows "tokenize_gnu (t @ q # r) acc True (Some q) = tokenize_gnu r (acc @ w) True None"
  using assms(1) by (induction arbitrary: acc rule: gnu_quoted.induct) (use q in auto)

lemma tokenize_text:
  "gnu_text w t \<Longrightarrow> tokenize_gnu (t @ r) acc True None = tokenize_gnu r (acc @ w) True None"
proof (induction arbitrary: acc rule: gnu_text.induct)
  case (gt_quoted q w1 t1 w2 t2)
  then show ?case
    using tokenize_quoted [OF gt_quoted(2,1), of "t2 @ r" acc] by auto
qed auto

lemma tokenize_word:
  assumes "gnu_word w t"
  shows "tokenize_gnu (t @ r) [] False None = tokenize_gnu r w True None"
proof -
  have "gnu_text w t" "t \<noteq> []" using assms by (auto simp: gnu_word_def)
  then show ?thesis
  proof cases
    case (gt_plain c w t)
    then show ?thesis using tokenize_text [of w t r "[c]"] by auto
  next
    case (gt_escape w t c)
    then show ?thesis using tokenize_text [of w t r "[c]"] by auto
  next
    case (gt_quoted q w1 t1 w2 t2)
    then show ?thesis
      using tokenize_quoted [OF gt_quoted(4,3), of "t2 @ r" "[]"] tokenize_text [of w2 t2 r w1] by auto
  qed simp
qed

lemma tokenize_space:
  "\<forall>c \<in> set sp. isspace c \<Longrightarrow> tokenize_gnu (sp @ r) [] False None = tokenize_gnu r [] False None"
  by (induction sp) auto

lemma tokenize_space_end:
  "\<forall>c \<in> set sp. isspace c \<Longrightarrow> sp \<noteq> [] \<Longrightarrow>
   tokenize_gnu (sp @ r) w True None = w # tokenize_gnu r [] False None"
  by (cases sp) (auto simp: tokenize_space)

lemma gnu_text_escape_all: "gnu_text w (concat (map (\<lambda>c. [backslash, c]) w))"
  by (induction w) (auto intro: gnu_text.intros)

section \<open>Numbers and hashes\<close>

lemma is_trim_digit: "is_base_digit b c \<Longrightarrow> \<not> is_trim c"
  by (auto simp: is_trim_def is_base_digit_def digit_value_def split: if_splits)

lemma dropWhile_none: "\<forall>c \<in> set s. \<not> P c \<Longrightarrow> dropWhile P s = s"
  by (cases s) auto

lemma Trim_no_blank: "\<forall>c \<in> set s. \<not> is_trim c \<Longrightarrow> Trim s = s"
  by (simp add: Trim_def dropWhile_none)

lemma HexEncode_Nil [simp]: "HexEncode [] = []"
  by (simp add: HexEncode_def)

lemma HexEncode_Cons [simp]: "HexEncode (c # s) = hex2 c @ HexEncode s"
  by (simp add: HexEncode_def)

lemma length_hex2 [simp]: "length (hex2 c) = 2"
  by (simp add: hex2_def)

lemma length_HexEncode [simp]: "length (HexEncode s) = 2 * length s"
  by (induction s) auto

lemma hex2_eq_iff: "hex2 c = hex2 d \<longleftrightarrow> c = d"
  using hex2_inject by blast

lemma HexEncode_inject: "HexEncode s = HexEncode t \<longleftrightarrow> s = t"
proof (induction s arbitrary: t)
  case Nil
  then show ?case by (cases t) (simp_all add: hex2_def)
next
  case (Cons c s)
  show ?case
  proof (cases t)
    case Nil
    then show ?thesis by (simp add: hex2_def)
  next
    case (Cons d t')
    then show ?thesis using Cons.IH [of t'] by (simp add: hex2_eq_iff)
  qed
qed

text \<open>A reader of one field: the decimal length, the colon, that many bytes.\<close>

definition parse_field :: "string \<Rightarrow> (string \<times> string) option" where
  "parse_field s =
     (let n = digits_value 10 (takeWhile (is_base_digit 10) s) in
      case dropWhile (is_base_digit 10) s of
        c # r \<Rightarrow> if c = CHR '':'' then Some (take n r, drop n r) else None
      | [] \<Rightarrow> None)"

definition field_bytes :: "string \<Rightarrow> string" where
  "field_bytes d = to_decimal (length d) @ '':'' @ d"

lemma Hasher_Field_bytes: "Hasher_Field st d = st @ field_bytes d"
  by (simp add: Hasher_Field_def Hasher_Update_def field_bytes_def)

lemma fields_bytes: "hash_fields st fs = st @ concat (map field_bytes fs)"
  by (induction fs arbitrary: st) (auto simp: Hasher_Field_bytes)

lemma parse_field_bytes: "parse_field (field_bytes d @ r) = Some (d, r)"
proof -
  have "\<forall>c \<in> set (to_decimal (length d)). is_base_digit 10 c"
    using to_decimal_digit by blast
  moreover have "\<not> is_base_digit 10 CHR '':''"
    by (simp add: is_base_digit_def digit_value_def)
  ultimately show ?thesis
    by (simp add: parse_field_def field_bytes_def takeWhile_append2 dropWhile_append2
        digits_value_to_base)
qed

interpretation field: nonempty_framing field_bytes parse_field "\<lambda>_. True"
  by unfold_locales (simp_all add: parse_field_bytes parse_field_def [of "[]"])

lemma fields_inject: "hash_fields st fs = hash_fields st gs \<longleftrightarrow> fs = gs"
  using field.enc_concat_inject [of fs gs] by (auto simp: fields_bytes)

lemma ParseUint_to_decimal:
  "ParseUint (to_decimal n) 10 = (if n < 2 ^ 64 then Some n else None)"
proof -
  have d: "\<forall>c \<in> set (to_decimal n). is_base_digit 10 c" using to_decimal_digit by blast
  then have tr: "Trim (to_decimal n) = to_decimal n"
    by (intro Trim_no_blank) (auto dest: is_trim_digit)
  have tw: "takeWhile (is_base_digit 10) (to_decimal n) = to_decimal n"
    "dropWhile (is_base_digit 10) (to_decimal n) = []" using d by auto
  show ?thesis
    by (simp only: ParseUint_def from_chars_def Let_def tr tw) (simp add: digits_value_to_base)
qed

lemma ParseUint_to_base:
  assumes "2 \<le> b" "b \<le> 36" "n < 2 ^ 64"
  shows "ParseUint (to_base b n) b = Some n"
proof -
  have "Trim (to_base b n) = to_base b n"
    using to_base_digits [OF assms(1,2)] by (intro Trim_no_blank) (auto dest: is_trim_digit)
  then show ?thesis
    using from_chars_to_base [OF assms, of "[]"] by (simp add: ParseUint_def)
qed

lemma base_digit_no_blank:
  assumes "2 \<le> b" "b \<le> 36" shows "CHR '' '' \<notin> set (to_base b n)" "newline \<notin> set (to_base b n)"
  using to_base_digits [OF assms, of "CHR '' ''" n] to_base_digits [OF assms, of newline n]
  by (auto simp: is_base_digit_def digit_value_def Let_def split: if_splits)

section \<open>Reading a file\<close>

lemma min_eq_0: "min a b = (0 :: nat) \<longleftrightarrow> a = 0 \<or> b = 0"
  by (auto simp: min_def)

lemma read_fill_no_error:
  "\<forall>i. sz i \<noteq> None \<Longrightarrow> read_fill sz cap out rem n = (out', rem', n', f) \<Longrightarrow> \<not> f"
proof (induction sz cap out rem n rule: read_fill.induct)
  case (1 sz cap out rem n)
  then show ?case
    by (subst (asm) (2) read_fill.simps) (auto simp: Let_def split: if_splits option.splits, metis option.distinct(1))
qed

lemma read_fill_eof:
  "read_fill sz cap out rem n = (out', rem', n', False) \<Longrightarrow> length out' < cap \<Longrightarrow> rem' = []"
proof (induction sz cap out rem n rule: read_fill.induct)
  case (1 sz cap out rem n)
  then show ?case
    by (subst (asm) (2) read_fill.simps) (auto simp: Let_def min_eq_0 split: if_splits option.splits)
qed

lemma read_loop_content: "read_loop sz want out rem n = Some s \<Longrightarrow> s = out @ rem"
proof (induction sz want out rem n rule: read_loop.induct)
  case (1 sz want out rem n)
  obtain out' rem' n' f where rf: "read_fill sz want out rem n = (out', rem', n', f)"
    by (cases "read_fill sz want out rem n")
  note c = read_fill_content [OF rf]
  show ?case
  proof (cases "length out' < want")
    case True
    with 1(2) rf have "\<not> f" "s = out'"
      by (auto simp: read_loop.simps [of sz want] split: if_splits)
    with True rf c read_fill_eof [of sz want out rem n] show ?thesis by fastforce
  next
    case False
    with 1(2) rf have "\<not> f" and r: "read_loop sz (length out' + kReadChunk) out' rem' n' = Some s"
      by (auto simp: read_loop.simps [of sz want] split: if_splits)
    from 1(1) [OF rf [symmetric] refl refl \<open>\<not> f\<close> False r] c show ?thesis by simp
  qed
qed

lemma read_loop_returns: "\<forall>i. sz i \<noteq> None \<Longrightarrow> read_loop sz want out rem n \<noteq> None"
proof (induction sz want out rem n rule: read_loop.induct)
  case (1 sz want out rem n)
  obtain out' rem' n' f where rf: "read_fill sz want out rem n = (out', rem', n', f)"
    by (cases "read_fill sz want out rem n")
  have "\<not> f" using read_fill_no_error [OF 1(2) rf] .
  with rf 1(1) [OF rf [symmetric] refl refl] 1(2) show ?case
    by (simp add: read_loop.simps [of sz want])
qed

section \<open>Descriptor ownership\<close>

text \<open>
  The process as \<^verbatim>\<open>UniqueFd\<close> sees it: \<open>handles\<close> has \<^verbatim>\<open>fd_\<close> of every object made so far (a
  destroyed one keeps \<open>-1\<close>), \<open>open_fds\<close> the descriptors the kernel has open for them,
  \<open>loose\<close> those handed to the caller by \<^verbatim>\<open>Release\<close>, \<open>bad_closes\<close> how often
  \<^verbatim>\<open>close\<close> got a number that was not open.
\<close>

record fd_world =
  handles :: "int list"
  open_fds :: "int list"
  loose :: "int list"
  bad_closes :: nat

definition fd_close :: "int \<Rightarrow> fd_world \<Rightarrow> fd_world" where
  "fd_close fd w =
     (if fd \<in> set (open_fds w) then w\<lparr>open_fds := remove1 fd (open_fds w)\<rparr>
      else w\<lparr>bad_closes := bad_closes w + 1\<rparr>)"

definition UniqueFd_Release :: "nat \<Rightarrow> fd_world \<Rightarrow> int \<times> fd_world" where
  "UniqueFd_Release i w = (handles w ! i, w\<lparr>handles := (handles w)[i := -1]\<rparr>)"

definition UniqueFd_Reset :: "nat \<Rightarrow> int \<Rightarrow> fd_world \<Rightarrow> fd_world" where
  "UniqueFd_Reset i raw_fd w =
     (let w' = (if 0 \<le> handles w ! i then fd_close (handles w ! i) w else w)
      in w'\<lparr>handles := (handles w')[i := raw_fd]\<rparr>)"

definition UniqueFd_assign :: "nat \<Rightarrow> nat \<Rightarrow> fd_world \<Rightarrow> fd_world" where
  "UniqueFd_assign i other w =
     (if i \<noteq> other then (case UniqueFd_Release other w of (raw, w') \<Rightarrow> UniqueFd_Reset i raw w')
      else w)"

definition UniqueFd_move :: "nat \<Rightarrow> fd_world \<Rightarrow> fd_world" where
  "UniqueFd_move other w =
     (case UniqueFd_Release other w of (raw, w') \<Rightarrow> w'\<lparr>handles := handles w' @ [raw]\<rparr>)"

definition UniqueFd_destroy :: "nat \<Rightarrow> fd_world \<Rightarrow> fd_world" where
  "UniqueFd_destroy i w = UniqueFd_Reset i (-1) w"

text \<open>The kernel gives a number that is not open, or \<open>-1\<close>.\<close>

definition fd_open :: "int \<Rightarrow> fd_world \<Rightarrow> fd_world" where
  "fd_open raw w = (if 0 \<le> raw then w\<lparr>open_fds := raw # open_fds w\<rparr> else w)"

inductive fd_step :: "fd_world \<Rightarrow> fd_world \<Rightarrow> bool" where
  fd_default: "fd_step w (w\<lparr>handles := handles w @ [-1]\<rparr>)"
| fd_construct: "raw \<notin> set (open_fds w) \<Longrightarrow>
    fd_step w ((fd_open raw w)\<lparr>handles := handles (fd_open raw w) @ [raw]\<rparr>)"
| fd_reset: "\<lbrakk>raw \<notin> set (open_fds w); i < length (handles w)\<rbrakk> \<Longrightarrow>
    fd_step w (UniqueFd_Reset i raw (fd_open raw w))"
| fd_move: "j < length (handles w) \<Longrightarrow> fd_step w (UniqueFd_move j w)"
| fd_assign: "\<lbrakk>i < length (handles w); j < length (handles w)\<rbrakk> \<Longrightarrow> fd_step w (UniqueFd_assign i j w)"
| fd_release: "i < length (handles w) \<Longrightarrow> UniqueFd_Release i w = (raw, w') \<Longrightarrow>
    fd_step w (w'\<lparr>loose := (if 0 \<le> raw then raw # loose w' else loose w')\<rparr>)"
| fd_destroy: "i < length (handles w) \<Longrightarrow> fd_step w (UniqueFd_destroy i w)"

definition fd_init :: fd_world where
  "fd_init = \<lparr>handles = [], open_fds = [], loose = [], bad_closes = 0\<rparr>"

abbreviation owned :: "int list \<Rightarrow> int multiset" where
  "owned hs \<equiv> filter_mset (\<lambda>fd. 0 \<le> fd) (mset hs)"

definition fd_inv :: "fd_world \<Rightarrow> bool" where
  "fd_inv w \<longleftrightarrow> distinct (open_fds w) \<and> bad_closes w = 0
     \<and> owned (handles w) + mset (loose w) = mset (open_fds w)"

lemma owned_update:
  "i < length hs \<Longrightarrow> owned (hs[i := x]) =
     (if 0 \<le> x then {#x#} else {#}) + (owned hs - (if 0 \<le> hs ! i then {#hs ! i#} else {#}))"
  by (simp add: mset_update)

lemma owned_nth: "i < length hs \<Longrightarrow> 0 \<le> hs ! i \<Longrightarrow> hs ! i \<in># owned hs"
  by simp

text \<open>Descriptors neither appear nor vanish when a handle is emptied into another place.\<close>

lemma fd_inv_reset:
  assumes "distinct (open_fds w)" "bad_closes w = 0" "i < length (handles w)"
    and m: "owned (handles w) + mset (loose w) + (if 0 \<le> raw then {#raw#} else {#}) = mset (open_fds w)"
  shows "fd_inv (UniqueFd_Reset i raw w)"
proof (cases "0 \<le> handles w ! i")
  case True
  then have h: "handles w ! i \<in># owned (handles w)" using assms(3) by simp
  then obtain M where M: "owned (handles w) = add_mset (handles w ! i) M" by (meson mset_add)
  then have "handles w ! i \<in># mset (open_fds w)" using m by (metis union_iff union_single_eq_member)
  moreover have "(if 0 \<le> raw then {#raw#} else {#}) + M + mset (loose w) = mset (open_fds w) - {#handles w ! i#}"
    unfolding m [symmetric] M by (simp add: ac_simps)
  ultimately show ?thesis
    using assms True unfolding fd_inv_def
    by (simp add: UniqueFd_Reset_def fd_close_def owned_update M Let_def)
next
  case False
  then show ?thesis
    using assms unfolding fd_inv_def
    by (simp add: UniqueFd_Reset_def owned_update Let_def ac_simps)
qed

lemma owned_take_out:
  assumes "i < length hs"
  shows "owned (hs[i := -1]) + (if 0 \<le> hs ! i then {#hs ! i#} else {#}) = owned hs"
proof (cases "0 \<le> hs ! i")
  case True
  then have "hs ! i \<in># owned hs" using assms by simp
  then show ?thesis using True assms by (simp add: owned_update)
qed (simp add: owned_update assms)

lemma fd_inv_step:
  assumes step: "fd_step w w'" and inv: "fd_inv w"
  shows "fd_inv w'"
  using step
proof cases
  case fd_default
  with inv show ?thesis by (simp add: fd_inv_def)
next
  case (fd_construct raw)
  with inv show ?thesis by (auto simp: fd_inv_def fd_open_def)
next
  case (fd_reset raw i)
  with inv [unfolded fd_inv_def] show ?thesis
    by (auto simp: fd_open_def intro!: fd_inv_reset)
next
  case (fd_move j)
  with inv owned_take_out [of j "handles w"] show ?thesis
    by (auto simp: fd_inv_def UniqueFd_move_def UniqueFd_Release_def ac_simps split: if_splits)
       (metis union_mset_add_mset_right)
next
  case (fd_assign i j)
  with inv inv [unfolded fd_inv_def] owned_take_out [of j "handles w"] show ?thesis
    by (cases "i = j")
       (auto simp: UniqueFd_assign_def UniqueFd_Release_def ac_simps intro!: fd_inv_reset)
next
  case (fd_release i raw u)
  with inv owned_take_out [of i "handles w"] show ?thesis
    by (auto simp: fd_inv_def UniqueFd_Release_def ac_simps split: if_splits)
       (metis union_mset_add_mset_right)
next
  case (fd_destroy i)
  with inv [unfolded fd_inv_def] show ?thesis
    by (auto simp: UniqueFd_destroy_def intro!: fd_inv_reset)
qed

interpretation fds: invariant_system "\<lambda>w. w = fd_init" fd_step fd_inv
  by unfold_locales (simp add: fd_inv_def fd_init_def, rule fd_inv_step)

section \<open>Properties\<close>

text \<open>C33. Two sequences of \<^verbatim>\<open>Hasher::Field\<close> calls feed BLAKE3 the same bytes only when they are the
  same sequence: no byte inside a field can fake a boundary, whatever the fields and their number.\<close>

theorem hasher_fields_injective:
  "foldl Hasher_Field [] fs = foldl Hasher_Field [] gs \<longleftrightarrow> fs = gs"
  by (rule fields_inject)

text \<open>\<^verbatim>\<open>ReadFile\<close> returns the whole file or nothing: however \<^verbatim>\<open>read\<close> cuts the file, whatever
  \<^verbatim>\<open>fstat\<close> claimed its size to be, the result is never a part of it, and when no read fails it is
  the file.\<close>

lemma read_file_whole:
  "ReadFile sz known content \<in> {None, Some content}
   \<and> ((\<forall>i. sz i \<noteq> None) \<longrightarrow> ReadFile sz known content = Some content)"
proof -
  let ?want = "if 0 < known then known + 1 else kReadChunk"
  have "ReadFile sz known content = Some s \<Longrightarrow> s = content" for s
    using read_loop_content [of sz ?want "[]" content 0 s] by (simp add: ReadFile_def)
  moreover have "\<forall>i. sz i \<noteq> None \<Longrightarrow> ReadFile sz known content \<noteq> None"
    unfolding ReadFile_def by (rule read_loop_returns)
  ultimately show ?thesis by (metis insertCI not_None_eq)
qed

theorem read_file_whole_witness:
  "ReadFile (\<lambda>i. Some 1) 2 ''abcdef'' = Some ''abcdef''"
  using read_file_whole [of "\<lambda>i. Some 1" 2 "''abcdef''"] by simp

text \<open>C34. \<^verbatim>\<open>TokenizeGnu\<close> reads a response file the way its comment says: words written in any mix of
  plain characters, backslash escapes and quotes, and separated by white space, come back as they
  are.\<close>

theorem tokenize_gnu_words:
  assumes "list_all2 gnu_word ws ts" and "sp \<noteq> []" and "\<forall>c \<in> set sp. isspace c"
  shows "TokenizeGnu (concat (map (\<lambda>t. t @ sp) ts)) = ws"
  using assms(1) unfolding TokenizeGnu_def
proof (induction rule: list_all2_induct)
  case (Cons w ws t ts)
  then show ?case
    using tokenize_word [of w t "sp @ concat (map (\<lambda>t. t @ sp) ts)"] assms(2,3)
    by (simp add: tokenize_space_end)
qed simp

lemma gnu_word_example:
  "gnu_word ''a b'' (''a'' @ [backslash] @ '' b'')"
  "gnu_word ''c d'' ([dquote] @ ''c d'' @ [dquote])"
  using gt_quoted [of dquote "''c d''" "''c d''" "[]" "[]"]
  by (auto simp: gnu_word_def isspace_def intro!: gnu_text.intros gnu_quoted.intros)

theorem tokenize_gnu_words_witness:
  "TokenizeGnu (concat (map (\<lambda>t. t @ '' '')
     [''a'' @ [backslash] @ '' b'', [dquote] @ ''c d'' @ [dquote]])) = [''a b'', ''c d'']"
  by (rule tokenize_gnu_words) (simp_all add: gnu_word_example [simplified] isspace_def)

text \<open>\<^verbatim>\<open>Split\<close> and \<^verbatim>\<open>Join\<close> on a one character separator undo each other: a list of non-empty
  words free of the separator survives the round trip, and a text split with its empty fields kept
  comes back without its leading separators.\<close>

lemma split_join_round_trip:
  "((\<forall>w \<in> set ws. w \<noteq> [] \<and> sep \<notin> set w) \<longrightarrow> Split (Join ws [sep]) sep False = ws)
   \<and> Join (Split t sep True) [sep] = dropWhile (\<lambda>c. c = sep) t"
proof
  show "(\<forall>w \<in> set ws. w \<noteq> [] \<and> sep \<notin> set w) \<longrightarrow> Split (Join ws [sep]) sep False = ws"
    by (cases ws) (auto simp: Split_eq Join_Cons split_char_join_tail)
  show "Join (Split t sep True) [sep] = dropWhile (\<lambda>c. c = sep) t"
    by (simp add: Split_eq dropWhile_sep_split)
qed

theorem split_join_round_trip_witness:
  "Split (Join [''ab'', ''c''] '':'') CHR '':'' False = [''ab'', ''c'']"
  using split_join_round_trip [of "[''ab'', ''c'']" "CHR '':''"] by simp

text \<open>C35. Descriptors owned by \<^verbatim>\<open>UniqueFd\<close> are closed once and never leaked: after any sequence of
  constructions, moves, assignments (to itself too), resets, releases and destructions, no
  \<^verbatim>\<open>close\<close> hit a number that was not open, and the open descriptors are those of the handles and
  those the caller took with \<^verbatim>\<open>Release\<close>, each exactly once.\<close>

theorem unique_fd_no_leak_no_double_close:
  assumes "fd_step\<^sup>*\<^sup>* fd_init w"
  shows "bad_closes w = 0 \<and> distinct (open_fds w)
    \<and> mset (filter (\<lambda>fd. 0 \<le> fd) (handles w)) + mset (loose w) = mset (open_fds w)"
  using fds.inv_reachable [OF refl assms] by (simp add: fd_inv_def)

theorem unique_fd_no_leak_no_double_close_witness:
  "bad_closes (UniqueFd_destroy 0 (fd_init\<lparr>handles := [3], open_fds := [3]\<rparr>)) = 0"
proof -
  have "fd_step fd_init (fd_init\<lparr>handles := [3], open_fds := [3]\<rparr>)"
    using fd_construct [of 3 fd_init] by (simp add: fd_init_def fd_open_def)
  moreover have "fd_step (fd_init\<lparr>handles := [3], open_fds := [3]\<rparr>)
      (UniqueFd_destroy 0 (fd_init\<lparr>handles := [3], open_fds := [3]\<rparr>))"
    by (rule fd_destroy) simp
  ultimately have "fd_step\<^sup>*\<^sup>* fd_init (UniqueFd_destroy 0 (fd_init\<lparr>handles := [3], open_fds := [3]\<rparr>))"
    by (rule converse_rtranclp_into_rtranclp [OF _ r_into_rtranclp])
  then show ?thesis by (rule unique_fd_no_leak_no_double_close [THEN conjunct1])
qed

end
