(* ===== verification/Cpp_Path.thy ===== *)
theory Cpp_Path
  imports Jig_Base
begin

text \<open>
  What the code uses of \<^verbatim>\<open>std::filesystem::path\<close>, lexically, on a POSIX system: a path is its
  text.  \<open>path_elems\<close> is the iteration of a path (root directory, names, and an empty last
  element for a trailing separator).  \<open>walk\<close> is what a path means in a tree without symbolic
  links: the directory reached from a start directory, innermost name first.  Normalising a path
  and making it relative are proved against \<open>walk\<close>.
\<close>

section \<open>Operations\<close>

abbreviation slash :: char where "slash \<equiv> CHR ''/''"

definition path_names :: "string \<Rightarrow> string list" where
  "path_names s = filter (\<lambda>w. w \<noteq> []) (split_char slash s)"

definition is_absolute :: "string \<Rightarrow> bool" where
  "is_absolute s \<longleftrightarrow> starts_with s ''/''"

definition path_elems :: "string \<Rightarrow> string list" where
  "path_elems s =
     (if is_absolute s then [''/''] else []) @ path_names s
       @ (if path_names s \<noteq> [] \<and> last s = slash then [[]] else [])"

definition path_append :: "string \<Rightarrow> string \<Rightarrow> string" where
  "path_append a b =
     (if is_absolute b then b
      else if a \<noteq> [] \<and> last a \<noteq> slash then a @ slash # b
      else a @ b)"

definition path_filename :: "string \<Rightarrow> string" where
  "path_filename s = rev (takeWhile (\<lambda>c. c \<noteq> slash) (rev s))"

definition parent_path :: "string \<Rightarrow> string" where
  "parent_path s =
     (let d = rev (dropWhile (\<lambda>c. c \<noteq> slash) (rev s));
          e = rev (dropWhile (\<lambda>c. c = slash) (rev d))
      in if e = [] then d else e)"

text \<open>The position of the dot that starts the extension of a file name.\<close>

definition ext_pos :: "string \<Rightarrow> nat option" where
  "ext_pos name =
     (if name = ''..'' then None
      else case str_rfind name ''.'' of
             None \<Rightarrow> None
           | Some i \<Rightarrow> if i = 0 then None else Some i)"

definition path_extension :: "string \<Rightarrow> string" where
  "path_extension s =
     (let name = path_filename s in case ext_pos name of None \<Rightarrow> [] | Some i \<Rightarrow> drop i name)"

definition path_stem :: "string \<Rightarrow> string" where
  "path_stem s =
     (let name = path_filename s in case ext_pos name of None \<Rightarrow> name | Some i \<Rightarrow> take i name)"

definition replace_extension :: "string \<Rightarrow> string \<Rightarrow> string" where
  "replace_extension s ext =
     (let base = take (length s - length (path_extension s)) s in
      if ext = [] then base
      else if hd ext = CHR ''.'' then base @ ext
      else base @ CHR ''.'' # ext)"

text \<open>One element met by \<^verbatim>\<open>lexically_normal\<close>: the stack of parts kept, the last one first, and
  whether a trailing separator may be needed.\<close>

definition norm_elem :: "string list \<times> bool \<Rightarrow> string \<Rightarrow> string list \<times> bool" where
  "norm_elem st e =
     (case st of (stk, tr) \<Rightarrow>
        if e = [] \<or> e = ''.'' then (stk, True)
        else if e = ''..'' then
          (case stk of
             [] \<Rightarrow> ([''..''], False)
           | x # xs \<Rightarrow>
               if x = ''/'' then (stk, False)
               else if x = ''..'' then (''..'' # stk, False)
               else (xs, True))
        else (e # stk, False))"

definition lexically_normal :: "string \<Rightarrow> string" where
  "lexically_normal s =
     (if s = [] then []
      else case foldl norm_elem ([], False) (path_elems s) of (stk, tr) \<Rightarrow>
        if stk = [] then ''.''
        else (let r = foldl path_append [] (rev stk) in
              if tr \<and> hd stk \<noteq> ''/'' \<and> hd stk \<noteq> ''..'' then path_append r [] else r))"

fun strip_common :: "string list \<Rightarrow> string list \<Rightarrow> string list \<times> string list" where
  "strip_common (x # xs) (y # ys) = (if x = y then strip_common xs ys else (x # xs, y # ys))"
| "strip_common xs ys = (xs, ys)"

definition elem_count :: "string list \<Rightarrow> int" where
  "elem_count es =
     foldl (\<lambda>n e. if e = ''..'' then n - 1 else if e = ''.'' \<or> e = [] then n else n + 1) 0 es"

definition lexically_relative :: "string \<Rightarrow> string \<Rightarrow> string" where
  "lexically_relative p base =
     (if is_absolute p \<noteq> is_absolute base then []
      else case strip_common (path_elems p) (path_elems base) of (a, b) \<Rightarrow>
        if a = [] \<and> b = [] then ''.''
        else (let n = elem_count b in
              if n < 0 then []
              else if n = 0 \<and> (a = [] \<or> hd a = []) then ''.''
              else foldl path_append (foldl path_append [] (replicate (nat n) ''..'')) a))"

section \<open>Meaning\<close>

definition walk1 :: "string list \<Rightarrow> string \<Rightarrow> string list" where
  "walk1 d e =
     (if e = [] \<or> e = ''.'' then d
      else if e = ''..'' then tl d
      else if e = ''/'' then []
      else e # d)"

definition walk :: "string list \<Rightarrow> string \<Rightarrow> string list" where
  "walk d s = foldl walk1 d (path_elems s)"

section \<open>Printing and iterating\<close>

definition is_name :: "string \<Rightarrow> bool" where
  "is_name w \<longleftrightarrow> w \<noteq> [] \<and> slash \<notin> set w"

lemma path_names_are_names: "w \<in> set (path_names s) \<Longrightarrow> is_name w"
  by (auto simp: path_names_def is_name_def dest: split_char_fields)

lemma is_absolute_Cons [simp]: "is_absolute (c # s) \<longleftrightarrow> c = slash"
  by (simp add: is_absolute_def starts_with_Cons)

lemma is_absolute_Nil [simp]: "\<not> is_absolute []"
  by (simp add: is_absolute_def starts_with_def)

lemma is_name_not_absolute: "is_name w \<Longrightarrow> \<not> is_absolute w"
  by (cases w) (auto simp: is_name_def)

lemma is_name_last: "is_name w \<Longrightarrow> last w \<noteq> slash"
  by (auto simp: is_name_def dest: last_in_set)

lemma is_name_dots [simp]: "is_name ''.''" "is_name ''..''"
  by (simp_all add: is_name_def)

text \<open>The text of a path with the given parts.\<close>

definition show_names :: "string list \<Rightarrow> string" where
  "show_names ns = (case ns of [] \<Rightarrow> [] | n # ns \<Rightarrow> n @ concat (map (\<lambda>n. slash # n) ns))"

lemma show_names_simps [simp]:
  "show_names [] = []" "show_names (n # ns) = n @ concat (map (\<lambda>n. slash # n) ns)"
  by (simp_all add: show_names_def)

lemma append_names:
  "\<forall>n \<in> set ns. is_name n \<Longrightarrow> acc \<noteq> [] \<Longrightarrow> last acc \<noteq> slash \<Longrightarrow>
   foldl path_append acc ns = acc @ concat (map (\<lambda>n. slash # n) ns)"
proof (induction ns arbitrary: acc)
  case (Cons n ns)
  then have "path_append acc n = acc @ slash # n" "last (acc @ slash # n) \<noteq> slash"
    by (auto simp: path_append_def is_name_not_absolute is_name_last) (simp add: is_name_def)
  with Cons show ?case by simp
qed simp

lemma append_names_Nil: "\<forall>n \<in> set ns. is_name n \<Longrightarrow> foldl path_append [] ns = show_names ns"
proof (cases ns)
  case (Cons n ns')
  moreover assume "\<forall>n \<in> set ns. is_name n"
  ultimately show ?thesis
    using append_names [of ns' n] by (auto simp: path_append_def is_name_not_absolute is_name_last)
      (auto simp: is_name_def)
qed simp

lemma split_show_names:
  "\<forall>n \<in> set ns. is_name n \<Longrightarrow> ns \<noteq> [] \<Longrightarrow> split_char slash (show_names ns) = ns"
  by (cases ns) (auto simp: split_char_join_tail is_name_def)

lemma split_char_snoc: "split_char sep (s @ [sep]) = split_char sep s @ [[]]"
  by (induction s) auto

lemma path_names_show [simp]:
  assumes "\<forall>n \<in> set ns. is_name n"
  shows "path_names (show_names ns) = ns" "path_names (slash # show_names ns) = ns"
    and "path_names (show_names ns @ [slash]) = ns" "path_names (slash # show_names ns @ [slash]) = ns"
proof -
  have f: "filter (\<lambda>w. w \<noteq> []) ns = ns"
    using assms by (auto simp: is_name_def filter_id_conv)
  show "path_names (show_names ns) = ns" "path_names (slash # show_names ns) = ns"
    "path_names (show_names ns @ [slash]) = ns" "path_names (slash # show_names ns @ [slash]) = ns"
    by (cases "ns = []"; simp add: path_names_def split_show_names split_char_snoc assms f)+
qed

lemma show_names_append:
  "ns \<noteq> [] \<Longrightarrow> show_names (ns @ [n]) = show_names ns @ slash # n"
  by (cases ns) auto

lemma show_names_last:
  "\<forall>n \<in> set ns. is_name n \<Longrightarrow> ns \<noteq> [] \<Longrightarrow> show_names ns \<noteq> [] \<and> last (show_names ns) \<noteq> slash"
proof (cases ns rule: rev_cases)
  case (snoc ns' n)
  moreover assume "\<forall>n \<in> set ns. is_name n"
  ultimately show ?thesis
    by (cases "ns' = []") (auto simp: show_names_append is_name_last is_name_def dest: last_in_set)
qed simp

lemma show_names_not_absolute: "\<forall>n \<in> set ns. is_name n \<Longrightarrow> \<not> is_absolute (show_names ns)"
  by (cases ns; cases "hd ns") (auto simp: is_name_def)

lemma path_elems_show:
  assumes "\<forall>n \<in> set ns. is_name n" and "ns \<noteq> []"
  shows "path_elems (show_names ns) = ns" "path_elems (slash # show_names ns) = ''/'' # ns"
    and "path_elems (show_names ns @ [slash]) = ns @ [[]]"
    and "path_elems (slash # show_names ns @ [slash]) = ''/'' # ns @ [[]]"
proof -
  note l = show_names_last [OF assms]
  have "\<not> is_absolute (show_names ns @ [slash])"
    using show_names_not_absolute [OF assms(1)] l by (cases "show_names ns") auto
  then show "path_elems (show_names ns) = ns" "path_elems (slash # show_names ns) = ''/'' # ns"
    "path_elems (show_names ns @ [slash]) = ns @ [[]]"
    "path_elems (slash # show_names ns @ [slash]) = ''/'' # ns @ [[]]"
    using assms l show_names_not_absolute [OF assms(1)] by (simp_all add: path_elems_def)
qed

lemma path_elems_root [simp]: "path_elems ''/'' = [''/'']"
  by (simp add: path_elems_def path_names_def)

lemma path_elems_Nil [simp]: "path_elems [] = []"
  by (simp add: path_elems_def path_names_def)

section \<open>Normalising\<close>

text \<open>The stack of \<^verbatim>\<open>lexically_normal\<close>: plain names above the root or above a run of \<^verbatim>\<open>..\<close>.\<close>

fun well_stack :: "string list \<Rightarrow> bool" where
  "well_stack [] = True"
| "well_stack (x # stk) \<longleftrightarrow>
     x = ''/'' \<and> stk = []
     \<or> is_name x \<and> x \<noteq> ''.'' \<and> well_stack stk \<and> (x = ''..'' \<longrightarrow> (\<forall>y \<in> set stk. y = ''..''))"

lemma not_name_root [simp]: "\<not> is_name ''/''" "\<not> is_name []"
  by (simp_all add: is_name_def)

lemma well_stack_decomp:
  "well_stack stk \<Longrightarrow>
   \<exists>ns. (stk = rev ns \<or> stk = rev ns @ [''/'']) \<and> (\<forall>n \<in> set ns. is_name n \<and> n \<noteq> ''.'')"
proof (induction stk)
  case Nil
  then show ?case by (intro exI [of _ "[]"]) simp
next
  case (Cons x stk)
  show ?case
  proof (cases "x = ''/''")
    case True
    with Cons.prems show ?thesis by (intro exI [of _ "[]"]) simp
  next
    case False
    with Cons obtain ns where "stk = rev ns \<or> stk = rev ns @ [''/'']"
      "\<forall>n \<in> set ns. is_name n \<and> n \<noteq> ''.''" by auto
    with Cons.prems False show ?thesis by (intro exI [of _ "ns @ [x]"]) auto
  qed
qed

lemma norm_elem_well:
  "\<lbrakk>well_stack stk; norm_elem (stk, tr) e = (stk', tr'); is_name e \<or> e = [] \<or> (e = ''/'' \<and> stk = [])\<rbrakk>
   \<Longrightarrow> well_stack stk'"
  by (cases stk) (auto simp: norm_elem_def split: if_splits)

lemma norm_fold_well:
  "\<forall>e \<in> set es. is_name e \<or> e = [] \<Longrightarrow> well_stack (fst st) \<Longrightarrow> well_stack (fst (foldl norm_elem st es))"
proof (induction es arbitrary: st)
  case (Cons e es)
  obtain stk' tr' where st': "norm_elem st e = (stk', tr')" by (cases "norm_elem st e")
  moreover have "well_stack stk'"
    using norm_elem_well [of "fst st" "snd st" e stk' tr'] Cons.prems st' by auto
  ultimately show ?case using Cons.IH [of "norm_elem st e"] Cons.prems by simp
qed simp

text \<open>The stack means what the elements read so far mean.\<close>

abbreviation stack_walk :: "string list \<Rightarrow> string list \<Rightarrow> string list" where
  "stack_walk d stk \<equiv> foldl walk1 d (rev stk)"

lemma norm_elem_walk:
  "well_stack (fst st) \<Longrightarrow> e \<noteq> ''/'' \<or> fst st = [] \<Longrightarrow>
   stack_walk d (fst (norm_elem st e)) = walk1 (stack_walk d (fst st)) e"
  by (cases st; cases "fst st") (auto simp: norm_elem_def walk1_def)

lemma norm_fold_walk:
  "\<forall>e \<in> set es. is_name e \<or> e = [] \<Longrightarrow> well_stack (fst st) \<Longrightarrow>
   stack_walk d (fst (foldl norm_elem st es)) = foldl walk1 (stack_walk d (fst st)) es"
proof (induction es arbitrary: st)
  case (Cons e es)
  then have "e \<noteq> ''/''" by auto
  moreover have "well_stack (fst (norm_elem st e))"
    using norm_fold_well [of "[e]" st] Cons.prems by simp
  ultimately show ?case
    using Cons.IH [of "norm_elem st e"] Cons.prems by (simp add: norm_elem_walk)
qed simp

lemma norm_elem_root: "norm_elem ([], False) ''/'' = ([''/''], False)"
  by (simp add: norm_elem_def)

lemma path_elems_body:
  obtains es where "path_elems s = es \<or> path_elems s = ''/'' # es" "\<forall>e \<in> set es. is_name e \<or> e = []"
proof
  let ?es = "path_names s @ (if path_names s \<noteq> [] \<and> last s = slash then [[]] else [])"
  show "path_elems s = ?es \<or> path_elems s = ''/'' # ?es" by (simp add: path_elems_def)
  show "\<forall>e \<in> set ?es. is_name e \<or> e = []" by (auto dest: path_names_are_names)
qed

lemma norm_path:
  "well_stack (fst (foldl norm_elem ([], False) (path_elems s)))"
  "stack_walk d (fst (foldl norm_elem ([], False) (path_elems s))) = walk d s"
proof -
  obtain es where es: "path_elems s = es \<or> path_elems s = ''/'' # es" "\<forall>e \<in> set es. is_name e \<or> e = []"
    by (rule path_elems_body)
  then show "well_stack (fst (foldl norm_elem ([], False) (path_elems s)))"
    using norm_fold_well [OF es(2), of "([], False)"] norm_fold_well [OF es(2), of "([''/''], False)"]
    by (auto simp: norm_elem_root)
  show "stack_walk d (fst (foldl norm_elem ([], False) (path_elems s))) = walk d s"
    using es norm_fold_walk [OF es(2), of "([], False)" d] norm_fold_walk [OF es(2), of "([''/''], False)" d]
    by (auto simp: walk_def norm_elem_root walk1_def)
qed

lemma well_stack_fixed:
  "well_stack stk \<Longrightarrow> foldl norm_elem ([], False) (rev stk) = (stk, False)"
  by (induction stk) (auto simp: norm_elem_def split: list.split)

definition normal_trail :: "string list \<Rightarrow> bool \<Rightarrow> bool" where
  "normal_trail stk tr \<longleftrightarrow> tr \<and> stk \<noteq> [] \<and> hd stk \<noteq> ''/'' \<and> hd stk \<noteq> ''..''"

lemma stack_text_elems:
  assumes "well_stack stk" "stk \<noteq> []"
  defines "r \<equiv> foldl path_append [] (rev stk)"
  shows "r \<noteq> []" "path_elems r = rev stk"
    and "hd stk \<noteq> ''/'' \<Longrightarrow> path_elems (path_append r []) = rev stk @ [[]]"
    and "hd stk \<noteq> ''/'' \<Longrightarrow> last r \<noteq> slash"
proof -
  obtain ns where ns: "stk = rev ns \<or> stk = rev ns @ [''/'']" "\<forall>n \<in> set ns. is_name n"
    using well_stack_decomp [OF assms(1)] by blast
  have "r \<noteq> [] \<and> path_elems r = rev stk \<and>
    (hd stk \<noteq> ''/'' \<longrightarrow> path_elems (path_append r []) = rev stk @ [[]] \<and> last r \<noteq> slash)"
  proof (cases "stk = rev ns")
    case True
    then have "ns \<noteq> []" using assms(2) by simp
    moreover have "r = show_names ns" by (simp add: r_def True append_names_Nil ns(2))
    ultimately show ?thesis
      using path_elems_show [OF ns(2)] show_names_last [OF ns(2)] True
      by (simp add: path_append_def)
  next
    case False
    then have stk: "stk = rev ns @ [''/'']" using ns by simp
    show ?thesis
    proof (cases ns)
      case Nil
      then show ?thesis by (simp add: r_def stk path_append_def)
    next
      case (Cons n ns')
      have "path_append [] ''/'' = ''/''" "path_append ''/'' n = slash # n"
        using ns(2) Cons by (auto simp: path_append_def is_name_not_absolute)
      moreover have "n \<noteq> []" "last n \<noteq> slash" using ns(2) Cons by (auto simp: is_name_last)
      ultimately have "r = slash # show_names ns"
        using append_names [of ns' "slash # n"] ns(2) by (simp add: r_def stk Cons)
      then show ?thesis
        using path_elems_show [OF ns(2)] show_names_last [OF ns(2)] Cons stk
        by (simp add: path_append_def)
    qed
  qed
  then show "r \<noteq> []" "path_elems r = rev stk"
    "hd stk \<noteq> ''/'' \<Longrightarrow> path_elems (path_append r []) = rev stk @ [[]]"
    "hd stk \<noteq> ''/'' \<Longrightarrow> last r \<noteq> slash" by blast+
qed

lemma lexically_normal_elems:
  assumes "s \<noteq> []" "foldl norm_elem ([], False) (path_elems s) = (stk, tr)"
  shows "path_elems (lexically_normal s) =
    (if stk = [] then [''.''] else rev stk @ (if normal_trail stk tr then [[]] else []))"
proof -
  have w: "well_stack stk" using norm_path(1) [of s] assms(2) by simp
  have "path_elems ''.'' = [''.'']" by (simp add: path_elems_def path_names_def)
  then show ?thesis
    using assms stack_text_elems [OF w] by (auto simp: lexically_normal_def normal_trail_def Let_def)
qed

lemma walk_lexically_normal: "walk d (lexically_normal s) = walk d s"
proof (cases "s = []")
  case False
  obtain stk tr where n: "foldl norm_elem ([], False) (path_elems s) = (stk, tr)"
    by (cases "foldl norm_elem ([], False) (path_elems s)")
  have "walk d s = foldl walk1 d (rev stk)" using norm_path(2) [of d s] n by simp
  then show ?thesis
    unfolding walk_def lexically_normal_elems [OF False n] by (auto simp: walk1_def)
qed (simp add: lexically_normal_def)

lemma lexically_normal_nonempty: "s \<noteq> [] \<Longrightarrow> lexically_normal s \<noteq> []"
  by (cases "foldl norm_elem ([], False) (path_elems s)")
     (use norm_path(1) [of s] stack_text_elems in
      \<open>auto simp: lexically_normal_def Let_def path_append_def\<close>)

lemma lexically_normal_idem [simp]: "lexically_normal (lexically_normal s) = lexically_normal s"
proof (cases "s = []")
  case False
  obtain stk tr where n: "foldl norm_elem ([], False) (path_elems s) = (stk, tr)"
    by (cases "foldl norm_elem ([], False) (path_elems s)")
  have w: "well_stack stk" using norm_path(1) [of s] n by simp
  have e: "foldl norm_elem ([], False) (path_elems (lexically_normal s))
      = (if stk = [] then ([], True) else (stk, normal_trail stk tr))"
    unfolding lexically_normal_elems [OF False n]
    by (auto simp: well_stack_fixed [OF w] norm_elem_def)
  show ?thesis
    using False lexically_normal_nonempty [OF False]
    by (simp add: lexically_normal_def [of "lexically_normal s"] e)
       (auto simp: lexically_normal_def n normal_trail_def Let_def)
qed (simp add: lexically_normal_def)

end
