(* ===== verification/Jig_Files.thy ===== *)
theory Jig_Files
  imports Cpp_Path
begin

text \<open>
  The parts of \<^verbatim>\<open>pkgs/ji/jig/src/base.cc\<close> that name files: \<^verbatim>\<open>OnPath\<close> and \<^verbatim>\<open>WriteFile\<close>.  A disk
  maps paths to contents.  What the system answers to the calls of \<^verbatim>\<open>WriteFile\<close> is the record
  \<open>write_io\<close>; the disk after every call is kept, because the promise of \<^verbatim>\<open>WriteFile\<close> is about
  what a concurrent reader may see.
\<close>

type_synonym disk = "string \<Rightarrow> string option"

definition OnPath :: "(string \<Rightarrow> string option) \<Rightarrow> (string \<Rightarrow> bool) \<Rightarrow> string \<Rightarrow> string" where
  "OnPath env ex name =
     (if \<not> str_contains name ''/'' then
        (case filter (\<lambda>dir. ex (path_append dir name)) (Split (Env env ''PATH'' []) CHR '':'' False) of
           dir # _ \<Rightarrow> path_append dir name
         | [] \<Rightarrow> name)
      else name)"

text \<open>\<open>opened\<close>: the stream is open; \<open>accepted\<close>: how many bytes reach the file before an
  error, if any; \<open>renamed\<close>: \<^verbatim>\<open>rename\<close> succeeds.\<close>

record write_io =
  opened :: bool
  accepted :: "nat option"
  renamed :: bool

definition out_fail :: "write_io \<Rightarrow> bool" where
  "out_fail io \<longleftrightarrow> \<not> opened io \<or> accepted io \<noteq> None"

definition tmp_name :: "nat \<Rightarrow> string \<Rightarrow> string" where
  "tmp_name pid path =
     path_append (parent_path path) (''.jig'' @ to_decimal pid @ ''.'' @ path_filename path)"

text \<open>The result, and the disks after opening, writing and closing, and removing or renaming.\<close>

definition WriteFile :: "write_io \<Rightarrow> nat \<Rightarrow> string \<Rightarrow> string \<Rightarrow> disk \<Rightarrow> bool \<times> disk list" where
  "WriteFile io pid path data d =
     (let tmp = tmp_name pid path;
          d1 = (if opened io then d(tmp \<mapsto> []) else d);
          d2 = (if opened io
                then d(tmp \<mapsto> (case accepted io of None \<Rightarrow> data | Some n \<Rightarrow> take n data)) else d)
      in if out_fail io then (False, [d1, d2, d2(tmp := None)])
         else if renamed io then (True, [d1, d2, (d2(tmp := None))(path := d2 tmp)])
         else (False, [d1, d2, d2]))"

lemma path_filename_no_slash: "slash \<notin> set (path_filename s)"
  by (auto simp: path_filename_def dest: set_takeWhileD)

lemma path_filename_append:
  assumes "slash \<notin> set b" "b \<noteq> []"
  shows "path_filename (path_append a b) = b"
proof -
  have f: "path_filename b = b" "path_filename (a @ slash # b) = b"
    using assms(1) by (simp_all add: path_filename_def takeWhile_append_char takeWhile_no_char)
  have "\<not> is_absolute b" using assms by (cases b) auto
  moreover have "path_filename (a @ b) = b" if "a \<noteq> []" "last a = slash"
    using that assms(1) by (cases a rule: rev_cases) (simp_all add: path_filename_def takeWhile_append_char)
  ultimately show ?thesis using f by (cases "a = []") (auto simp: path_append_def)
qed

lemma tmp_name_neq: "tmp_name pid path \<noteq> path"
proof
  let ?b = "''.jig'' @ to_decimal pid @ ''.'' @ path_filename path"
  assume t: "tmp_name pid path = path"
  have "slash \<notin> set ?b"
    using path_filename_no_slash [of path] to_decimal_not_in [of slash pid] by simp
  then have "path_filename (tmp_name pid path) = ?b"
    unfolding tmp_name_def by (rule path_filename_append) simp
  with t have "length ?b = length (path_filename path)" by simp
  then show False by simp
qed

section \<open>Properties\<close>

text \<open>C30. \<^verbatim>\<open>WriteFile\<close> replaces a file in one step: whatever the system answers, at every moment the
  path holds its previous contents or all of the new ones, it holds the new ones at the end exactly
  when the call returns true, and no file but the path and the dotted temporary changes.\<close>

theorem write_file_atomic:
  assumes "WriteFile io pid path data d = (ok, ds)"
  shows "(\<forall>e \<in> set ds. e path \<in> {d path, Some data})
    \<and> (ok \<longrightarrow> last ds path = Some data) \<and> (\<not> ok \<longrightarrow> last ds path = d path)
    \<and> (\<forall>e \<in> set ds. \<forall>p. p \<noteq> path \<longrightarrow> p \<noteq> tmp_name pid path \<longrightarrow> e p = d p)"
  using assms tmp_name_neq [of pid path]
  by (auto simp: WriteFile_def Let_def out_fail_def split: if_splits)

theorem write_file_atomic_witness:
  "last (snd (WriteFile \<lparr>opened = True, accepted = Some 1, renamed = True\<rparr> 7 ''d/f'' ''new''
           [''d/f'' \<mapsto> ''old''])) ''d/f'' = Some ''old''"
proof -
  let ?w = "WriteFile \<lparr>opened = True, accepted = Some 1, renamed = True\<rparr> 7 ''d/f'' ''new'' [''d/f'' \<mapsto> ''old'']"
  have "\<not> fst ?w" by (simp add: WriteFile_def out_fail_def Let_def)
  moreover have "?w = (fst ?w, snd ?w)" by simp
  then have "\<not> fst ?w \<longrightarrow> last (snd ?w) ''d/f'' = [''d/f'' \<mapsto> ''old''] ''d/f''"
    by (rule write_file_atomic [THEN conjunct2, THEN conjunct2, THEN conjunct1])
  ultimately show ?thesis by simp
qed

end
