(* ===== verification/Jig_Store.thy ===== *)
theory Jig_Store
  imports Jig_Files
begin

text \<open>
  \<^verbatim>\<open>pkgs/ji/jig/src/store.{h,cc}\<close>: which files are store files, and the form store paths take in
  cache keys and manifests.  A store is the record of the members of the class; the singleton is
  passed explicitly.  The two hash maps are an association list (\<open>masked_to_real\<close>, iterated by
  \<^verbatim>\<open>ResolveAll\<close>, whose order the list fixes) and a map (\<open>known_ids\<close>).  The loops over
  \<^verbatim>\<open>text.find(prefix, pos)\<close> are recursions on the text and the position, as written.
\<close>

section \<open>Model\<close>

record store =
  store_dir :: string
  by_content :: bool
  out_path :: string
  out_hash :: string
  masked_to_real :: "(string \<times> string) list"
  known_ids :: "string \<Rightarrow> string option"

definition kStoreHashLength :: nat where
  "kStoreHashLength = 32"

definition kPathEnds :: string where
  "kPathEnds = [CHR '' '', tab, newline, backslash, CHR '':'', dquote, squote, CHR '';'', CHR '','',
     CHR '')'', CHR '']'', CHR ''}'', CHR ''>'']"

definition StateDir :: "store \<Rightarrow> string" where
  "StateDir st =
     (case str_rfind (store_dir st) ''/'' of None \<Rightarrow> store_dir st | Some i \<Rightarrow> substr (store_dir st) 0 i) @ ''/var/nix''"

definition IsStorePath :: "store \<Rightarrow> string \<Rightarrow> bool" where
  "IsStorePath st path \<longleftrightarrow>
     length (store_dir st) < length path \<and> starts_with path (store_dir st) \<and> path ! length (store_dir st) = slash"

definition nix_base32 :: string where
  "nix_base32 = ''0123456789abcdfghijklmnpqrsvwxyz''"

definition IsStoreHash :: "string \<Rightarrow> bool" where
  "IsStoreHash str \<longleftrightarrow> length str = kStoreHashLength \<and> list_all (\<lambda>chr. chr \<in> set nix_base32) str"

text \<open>The test of \<^verbatim>\<open>MaskHashes\<close> on what follows a match of \<open>pre\<close>.\<close>

definition hash_follows :: "string \<Rightarrow> nat \<Rightarrow> bool" where
  "hash_follows str hash_start \<longleftrightarrow>
     hash_start + kStoreHashLength < length str \<and> str ! (hash_start + kStoreHashLength) = CHR ''-''
     \<and> IsStoreHash (substr str hash_start kStoreHashLength)"

function mask_loop :: "string \<Rightarrow> string \<Rightarrow> nat \<Rightarrow> string" where
  "mask_loop pre str pos =
     (case str_find str pre pos of
        None \<Rightarrow> str
      | Some p \<Rightarrow>
          (let hash_start = p + length pre;
               str' = (if hash_follows str hash_start
                       then str_replace str hash_start kStoreHashLength ''*'' else str)
           in mask_loop pre str' (hash_start + 1)))"
  by pat_completeness auto
termination
proof (relation "measure (\<lambda>(pre, str, pos). length str + 1 - pos)", goal_cases)
  case (2 pre str pos p hash_start str')
  then show ?case
    using str_find_bounds [of str pre pos p]
    by (auto simp: str_replace_def hash_follows_def kStoreHashLength_def)
qed simp

declare mask_loop.simps [simp del]

definition MaskHashes :: "store \<Rightarrow> string \<Rightarrow> string" where
  "MaskHashes st str = mask_loop (store_dir st @ ''/'') str 0"

definition MaskForReplay :: "store \<Rightarrow> string \<Rightarrow> string" where
  "MaskForReplay st str = (if by_content st then MaskHashes st str else str)"

definition kOutPlaceholder :: string where
  "kOutPlaceholder = replicate kStoreHashLength (CHR ''e'')"

text \<open>\<^verbatim>\<open>SwapOutHash\<close>: both strings have the same length, so stepping over what was found and over what
  was put there is the same.\<close>

definition SwapOutHash :: "store \<Rightarrow> string \<Rightarrow> bool \<Rightarrow> string" where
  "SwapOutHash st bytes back =
     (if out_hash st = [] then bytes
      else (let real = store_dir st @ ''/'' @ out_hash st @ ''-'';
                placeholder = store_dir st @ ''/'' @ kOutPlaceholder @ ''-'';
                frm = (if back then placeholder else real);
                into = (if back then real else placeholder)
            in replace_loop frm into bytes 0))"

definition MaskOut :: "store \<Rightarrow> string \<Rightarrow> string" where
  "MaskOut st bytes = SwapOutHash st bytes False"

definition UnmaskOut :: "store \<Rightarrow> string \<Rightarrow> string" where
  "UnmaskOut st bytes = SwapOutHash st bytes True"

definition isalnum :: "char \<Rightarrow> bool" where
  "isalnum c \<longleftrightarrow> (let n = (of_char c :: nat) in
     48 \<le> n \<and> n \<le> 57 \<or> 65 \<le> n \<and> n \<le> 90 \<or> 97 \<le> n \<and> n \<le> 122)"

function mask_names_loop :: "string \<Rightarrow> nat \<Rightarrow> string \<Rightarrow> nat \<Rightarrow> string" where
  "mask_names_loop pre width str pos =
     (if pre = [] then str
      else case str_find str pre pos of
        None \<Rightarrow> str
      | Some p \<Rightarrow>
          (let start = p + length pre in
           if length str < start + width then str
           else (let str' = (if list_all isalnum (substr str start width)
                             then str_replace str start width (replicate width (CHR ''#'')) else str)
                 in mask_names_loop pre width str' (p + length pre))))"
  by pat_completeness auto
termination
proof (relation "measure (\<lambda>(pre, width, str, pos). length str - pos)", goal_cases)
  case (2 pre width str pos p start str')
  then show ?case
    using str_find_bounds [of str pre pos p] by (cases pre) (auto simp: str_replace_def)
qed simp

declare mask_names_loop.simps [simp del]

definition MaskRandomNames :: "string \<Rightarrow> string" where
  "MaskRandomNames str =
     foldl (\<lambda>str pat. mask_names_loop (fst pat) (snd pat) str 0) str [(''TryCompile-'', 6), (''cmTC_'', 5)]"

text \<open>Where the value starts in an argument, \<^term>\<open>None\<close> when the argument is kept as it is.\<close>

definition value_start :: "string \<Rightarrow> nat option" where
  "value_start arg =
     (if starts_with arg ''--'' then map_option Suc (str_find arg ''='' 0)
      else if starts_with arg ''-'' \<and> 2 < length arg \<and> arg ! 1 \<noteq> CHR ''-'' then
        (case str_find arg ''='' 0 of
           None \<Rightarrow> Some 2
         | Some equals \<Rightarrow> if \<not> str_contains (substr arg 0 equals) ''/'' then Some (equals + 1) else Some 2)
      else if starts_with arg ''-'' then None
      else Some 0)"

definition NormalizePathArg :: "string \<Rightarrow> string" where
  "NormalizePathArg arg =
     (if starts_with arg ''-D'' \<or> starts_with arg ''-U'' then arg
      else case value_start arg of
        None \<Rightarrow> arg
      | Some start \<Rightarrow>
          (let value = drop start arg in
           if \<not> str_contains value ''/'' \<and> \<not> starts_with value ''.'' then arg
           else (let normal = lexically_normal value;
                     normal = (if 1 < length normal \<and> ends_with normal ''/'' then butlast normal else normal);
                     normal = (if normal = [] then ''.'' else normal)
                 in take start arg @ normal)))"

definition Key :: "store \<Rightarrow> string \<Rightarrow> string" where
  "Key st arg =
     (let key = MaskRandomNames (NormalizePathArg arg) in
      if by_content st then MaskHashes st key else key)"

definition Resolve :: "store \<Rightarrow> string \<Rightarrow> string option" where
  "Resolve st path =
     (if \<not> starts_with path (store_dir st @ ''/*-'') then Some path
      else (let sl = str_find path ''/'' (length (store_dir st) + 3);
                root = (case sl of None \<Rightarrow> path | Some i \<Rightarrow> substr path 0 i)
            in case map_of (masked_to_real st) root of
                 None \<Rightarrow> None
               | Some real \<Rightarrow> Some (real @ (case sl of None \<Rightarrow> [] | Some i \<Rightarrow> drop i path))))"

function resolve_loop :: "string \<Rightarrow> string \<Rightarrow> string \<Rightarrow> nat \<Rightarrow> string" where
  "resolve_loop masked real str pos =
     (if masked = [] then str
      else case str_find str masked pos of
        None \<Rightarrow> str
      | Some p \<Rightarrow>
          (let e = p + length masked in
           if e < length str \<and> str ! e \<noteq> slash \<and> str ! e \<notin> set kPathEnds
           then resolve_loop masked real str e
           else resolve_loop masked real (str_replace str p (length masked) real) (p + length real)))"
  by pat_completeness auto
termination
proof (relation "measure (\<lambda>(masked, real, str, pos). length str - pos)", goal_cases)
  case (2 masked real str pos p e)
  then show ?case using str_find_bounds [of str masked pos p] by (cases masked) auto
next
  case (3 masked real str pos p e)
  then show ?case using str_find_bounds [of str masked pos p] by (cases masked) (auto simp: str_replace_def)
qed simp

declare resolve_loop.simps [simp del]

definition ResolveAll :: "store \<Rightarrow> string \<Rightarrow> string" where
  "ResolveAll st str =
     foldl (\<lambda>str mr. resolve_loop (fst mr) (snd mr) str 0) (MaskHashes st str) (masked_to_real st)"

text \<open>\<open>canonical\<close> is \<^verbatim>\<open>std::filesystem::canonical\<close>, \<^term>\<open>None\<close> on error.\<close>

definition ToolId :: "(string \<Rightarrow> string option) \<Rightarrow> store \<Rightarrow> string \<Rightarrow> string" where
  "ToolId canonical st path =
     Key st (case canonical (parent_path path) of
               None \<Rightarrow> path
             | Some dir \<Rightarrow> path_append dir (path_filename path))"

definition DaemonMayIdentify :: "store \<Rightarrow> string \<Rightarrow> bool" where
  "DaemonMayIdentify st path =
     (let under_out = (out_path st \<noteq> [] \<and> starts_with path (out_path st)
            \<and> (length path = length (out_path st) \<or> path ! length (out_path st) = slash))
      in by_content st \<and> IsStorePath st path \<and> \<not> under_out)"

definition RememberIdentity :: "store \<Rightarrow> string \<Rightarrow> string \<Rightarrow> store" where
  "RememberIdentity st path identity = st\<lparr>known_ids := (known_ids st)(path \<mapsto> identity)\<rparr>"

definition InputId :: "(string \<Rightarrow> string) \<Rightarrow> store \<Rightarrow> disk \<Rightarrow> string \<Rightarrow> string option" where
  "InputId b3 st d path =
     (if IsStorePath st path \<and> \<not> by_content st then Some (''S:'' @ path)
      else case known_ids st path of
        Some known \<Rightarrow> Some known
      | None \<Rightarrow>
          (case d path of
             None \<Rightarrow> None
           | Some content \<Rightarrow>
               Some (''C:'' @ HashOf b3 (if IsStorePath st path then content else MaskOut st content))))"

text \<open>The constructor: \<open>emplace\<close> keeps the first entry of a name.\<close>

definition emplace :: "(string \<times> string) list \<Rightarrow> string \<Rightarrow> string \<Rightarrow> (string \<times> string) list" where
  "emplace m k v = (if map_of m k = None then m @ [(k, v)] else m)"

definition store_root :: "store \<Rightarrow> string \<Rightarrow> string" where
  "store_root st root =
     (case str_find root ''/'' (length (store_dir st) + 1) of None \<Rightarrow> root | Some i \<Rightarrow> take i root)"

definition add_root :: "store \<Rightarrow> string \<Rightarrow> store" where
  "add_root st root =
     (let root = store_root st root; masked = MaskHashes st root in
      if masked \<noteq> root then st\<lparr>masked_to_real := emplace (masked_to_real st) masked root\<rparr> else st)"

text \<open>The hash of our own output, if it is a store path.\<close>

definition own_hash :: "store \<Rightarrow> store" where
  "own_hash st =
     (if IsStorePath st (out_path st) \<and> length (store_dir st) + 1 + kStoreHashLength < length (out_path st)
         \<and> out_path st ! (length (store_dir st) + 1 + kStoreHashLength) = CHR ''-''
      then st\<lparr>out_hash := substr (out_path st) (length (store_dir st) + 1) kStoreHashLength\<rparr>
      else st)"

definition Store_init :: "string \<Rightarrow> (string \<Rightarrow> string option) \<Rightarrow> store" where
  "Store_init dir env =
     (let st = \<lparr>store_dir = dir, by_content = (Env env ''JIG_STORE_IDENTITY'' ''path'' = ''content''),
                out_path = Env env ''out'' [], out_hash = [], masked_to_real = [], known_ids = (\<lambda>_. None)\<rparr>
      in if \<not> by_content st then st
         else foldl add_root (own_hash st)
                (Split (Env env ''JIG_STORE_ROOTS'' []) CHR '' '' False @ [out_path st]))"

section \<open>Masking as a scan\<close>

definition hash_at :: "string \<Rightarrow> bool" where
  "hash_at r \<longleftrightarrow> kStoreHashLength < length r \<and> r ! kStoreHashLength = CHR ''-''
     \<and> IsStoreHash (take kStoreHashLength r)"

lemma hash_follows_at: "hash_follows str p \<longleftrightarrow> hash_at (drop p str)"
  by (auto simp: hash_follows_def hash_at_def substr_def)

function mask_scan :: "string \<Rightarrow> string \<Rightarrow> string" where
  "mask_scan pre [] = []"
| "mask_scan pre (x # t) =
     (if pre \<noteq> [] \<and> starts_with (x # t) pre then
        (let r = drop (length pre) (x # t) in
         if hash_at r then pre @ CHR ''*'' # mask_scan pre (drop kStoreHashLength r)
         else pre @ take 1 r @ mask_scan pre (drop 1 r))
      else x # mask_scan pre t)"
  by pat_completeness auto
termination
  by (relation "measure (\<lambda>(pre, s). length s)") auto

declare mask_scan.simps(2) [simp del]

lemma mask_scan_hash:
  "pre \<noteq> [] \<Longrightarrow> hash_at r \<Longrightarrow>
   mask_scan pre (pre @ r) = pre @ CHR ''*'' # mask_scan pre (drop kStoreHashLength r)"
  by (cases "pre @ r") (auto simp: mask_scan.simps(2) append_eq_Cons_conv)

lemma mask_scan_no_hash:
  "pre \<noteq> [] \<Longrightarrow> \<not> hash_at r \<Longrightarrow> mask_scan pre (pre @ r) = pre @ take 1 r @ mask_scan pre (drop 1 r)"
  by (cases "pre @ r") (auto simp: mask_scan.simps(2) append_eq_Cons_conv)

lemma mask_scan_miss:
  "\<not> starts_with (x # t) pre \<Longrightarrow> mask_scan pre (x # t) = x # mask_scan pre t"
  by (simp add: mask_scan.simps(2))

lemma mask_scan_skip:
  "\<lbrakk>\<And>i. i < length a \<Longrightarrow> \<not> starts_with (drop i (a @ s)) pre\<rbrakk> \<Longrightarrow> mask_scan pre (a @ s) = a @ mask_scan pre s"
proof (induction a)
  case (Cons x a)
  from Cons.prems [of 0] have "\<not> starts_with (x # a @ s) pre" by simp
  moreover have "mask_scan pre (a @ s) = a @ mask_scan pre s"
    using Cons.prems [of "Suc _"] by (intro Cons.IH) auto
  ultimately show ?case by (simp add: mask_scan_miss)
qed simp

lemma mask_scan_none: "search pre s = None \<Longrightarrow> mask_scan pre s = s"
  by (induction s) (auto simp: mask_scan.simps(2) split: if_splits)

lemma mask_scan_first:
  assumes "search pre s = Some i"
  shows "mask_scan pre s = take i s @ mask_scan pre (drop i s)"
proof -
  from assms have "i \<le> length s" "\<And>j. j < i \<Longrightarrow> \<not> starts_with (drop j s) pre"
    by (auto simp: search_Some_iff)
  then have "mask_scan pre (take i s @ drop i s) = take i s @ mask_scan pre (drop i s)"
    by (intro mask_scan_skip) auto
  then show ?thesis by simp
qed

lemma mask_loop_scan:
  "pre \<noteq> [] \<Longrightarrow> mask_loop pre str pos = take pos str @ mask_scan pre (drop pos str)"
proof (induction pre str pos rule: mask_loop.induct)
  case (1 pre str pos)
  show ?case
  proof (cases "str_find str pre pos")
    case None
    then have "search pre (drop pos str) = None"
      using "1.prems" by (auto simp: str_find_def split: if_splits)
    then show ?thesis using None by (simp add: mask_loop.simps mask_scan_none)
  next
    case (Some p)
    then obtain i where i: "search pre (drop pos str) = Some i" "p = pos + i"
      by (auto simp: str_find_def split: if_splits)
    define hs where "hs = p + length pre"
    define r where "r = drop hs str"
    have b: "hs \<le> length str" using str_find_bounds [OF Some] by (simp add: hs_def)
    have d: "drop p str = pre @ r"
      using str_find_match [OF Some] by (auto simp: starts_with_iff r_def hs_def add.commute)
        (metis add.commute append_eq_conv_conj drop_drop)
    have t: "take pos str @ mask_scan pre (drop pos str) = take p str @ mask_scan pre (pre @ r)"
    proof -
      have "take p str = take pos str @ take i (drop pos str)" by (simp add: i(2) take_add)
      moreover have "drop i (drop pos str) = pre @ r" using d by (simp add: i(2) add.commute)
      ultimately show ?thesis using mask_scan_first [OF i(1)] by simp
    qed
    have hs: "take hs str = take p str @ pre"
      using d by (simp add: hs_def take_add)
    let ?s = "if hash_follows str hs then str_replace str hs kStoreHashLength ''*'' else str"
    have "mask_loop pre str pos = mask_loop pre ?s (hs + 1)"
      using Some by (simp add: mask_loop.simps [of pre str] Let_def hs_def)
    also have "\<dots> = take (hs + 1) ?s @ mask_scan pre (drop (hs + 1) ?s)"
      using 1 Some by (simp add: hs_def)
    also have "\<dots> = take p str @ mask_scan pre (pre @ r)"
    proof (cases "hash_at r")
      case True
      then have "take (hs + 1) ?s = take hs str @ ''*''" "drop (hs + 1) ?s = drop kStoreHashLength r"
        using b by (simp_all add: hash_follows_at r_def str_replace_def add.commute)
      then show ?thesis
        using mask_scan_hash [OF "1.prems" True] by (simp only: hs) simp
    next
      case False
      have "take (hs + 1) str = take hs str @ take 1 r" by (simp only: take_add r_def)
      then show ?thesis
        using False mask_scan_no_hash [OF "1.prems" False] hs by (simp add: hash_follows_at r_def)
    qed
    finally show ?thesis using t by simp
  qed
qed

lemma MaskHashes_scan: "MaskHashes st str = mask_scan (store_dir st @ ''/'') str"
  by (simp add: MaskHashes_def mask_loop_scan)

text \<open>A match without a star in the masked text is a match in the text.\<close>

lemma mask_scan_match:
  "\<lbrakk>CHR ''*'' \<notin> set q; starts_with (mask_scan pre t) q\<rbrakk> \<Longrightarrow> starts_with t q"
proof (induction pre t arbitrary: q rule: mask_scan.induct)
  case (2 pre x t)
  let ?s = "x # t" and ?r = "drop (length pre) (x # t)"
  consider (hash) "pre \<noteq> []" "starts_with ?s pre" "hash_at ?r"
    | (nohash) "pre \<noteq> []" "starts_with ?s pre" "\<not> hash_at ?r"
    | (miss) "\<not> (pre \<noteq> [] \<and> starts_with ?s pre)" by blast
  then show ?case
  proof cases
    case hash
    then have "starts_with (pre @ CHR ''*'' # mask_scan pre (drop kStoreHashLength ?r)) q"
      using "2.prems"(2) by (simp add: mask_scan.simps(2))
    then have "starts_with pre q"
      using "2.prems"(1) by (auto simp: starts_with_iff append_eq_append_conv2 Cons_eq_append_conv)
    with hash(2) show ?thesis by (rule starts_with_trans)
  next
    case nohash
    then obtain r where s: "?s = pre @ r" by (auto simp: starts_with_iff)
    let ?a = "pre @ take 1 r"
    have "starts_with (?a @ mask_scan pre (drop 1 r)) q"
      using "2.prems"(2) nohash s mask_scan_no_hash [of pre r] by simp
    then consider "starts_with ?a q" | q' where "q = ?a @ q'" "starts_with (mask_scan pre (drop 1 r)) q'"
      by (auto simp: starts_with_iff append_eq_append_conv2)
    then show ?thesis
    proof cases
      case 1
      moreover have "starts_with ?s ?a" unfolding s by (auto simp: starts_with_iff) (metis append_take_drop_id)
      ultimately show ?thesis using starts_with_trans by blast
    next
      case 2
      have "drop 1 r = drop 1 ?r" using s by simp
      with 2 "2.IH"(2) [of ?r q'] nohash "2.prems"(1) have "starts_with (drop 1 r) q'" by simp
      then have "starts_with (?a @ drop 1 r) (?a @ q')" by (simp only: starts_with_append_same)
      with 2 s show ?thesis by (simp only: append.assoc append_take_drop_id)
    qed
  next
    case miss
    then have "starts_with (x # mask_scan pre t) q"
      using "2.prems"(2) by (simp only: mask_scan.simps(2) if_False)
    with miss "2.IH"(3) "2.prems"(1) show ?thesis
      by (cases q) (auto simp: starts_with_Cons)
  qed
qed simp

lemma hash_at_iff: "hash_at r \<longleftrightarrow> (\<exists>h s. r = h @ CHR ''-'' # s \<and> IsStoreHash h)"
proof
  assume h: "hash_at r"
  then have "r = take kStoreHashLength r @ CHR ''-'' # drop (Suc kStoreHashLength) r"
    by (metis hash_at_def id_take_nth_drop)
  with h show "\<exists>h s. r = h @ CHR ''-'' # s \<and> IsStoreHash h" unfolding hash_at_def by blast
qed (auto simp: hash_at_def IsStoreHash_def nth_append)

lemma IsStoreHash_chars: "IsStoreHash h \<Longrightarrow> c \<in> set h \<Longrightarrow> c \<in> set nix_base32"
  by (auto simp: IsStoreHash_def list_all_iff)

lemma hash_at_mask:
  assumes "\<not> hash_at r"
  shows "\<not> hash_at (take 1 r @ mask_scan pre (drop 1 r))"
proof
  assume "hash_at (take 1 r @ mask_scan pre (drop 1 r))"
  then obtain h s where h: "take 1 r @ mask_scan pre (drop 1 r) = h @ CHR ''-'' # s" "IsStoreHash h"
    by (auto simp: hash_at_iff)
  then obtain c h' where c: "h = c # h'" by (cases h) (auto simp: IsStoreHash_def kStoreHashLength_def)
  with h(1) obtain t where r: "r = c # t" by (cases r) auto
  have "CHR ''*'' \<notin> set (h' @ ''-'')"
    using IsStoreHash_chars [OF h(2), of "CHR ''*''"] c by (auto simp: nix_base32_def)
  moreover have "starts_with (mask_scan pre t) (h' @ ''-'')"
    using h(1) c r by (auto simp: starts_with_iff)
  ultimately have "starts_with t (h' @ ''-'')" by (rule mask_scan_match)
  then obtain u where "r = h @ CHR ''-'' # u" using c r by (auto simp: starts_with_iff)
  then have "hash_at r" using h(2) hash_at_iff by blast
  with assms show False by simp
qed

lemma not_hash_at_star: "\<not> hash_at (CHR ''*'' # s)"
proof
  assume "hash_at (CHR ''*'' # s)"
  then obtain h t where h: "CHR ''*'' # s = h @ CHR ''-'' # t" "IsStoreHash h" by (auto simp: hash_at_iff)
  then have "CHR ''*'' \<in> set h"
    by (cases h) (auto simp: IsStoreHash_def kStoreHashLength_def)
  with IsStoreHash_chars [OF h(2)] show False by (auto simp: nix_base32_def)
qed

lemma mask_scan_idem:
  "CHR ''*'' \<notin> set pre \<Longrightarrow> mask_scan pre (mask_scan pre s) = mask_scan pre s"
proof (induction pre s rule: mask_scan.induct)
  case (2 pre x t)
  let ?r = "drop (length pre) (x # t)"
  consider (hash) "pre \<noteq> []" "starts_with (x # t) pre" "hash_at ?r"
    | (nohash) "pre \<noteq> []" "starts_with (x # t) pre" "\<not> hash_at ?r"
    | (miss) "\<not> (pre \<noteq> [] \<and> starts_with (x # t) pre)" by blast
  then show ?case
  proof cases
    case hash
    then have m: "mask_scan pre (x # t) = pre @ CHR ''*'' # mask_scan pre (drop kStoreHashLength ?r)"
      by (simp add: mask_scan.simps(2))
    show ?thesis
      using hash 2 by (simp add: m mask_scan_no_hash not_hash_at_star)
  next
    case nohash
    then have m: "mask_scan pre (x # t) = pre @ take 1 ?r @ mask_scan pre (drop 1 ?r)"
      by (simp add: mask_scan.simps(2) Let_def)
    have "mask_scan pre (pre @ take 1 ?r @ mask_scan pre (drop 1 ?r))
        = pre @ take 1 ?r @ mask_scan pre (mask_scan pre (drop 1 ?r))"
      using mask_scan_no_hash [OF nohash(1) hash_at_mask [OF nohash(3)], of pre]
      by (cases ?r) simp_all
    with 2 nohash m show ?thesis by simp
  next
    case miss
    have "\<not> starts_with (x # mask_scan pre t) pre" if ne: "pre \<noteq> []"
    proof
      assume s: "starts_with (x # mask_scan pre t) pre"
      obtain y q where q: "pre = y # q" using ne by (cases pre) auto
      with s have "starts_with (mask_scan pre t) q" "y = x" by simp_all
      then have "starts_with (x # t) pre" using mask_scan_match [of q pre t] "2.prems" q by simp
      with miss ne show False by simp
    qed
    moreover have "mask_scan pre (x # t) = x # mask_scan pre t"
      using miss by (simp only: mask_scan.simps(2) if_False)
    moreover have "mask_scan pre (mask_scan pre t) = mask_scan pre t" using "2.IH"(3) miss "2.prems" by blast
    ultimately show ?thesis
      by (cases "pre = []") (simp_all add: mask_scan.simps(2))
  qed
qed simp

section \<open>Swapping the output hash\<close>

text \<open>
  Two strings that end in a mark they have nowhere else: a match of either in a rewritten text
  cannot overlap a rewritten part without being it.
\<close>

lemma subst_mark_match:
  "\<lbrakk>z \<notin> set R'; q \<noteq> []; last q = z; length q \<le> length R';
    starts_with (subst_all P (R' @ [z]) u) q\<rbrakk> \<Longrightarrow> starts_with u q"
proof (induction P "R' @ [z]" u arbitrary: q rule: subst_all.induct)
  case (2 P x s)
  show ?case
  proof (cases "P \<noteq> [] \<and> starts_with (x # s) P")
    case True
    then have "starts_with (R' @ z # subst_all P (R' @ [z]) (drop (length P) (x # s))) q"
      using "2.prems"(5) by (simp add: subst_all.simps(2))
    then have "starts_with R' q" using "2.prems"(4) starts_with_short by blast
    then have "z \<in> set R'" using "2.prems"(2,3) starts_with_set by fastforce
    with "2.prems"(1) show ?thesis by simp
  next
    case False
    then have "starts_with (x # subst_all P (R' @ [z]) s) q"
      using "2.prems"(5) by (simp only: subst_all.simps(2) if_False)
    then obtain q' where q: "q = x # q'" "starts_with (subst_all P (R' @ [z]) s) q'"
      using "2.prems"(2) by (cases q) auto
    show ?thesis
    proof (cases "q' = []")
      case False
      with "2.hyps"(2) [of q'] "2.prems" q \<open>\<not> (P \<noteq> [] \<and> starts_with (x # s) P)\<close> show ?thesis by auto
    qed (simp add: q)
  qed
qed simp

lemma subst_mark_back:
  "\<lbrakk>z \<notin> set R'; P \<noteq> []; \<not> str_contains u (R' @ [z])\<rbrakk>
   \<Longrightarrow> subst_all (R' @ [z]) P (subst_all P (R' @ [z]) u) = u"
proof (induction P "R' @ [z]" u rule: subst_all.induct)
  case (2 P x s)
  let ?R = "R' @ [z]"
  show ?case
  proof (cases "starts_with (x # s) P")
    case True
    then obtain r where r: "x # s = P @ r" by (auto simp: starts_with_iff)
    have "\<not> str_contains r ?R"
      using "2.prems"(3) r by (metis str_contains_append_left)
    then have "subst_all ?R P (subst_all P ?R r) = r" using 2 True r by simp
    moreover have "subst_all ?R P (?R @ subst_all P ?R r) = P @ subst_all ?R P (subst_all P ?R r)"
      by (rule subst_all_hit) simp
    ultimately show ?thesis by (simp only: r subst_all_hit [OF "2.prems"(2)])
  next
    case False
    have no: "\<not> starts_with (x # s) ?R" "\<not> str_contains s ?R"
      using "2.prems"(3) by (auto simp: str_contains_Cons)
    have "\<not> starts_with (x # subst_all P ?R s) ?R"
    proof
      assume a: "starts_with (x # subst_all P ?R s) ?R"
      show False
      proof (cases R')
        case Nil
        with a no show False by simp
      next
        case (Cons y q)
        with a have "y = x" "starts_with (subst_all P ?R s) (q @ [z])" by simp_all
        with subst_mark_match [of z R' "q @ [z]" P s] "2.prems"(1) Cons have "starts_with (x # s) ?R" by simp
        with no show False by simp
      qed
    qed
    with False 2 no show ?thesis by (simp add: subst_all_miss)
  qed
qed simp

lemma mark_no_overlap:
  assumes "z \<notin> set P'" "length P' = length R'" "P' \<noteq> R'" "str_contains ((R' @ [z]) @ y) (P' @ [z])"
  shows "str_contains y (P' @ [z])"
proof -
  obtain a b where ab: "(R' @ [z]) @ y = a @ (P' @ [z]) @ b" using assms(4) by (auto simp: str_contains_iff)
  have "length R' < length a"
  proof (rule ccontr)
    assume "\<not> length R' < length a"
    then obtain c where c: "R' = a @ c"
      using ab by (metis append_eq_append_conv_if append.assoc linorder_not_le append_eq_conv_conj)
    then have e: "c @ z # y = P' @ z # b" using ab by simp
    show False
    proof (cases "a = []")
      case True
      then show False using e c assms(2,3) by simp
    next
      case False
      then have l: "length c < length P'" using c assms(2) by (cases a) auto
      then have "P' ! length c = (c @ z # y) ! length c" by (simp add: e nth_append)
      then have "P' ! length c = z" by simp
      with l assms(1) show False using nth_mem by metis
    qed
  qed
  then obtain c where "a = (R' @ [z]) @ c"
    using ab by (metis append_eq_append_conv_if Suc_leI length_append_singleton append_eq_conv_conj)
  with ab show ?thesis by (auto simp: str_contains_iff)
qed

lemma subst_mark_gone:
  "\<lbrakk>z \<notin> set P'; z \<notin> set R'; length P' = length R'; P' \<noteq> R'\<rbrakk>
   \<Longrightarrow> \<not> str_contains (subst_all (P' @ [z]) (R' @ [z]) u) (P' @ [z])"
proof (induction "P' @ [z]" "R' @ [z]" u rule: subst_all.induct)
  case (2 x s)
  let ?P = "P' @ [z]" and ?R = "R' @ [z]"
  show ?case
  proof (cases "starts_with (x # s) ?P")
    case True
    then obtain r where r: "x # s = ?P @ r" by (auto simp: starts_with_iff)
    moreover have "\<not> str_contains (subst_all ?P ?R r) ?P" using 2 True r by simp
    moreover have "subst_all ?P ?R (?P @ r) = ?R @ subst_all ?P ?R r" by (rule subst_all_hit) simp
    ultimately show ?thesis using mark_no_overlap [OF "2.prems"(1,3,4)] by metis
  next
    case False
    have "\<not> starts_with (x # subst_all ?P ?R s) ?P"
    proof
      assume a: "starts_with (x # subst_all ?P ?R s) ?P"
      show False
      proof (cases P')
        case Nil
        with a False show False by simp
      next
        case (Cons y q)
        with a have "y = x" "starts_with (subst_all ?P ?R s) (q @ [z])" by simp_all
        with subst_mark_match [of z R' "q @ [z]" ?P s] "2.prems" Cons have "starts_with (x # s) ?P" by simp
        with False show False by simp
      qed
    qed
    with False 2 show ?thesis by (simp add: subst_all_miss str_contains_Cons)
  qed
qed simp

lemma SwapOutHash_subst:
  "out_hash st \<noteq> [] \<Longrightarrow> MaskOut st x =
     subst_all ((store_dir st @ ''/'' @ out_hash st) @ ''-'') ((store_dir st @ ''/'' @ kOutPlaceholder) @ ''-'') x"
  "out_hash st \<noteq> [] \<Longrightarrow> UnmaskOut st x =
     subst_all ((store_dir st @ ''/'' @ kOutPlaceholder) @ ''-'') ((store_dir st @ ''/'' @ out_hash st) @ ''-'') x"
  by (simp_all add: MaskOut_def UnmaskOut_def SwapOutHash_def Let_def replace_loop_0)

section \<open>Resolving\<close>

lemma mask_scan_no_slash:
  "\<lbrakk>hd pre \<notin> set a; pre \<noteq> []\<rbrakk> \<Longrightarrow> mask_scan pre (a @ s) = a @ mask_scan pre s"
  by (cases pre; induction a) (auto simp: mask_scan_miss)

lemma MaskHashes_root:
  assumes "IsStoreHash h" "is_absolute (store_dir st)" "slash \<notin> set name"
  shows "MaskHashes st (store_dir st @ ''/'' @ h @ ''-'' @ name @ rest) =
    store_dir st @ ''/*-'' @ name @ MaskHashes st rest"
proof -
  let ?pre = "store_dir st @ ''/''" and ?r = "h @ CHR ''-'' # name @ rest"
  have "hash_at ?r" using assms(1) hash_at_iff by blast
  moreover have "drop kStoreHashLength ?r = (CHR ''-'' # name) @ rest"
    using assms(1) by (simp add: IsStoreHash_def)
  moreover have "hd ?pre = slash" using assms(2) by (cases "store_dir st") auto
  then have "mask_scan ?pre ((CHR ''-'' # name) @ rest) = (CHR ''-'' # name) @ mask_scan ?pre rest"
    using assms(3) by (intro mask_scan_no_slash) auto
  ultimately show ?thesis
    using mask_scan_hash [of ?pre ?r] by (simp add: MaskHashes_scan)
qed

lemma Resolve_masked:
  assumes "map_of (masked_to_real st) (store_dir st @ ''/*-'' @ name) = Some root"
    and "slash \<notin> set name" "rest = [] \<or> is_absolute rest"
  shows "Resolve st (store_dir st @ ''/*-'' @ name @ rest) = Some (root @ rest)"
proof -
  let ?n = "length (store_dir st) + 3" and ?p = "store_dir st @ ''/*-'' @ name @ rest"
  have d: "drop ?n ?p = name @ rest" by simp
  have "str_find ?p ''/'' ?n = (if rest = [] then None else Some (?n + length name))"
    using assms(2,3) by (cases rest) (simp_all add: str_find_char takeWhile_append_char)
  moreover have "starts_with ?p (store_dir st @ ''/*-'')" by simp
  moreover have "take (?n + length name) ?p = store_dir st @ ''/*-'' @ name" "drop (?n + length name) ?p = rest"
    by (simp_all add: eval_nat_numeral)
  ultimately show ?thesis
    using assms(1) by (cases "rest = []") (simp_all add: Resolve_def substr_def Let_def)
qed

lemma MaskHashes_cong: "store_dir st = store_dir st' \<Longrightarrow> MaskHashes st s = MaskHashes st' s"
  by (simp add: MaskHashes_def)

lemma add_root_fields [simp]:
  "store_dir (add_root st r) = store_dir st" "by_content (add_root st r) = by_content st"
  "out_path (add_root st r) = out_path st" "out_hash (add_root st r) = out_hash st"
  by (simp_all add: add_root_def Let_def)

lemma add_roots_fields [simp]:
  "store_dir (foldl add_root st rs) = store_dir st" "by_content (foldl add_root st rs) = by_content st"
  "out_path (foldl add_root st rs) = out_path st" "out_hash (foldl add_root st rs) = out_hash st"
  by (induction rs arbitrary: st) simp_all

lemma map_of_emplace:
  "map_of (emplace mp k v) x = (if map_of mp x = None \<and> x = k then Some v else map_of mp x)"
  by (auto simp: emplace_def map_add_def split: option.splits)

text \<open>The entry of a masked name is the first root of that name.\<close>

lemma map_of_add_roots:
  "map_of (masked_to_real (foldl add_root st rs)) m =
     (case map_of (masked_to_real st) m of
        Some r \<Rightarrow> Some r
      | None \<Rightarrow> find (\<lambda>r. MaskHashes st r = m \<and> m \<noteq> r) (map (store_root st) rs))"
proof (induction rs arbitrary: st)
  case (Cons r rs)
  have "MaskHashes (add_root st r) = MaskHashes st" "store_root (add_root st r) = store_root st"
    by (auto simp: MaskHashes_def store_root_def)
  moreover have "map_of (masked_to_real (add_root st r)) m =
      (case map_of (masked_to_real st) m of
         Some r' \<Rightarrow> Some r'
       | None \<Rightarrow> if MaskHashes st (store_root st r) = m \<and> m \<noteq> store_root st r
                 then Some (store_root st r) else None)"
    by (auto simp: add_root_def Let_def map_of_emplace split: option.splits)
  ultimately show ?case
    using Cons.IH [of "add_root st r"] by (auto split: option.splits)
qed (simp split: option.split)

lemma own_hash_fields [simp]:
  "store_dir (own_hash st) = store_dir st" "by_content (own_hash st) = by_content st"
  "out_path (own_hash st) = out_path st" "masked_to_real (own_hash st) = masked_to_real st"
  by (simp_all add: own_hash_def)

lemma Store_init_dir [simp]: "store_dir (Store_init dir env) = dir"
  by (simp add: Store_init_def Let_def)

lemma Store_init_roots:
  assumes "by_content (Store_init dir env)"
  obtains s0 where "store_dir s0 = dir" "masked_to_real s0 = []"
    and "Store_init dir env =
      foldl add_root s0 (Split (Env env ''JIG_STORE_ROOTS'' []) CHR '' '' False @ [Env env ''out'' []])"
proof -
  have "Env env ''JIG_STORE_IDENTITY'' ''path'' = ''content''"
    using assms by (auto simp: Store_init_def Let_def split: if_splits)
  then show ?thesis
    using that [of "own_hash \<lparr>store_dir = dir, by_content = True, out_path = Env env ''out'' [],
      out_hash = [], masked_to_real = [], known_ids = (\<lambda>_. None)\<rparr>"]
    by (simp add: Store_init_def Let_def del: foldl_append)
qed

lemma map_of_Store_init:
  assumes "by_content (Store_init dir env)"
  shows "map_of (masked_to_real (Store_init dir env)) m =
    find (\<lambda>r. MaskHashes (Store_init dir env) r = m \<and> m \<noteq> r)
      (map (store_root (Store_init dir env))
         (Split (Env env ''JIG_STORE_ROOTS'' []) CHR '' '' False @ [Env env ''out'' []]))"
proof -
  obtain s0 where s0: "store_dir s0 = dir" "masked_to_real s0 = []"
    "Store_init dir env =
      foldl add_root s0 (Split (Env env ''JIG_STORE_ROOTS'' []) CHR '' '' False @ [Env env ''out'' []])"
    by (rule Store_init_roots [OF assms])
  have "MaskHashes (Store_init dir env) = MaskHashes s0" "store_root (Store_init dir env) = store_root s0"
    using s0(1) by (auto simp: MaskHashes_def store_root_def)
  then show ?thesis
    by (simp only: s0(3) map_of_add_roots s0(2) map_of.simps option.case)
qed

section \<open>Path arguments\<close>

lemma walk1_Nil [simp]: "walk1 d [] = d"
  by (simp add: walk1_def)

lemma walk_trailing_slash:
  assumes "s \<noteq> []"
  shows "walk d (s @ ''/'') = walk d s"
proof -
  have "path_names (s @ [slash]) = path_names s" by (simp add: path_names_def split_char_snoc)
  moreover have "is_absolute (s @ [slash]) \<longleftrightarrow> is_absolute s" using assms by (cases s) auto
  ultimately show ?thesis by (auto simp: walk_def path_elems_def)
qed

lemma value_start_le: "value_start arg = Some n \<Longrightarrow> n \<le> length arg"
  by (auto simp: value_start_def dest!: str_find_bounds split: if_splits option.splits)

lemma NormalizePathArg_value:
  assumes "value_start arg = Some n"
  shows "\<exists>v. NormalizePathArg arg = take n arg @ v \<and> walk d v = walk d (drop n arg)"
proof -
  let ?v = "drop n arg" and ?N = "lexically_normal (drop n arg)"
  let ?M = "if 1 < length ?N \<and> ends_with ?N ''/'' then butlast ?N else ?N"
  let ?K = "if ?M = [] then ''.'' else ?M"
  have "walk d ?M = walk d ?N"
  proof (cases "1 < length ?N \<and> ends_with ?N ''/''")
    case True
    then obtain s where "?N = s @ ''/''" by (auto simp: ends_with_iff)
    with True walk_trailing_slash [of s d] show ?thesis by auto
  next
    case False
    then show ?thesis by (simp only: if_False)
  qed
  moreover have w: "walk d ''.'' = d" "walk d [] = d"
    by (simp_all add: walk_def path_elems_def path_names_def walk1_def)
  have "walk d ?K = walk d ?M"
    by (cases "?M = []") (simp_all only: if_True if_False w simp_thms)
  ultimately have "walk d ?K = walk d ?v"
    by (simp only: walk_lexically_normal)
  moreover have "NormalizePathArg arg = arg \<or> NormalizePathArg arg = take n arg @ ?K"
    using assms by (simp only: NormalizePathArg_def option.case Let_def) simp
  ultimately show ?thesis by (metis append_take_drop_id)
qed

section \<open>Properties\<close>

text \<open>C31. Swapping our own output hash for the placeholder and back gives the bytes back, for every text
  that does not contain the placeholder path already; the swap keeps the length, so offsets stay
  valid, and leaves no trace of the hash.\<close>

theorem out_mask_round_trip:
  assumes "IsStoreHash (out_hash st)" and "CHR ''-'' \<notin> set (store_dir st)"
    and "\<not> str_contains bytes (store_dir st @ ''/'' @ kOutPlaceholder @ ''-'')"
  shows "UnmaskOut st (MaskOut st bytes) = bytes
    \<and> length (MaskOut st bytes) = length bytes
    \<and> \<not> str_contains (MaskOut st bytes) (store_dir st @ ''/'' @ out_hash st @ ''-'')"
proof -
  let ?P = "store_dir st @ ''/'' @ out_hash st" and ?R = "store_dir st @ ''/'' @ kOutPlaceholder"
  note h = IsStoreHash_chars [OF assms(1)]
  have ne: "out_hash st \<noteq> []" and l: "length ?P = length ?R"
    using assms(1) by (auto simp: IsStoreHash_def kOutPlaceholder_def kStoreHashLength_def)
  have "out_hash st \<noteq> kOutPlaceholder"
    using h [of "CHR ''e''"] by (auto simp: nix_base32_def kOutPlaceholder_def kStoreHashLength_def)
  then have neq: "?P \<noteq> ?R" by simp
  have mP: "CHR ''-'' \<notin> set ?P" using assms(2) h [of "CHR ''-''"] by (auto simp: nix_base32_def)
  have mR: "CHR ''-'' \<notin> set ?R" using assms(2) by (auto simp: kOutPlaceholder_def)
  have "\<not> str_contains bytes (?R @ ''-'')" using assms(3) by simp
  then have "UnmaskOut st (MaskOut st bytes) = bytes"
    using subst_mark_back [OF mR, of "?P @ ''-''" bytes] ne by (simp add: SwapOutHash_subst)
  moreover have "length (MaskOut st bytes) = length bytes"
    using l by (simp add: SwapOutHash_subst [OF ne] length_subst_all)
  moreover have "\<not> str_contains (MaskOut st bytes) (?P @ ''-'')"
    unfolding SwapOutHash_subst [OF ne] by (rule subst_mark_gone [OF mP mR l neq])
  ultimately show ?thesis by simp
qed

definition example_hash :: string where
  "example_hash = replicate 32 (CHR ''a'')"

definition example_store :: store where
  "example_store =
     \<lparr>store_dir = ''/nix/store'', by_content = True, out_path = ''/nix/store/'' @ example_hash @ ''-me'',
      out_hash = example_hash, masked_to_real = [], known_ids = (\<lambda>_. None)\<rparr>"

lemma example_hash_ok [simp]: "IsStoreHash example_hash"
  by (simp add: example_hash_def IsStoreHash_def kStoreHashLength_def nix_base32_def list_all_iff)

theorem out_mask_round_trip_witness:
  "UnmaskOut example_store (MaskOut example_store (''/nix/store/'' @ example_hash @ ''-me/bin''))
     = ''/nix/store/'' @ example_hash @ ''-me/bin''"
proof -
  have "\<not> str_contains (''/nix/store/'' @ example_hash @ ''-me/bin'')
      (store_dir example_store @ ''/'' @ kOutPlaceholder @ ''-'')"
    by code_simp
  then show ?thesis
    using out_mask_round_trip [of example_store "''/nix/store/'' @ example_hash @ ''-me/bin''"]
    by (simp add: example_store_def)
qed

lemma mask_scan_piece:
  assumes "search pre (a @ pre) = Some (length a)" "pre \<noteq> []" "IsStoreHash h"
    and "z = CHR ''-'' # z'"
  shows "mask_scan pre (a @ pre @ h @ z) = a @ pre @ CHR ''*'' # mask_scan pre z"
proof -
  have "mask_scan pre (a @ (pre @ h @ z)) = a @ mask_scan pre (pre @ h @ z)"
  proof (rule mask_scan_skip)
    fix i assume i: "i < length a"
    show "\<not> starts_with (drop i (a @ pre @ h @ z)) pre"
    proof
      assume "starts_with (drop i (a @ pre @ h @ z)) pre"
      then have "starts_with (drop i (a @ pre) @ (h @ z)) pre" using i by simp
      then have "starts_with (drop i (a @ pre)) pre" by (rule starts_with_short) (use i in simp)
      with assms(1) i show False by (auto simp: search_Some_iff)
    qed
  qed
  moreover have "hash_at (h @ z)" using assms(3,4) hash_at_iff by blast
  moreover have "drop kStoreHashLength (h @ z) = z" using assms(3) by (simp add: IsStoreHash_def)
  ultimately show ?thesis using mask_scan_hash [OF assms(2), of "h @ z"] by simp
qed



text \<open>Masking a text twice is masking it once: a masked path is never taken for a store path with a
  hash, however its name goes on.\<close>

lemma mask_hashes_idempotent:
  assumes "CHR ''*'' \<notin> set (store_dir st)"
  shows "MaskHashes st (MaskHashes st str) = MaskHashes st str"
  using assms by (simp add: MaskHashes_scan mask_scan_idem)

theorem mask_hashes_idempotent_witness:
  "MaskHashes example_store (MaskHashes example_store (''/nix/store/'' @ example_hash @ ''-x''))
     = MaskHashes example_store (''/nix/store/'' @ example_hash @ ''-x'')"
  by (rule mask_hashes_idempotent) (simp add: example_store_def)

text \<open>A path under a store root of the build survives masking and resolving: with the store set up
  from the environment, \<^verbatim>\<open>Resolve\<close> of the masked path is the path itself, when its root is the first
  one of its name in \<^verbatim>\<open>JIG_STORE_ROOTS\<close> and \<^verbatim>\<open>out\<close>.\<close>

lemma resolve_mask_round_trip:
  fixes dir :: string and env :: "string \<Rightarrow> string option"
  defines "st \<equiv> Store_init dir env"
  assumes "by_content st" and "is_absolute dir" and "IsStoreHash h" and "slash \<notin> set name"
    and "root = dir @ ''/'' @ h @ ''-'' @ name"
    and "find (\<lambda>r. MaskHashes st r = dir @ ''/*-'' @ name \<and> dir @ ''/*-'' @ name \<noteq> r)
      (map (store_root st)
         (Split (Env env ''JIG_STORE_ROOTS'' []) CHR '' '' False @ [Env env ''out'' []])) = Some root"
    and "rest = [] \<or> is_absolute rest" and "\<not> str_contains rest (dir @ ''/'')"
  shows "Resolve st (MaskHashes st (root @ rest)) = Some (root @ rest)"
proof -
  have d: "store_dir st = dir" by (simp add: st_def)
  have "map_of (masked_to_real st) (store_dir st @ ''/*-'' @ name) = Some root"
    using map_of_Store_init [of dir env] assms(2,7) unfolding d unfolding st_def by simp
  then have "Resolve st (store_dir st @ ''/*-'' @ name @ rest) = Some (root @ rest)"
    using assms(5,8) by (rule Resolve_masked)
  moreover have "MaskHashes st rest = rest"
    using assms(9) by (simp add: MaskHashes_scan d mask_scan_none str_contains_def)
  ultimately show ?thesis
    using MaskHashes_root [OF assms(4), of st name rest] assms(3,5,6) by (simp add: d)
qed

definition example_env :: "string \<Rightarrow> string option" where
  "example_env name =
     (if name = ''JIG_STORE_IDENTITY'' then Some ''content''
      else if name = ''out'' then Some (''/nix/store/'' @ example_hash @ ''-me'') else None)"

theorem resolve_mask_round_trip_witness:
  "Resolve (Store_init ''/nix/store'' example_env)
     (MaskHashes (Store_init ''/nix/store'' example_env) (''/nix/store/'' @ example_hash @ ''-me/bin''))
     = Some (''/nix/store/'' @ example_hash @ ''-me/bin'')"
proof -
  have "find (\<lambda>r. MaskHashes (Store_init ''/nix/store'' example_env) r = ''/nix/store'' @ ''/*-'' @ ''me''
        \<and> ''/nix/store'' @ ''/*-'' @ ''me'' \<noteq> r)
      (map (store_root (Store_init ''/nix/store'' example_env))
         (Split (Env example_env ''JIG_STORE_ROOTS'' []) CHR '' '' False @ [Env example_env ''out'' []]))
      = Some (''/nix/store'' @ ''/'' @ example_hash @ ''-'' @ ''me'')"
    "by_content (Store_init ''/nix/store'' example_env)"
    "\<not> str_contains ''/bin'' (''/nix/store'' @ ''/'')"
    by code_simp+
  then show ?thesis
    using resolve_mask_round_trip [of "''/nix/store''" example_env example_hash "''me''" _ "''/bin''"] by simp
qed

text \<open>The path in an argument is only respelled: what \<^verbatim>\<open>NormalizePathArg\<close> makes of an argument has
  the same option in front and a path that leads to the same place from every directory, links
  aside.\<close>

lemma normalize_path_arg_same_place:
  "case value_start arg of
     None \<Rightarrow> NormalizePathArg arg = arg
   | Some n \<Rightarrow> take n (NormalizePathArg arg) = take n arg
       \<and> walk d (drop n (NormalizePathArg arg)) = walk d (drop n arg)"
proof (cases "value_start arg")
  case None
  then show ?thesis by (simp add: NormalizePathArg_def)
next
  case (Some n)
  obtain v where "NormalizePathArg arg = take n arg @ v" "walk d v = walk d (drop n arg)"
    using NormalizePathArg_value [OF Some] by blast
  then show ?thesis using Some value_start_le [OF Some] by simp
qed

text \<open>A hash is missed when its store directory follows another one directly: the search goes on one
  character behind the first match, inside the second.\<close>

lemma mask_hashes_misses_adjacent:
  "MaskHashes example_store (''/nix/store//nix/store/'' @ example_hash @ ''-x'')
     = ''/nix/store//nix/store/'' @ example_hash @ ''-x''"
  by code_simp

end
