(* ===== verification/Nix_Hash.thy ===== *)
theory Nix_Hash
  imports Jig_Store "HOL-Library.Word" "HOL-Library.List_Lexorder" "HOL-Library.Char_ord"
begin

text \<open>
  SHA-256, Nix's base 32 and the store paths defined over them, from
  \<^verbatim>\<open>pkgs/ji/jig/src/nix_store_mode.cc\<close>.  State words are 32-bit words, whose addition wraps; bytes are
  characters; the two tail blocks are a list updated by index as the array is.
\<close>

unbundle bit_operations_syntax

section \<open>Model\<close>

type_synonym u32 = "32 word"

definition kRoundConstants :: "u32 list" where
  "kRoundConstants =
    [1116352408, 1899447441, 3049323471, 3921009573, 961987163, 1508970993, 2453635748, 2870763221,
     3624381080, 310598401, 607225278, 1426881987, 1925078388, 2162078206, 2614888103, 3248222580,
     3835390401, 4022224774, 264347078, 604807628, 770255983, 1249150122, 1555081692, 1996064986,
     2554220882, 2821834349, 2952996808, 3210313671, 3336571891, 3584528711, 113926993, 338241895,
     666307205, 773529912, 1294757372, 1396182291, 1695183700, 1986661051, 2177026350, 2456956037,
     2730485921, 2820302411, 3259730800, 3345764771, 3516065817, 3600352804, 4094571909, 275423344,
     430227734, 506948616, 659060556, 883997877, 958139571, 1322822218, 1537002063, 1747873779,
     1955562222, 2024104815, 2227730452, 2361852424, 2428436474, 2756734187, 3204031479, 3329325298]"

definition kInitialState :: "u32 list" where
  "kInitialState = [1779033703, 3144134277, 1013904242, 2773480762, 1359893119, 2600822924, 528734635, 1541459225]"

definition kBlockBytes :: nat where "kBlockBytes = 64"

definition byte_word :: "char \<Rightarrow> u32" where
  "byte_word c = word_of_nat (of_char c)"

definition block_word :: "string \<Rightarrow> nat \<Rightarrow> u32" where
  "block_word block i =
     push_bit 24 (byte_word (block ! (i * 4))) OR push_bit 16 (byte_word (block ! (i * 4 + 1)))
     OR push_bit 8 (byte_word (block ! (i * 4 + 2))) OR byte_word (block ! (i * 4 + 3))"

definition extend_schedule :: "u32 list \<Rightarrow> nat \<Rightarrow> u32 list" where
  "extend_schedule schedule i =
     (let s0 = word_rotr 7 (schedule ! (i - 15)) XOR word_rotr 18 (schedule ! (i - 15)) XOR drop_bit 3 (schedule ! (i - 15));
          s1 = word_rotr 17 (schedule ! (i - 2)) XOR word_rotr 19 (schedule ! (i - 2)) XOR drop_bit 10 (schedule ! (i - 2))
      in schedule[i := schedule ! (i - 16) + s0 + schedule ! (i - 7) + s1])"

definition message_schedule :: "string \<Rightarrow> u32 list" where
  "message_schedule block =
     foldl extend_schedule (map (block_word block) [0..<16] @ replicate 48 0) [16..<64]"

definition round_step :: "u32 list \<Rightarrow> u32 list \<Rightarrow> nat \<Rightarrow> u32 list" where
  "round_step schedule work i =
     (let s1 = word_rotr 6 (work ! 4) XOR word_rotr 11 (work ! 4) XOR word_rotr 25 (work ! 4);
          ch = (work ! 4 AND work ! 5) XOR (NOT (work ! 4) AND work ! 6);
          temp1 = work ! 7 + s1 + ch + kRoundConstants ! i + schedule ! i;
          s0 = word_rotr 2 (work ! 0) XOR word_rotr 13 (work ! 0) XOR word_rotr 22 (work ! 0);
          majority = (work ! 0 AND work ! 1) XOR (work ! 0 AND work ! 2) XOR (work ! 1 AND work ! 2);
          temp2 = s0 + majority
      in [temp1 + temp2, work ! 0, work ! 1, work ! 2, work ! 3 + temp1, work ! 4, work ! 5, work ! 6])"

definition Sha256_Compress :: "u32 list \<Rightarrow> string \<Rightarrow> u32 list" where
  "Sha256_Compress state block =
     (let work = foldl (round_step (message_schedule block)) state [0..<64]
      in map (\<lambda>i. state ! i + work ! i) [0..<8])"

function sha_blocks :: "u32 list \<Rightarrow> string \<Rightarrow> u32 list \<times> string" where
  "sha_blocks state data =
     (if kBlockBytes \<le> length data
      then sha_blocks (Sha256_Compress state (take kBlockBytes data)) (drop kBlockBytes data)
      else (state, data))"
  by pat_completeness auto
termination
  by (relation "measure (\<lambda>(state, data). length data)") (auto simp: kBlockBytes_def)

declare sha_blocks.simps [simp del]

definition length_byte :: "nat \<Rightarrow> nat \<Rightarrow> char" where
  "length_byte bit_length i = char_of (drop_bit (i * 8) bit_length AND 255)"

definition sha_tail_len :: "nat \<Rightarrow> nat" where
  "sha_tail_len rest = (if rest + 1 + 8 \<le> kBlockBytes then kBlockBytes else kBlockBytes * 2)"

definition sha_tail :: "nat \<Rightarrow> string \<Rightarrow> string" where
  "sha_tail nbytes rest =
     (let zero = replicate (kBlockBytes * 2) (char_of (0 :: nat));
          tail = rest @ drop (length rest) zero;
          tail = tail[length rest := char_of (128 :: nat)];
          tail_len = sha_tail_len (length rest);
          bit_length = (nbytes * 8) mod 2 ^ 64
      in foldl (\<lambda>tail i. tail[tail_len - 1 - i := length_byte bit_length i]) tail [0..<8])"

definition digest_bytes :: "u32 list \<Rightarrow> string" where
  "digest_bytes state =
     concat (map (\<lambda>word. map (\<lambda>shift. char_of (unat (drop_bit shift word AND 255))) [24, 16, 8, 0]) state)"

definition Sha256 :: "string \<Rightarrow> string" where
  "Sha256 data =
     (case sha_blocks kInitialState data of (state, rest) \<Rightarrow>
        let tail = sha_tail (length data) rest;
            blocks = map (\<lambda>b. take kBlockBytes (drop (b * kBlockBytes) tail)) [0..<sha_tail_len (length rest) div kBlockBytes]
        in digest_bytes (foldl Sha256_Compress state blocks))"

definition nix32_byte :: "string \<Rightarrow> nat \<Rightarrow> nat" where
  "nix32_byte bytes idx = (if idx < length bytes then of_char (bytes ! idx) else 0)"

definition nix32_length :: "nat \<Rightarrow> nat" where
  "nix32_length n = (n * 8 - 1) div 5 + 1"

definition Nix32 :: "string \<Rightarrow> string" where
  "Nix32 bytes =
     (let len = nix32_length (length bytes) in
      map (\<lambda>idx. let bit = (len - 1 - idx) * 5;
                     pair = nix32_byte bytes (bit div 8) OR push_bit 8 (nix32_byte bytes (bit div 8 + 1))
                 in nix_base32 ! (drop_bit (bit mod 8) pair AND 31)) [0..<len])"

definition kStorePathHashBytes :: nat where "kStorePathHashBytes = 20"

definition xor_char :: "char \<Rightarrow> char \<Rightarrow> char" where
  "xor_char a b = char_of ((of_char a :: nat) XOR of_char b)"

definition CompressHash :: "string \<Rightarrow> string" where
  "CompressHash digest =
     foldl (\<lambda>out i. out[i mod kStorePathHashBytes := xor_char (out ! (i mod kStorePathHashBytes)) (digest ! i)])
       (replicate kStorePathHashBytes (char_of (0 :: nat))) [0..<length digest]"

definition MakeStorePath :: "string \<Rightarrow> string \<Rightarrow> string \<Rightarrow> string \<Rightarrow> string" where
  "MakeStorePath sdir type inner_fingerprint name =
     (let fingerprint = type @ '':sha256:'' @ HexEncode (Sha256 inner_fingerprint) @ '':'' @ sdir @ '':'' @ name
      in sdir @ ''/'' @ Nix32 (CompressHash (Sha256 fingerprint)) @ ''-'' @ name)"

definition FixedOutputPath :: "string \<Rightarrow> string \<Rightarrow> string \<Rightarrow> string \<Rightarrow> string" where
  "FixedOutputPath sdir name algo hex =
     MakeStorePath sdir ''output:out'' (''fixed:out:'' @ algo @ '':'' @ hex @ '':'') name"

definition TextPath :: "string \<Rightarrow> string \<Rightarrow> string list \<Rightarrow> string \<Rightarrow> string" where
  "TextPath sdir name references contents =
     MakeStorePath sdir (''text'' @ concat (map (\<lambda>ref. '':'' @ ref) (sort references))) contents name"

section \<open>SHA-256 as padding and folding\<close>

definition sha_blocks_of :: "string \<Rightarrow> string list" where
  "sha_blocks_of d = map (\<lambda>b. take kBlockBytes (drop (b * kBlockBytes) d)) [0..<length d div kBlockBytes]"

text \<open>The padded message of FIPS 180-4.\<close>

definition sha_pad :: "string \<Rightarrow> string" where
  "sha_pad data = data @ [char_of (128 :: nat)]
     @ replicate ((119 - length data mod 64) mod 64) (char_of (0 :: nat))
     @ map (\<lambda>i. char_of ((length data * 8 mod 2 ^ 64) div 256 ^ (7 - i) mod 256 :: nat)) [0..<8]"

lemma blocks_append:
  assumes "length a = q * kBlockBytes"
  shows "sha_blocks_of (a @ b) = sha_blocks_of a @ sha_blocks_of b"
proof -
  have k: "0 < kBlockBytes" by (simp add: kBlockBytes_def)
  have n: "length (a @ b) div kBlockBytes = q + length b div kBlockBytes" using assms k by simp
  have q: "length a div kBlockBytes = q" using assms k by simp
  have "map (\<lambda>i. take kBlockBytes (drop (i * kBlockBytes) (a @ b))) [0..<q]
      = map (\<lambda>i. take kBlockBytes (drop (i * kBlockBytes) a)) [0..<q]"
  proof (rule map_cong [OF refl])
    fix i assume "i \<in> set [0..<q]"
    then have "Suc i * kBlockBytes \<le> q * kBlockBytes" by (intro mult_le_mono1) simp
    then have "kBlockBytes \<le> length a - i * kBlockBytes" by (simp add: assms)
    then show "take kBlockBytes (drop (i * kBlockBytes) (a @ b)) = take kBlockBytes (drop (i * kBlockBytes) a)"
      by simp
  qed
  moreover have "map (\<lambda>i. take kBlockBytes (drop (i * kBlockBytes) (a @ b))) [q..<q + m]
      = map (\<lambda>i. take kBlockBytes (drop (i * kBlockBytes) b)) [0..<m]" for m
  proof -
    have "[q..<q + m] = map (\<lambda>i. q + i) [0..<m]" by (simp add: map_add_upt add.commute)
    then show ?thesis by (simp add: assms add_mult_distrib)
  qed
  ultimately show ?thesis
    unfolding sha_blocks_of_def n q upt_add_eq_append [OF le0] map_append by simp
qed

lemma sha_blocks_eq:
  "sha_blocks state data = (foldl Sha256_Compress state (sha_blocks_of data), drop (length data div kBlockBytes * kBlockBytes) data)"
proof (induction state data rule: sha_blocks.induct)
  case (1 state data)
  show ?case
  proof (cases "kBlockBytes \<le> length data")
    case True
    have k: "0 < kBlockBytes" by (simp add: kBlockBytes_def)
    let ?a = "take kBlockBytes data" and ?b = "drop kBlockBytes data"
    have a: "length ?a = 1 * kBlockBytes" using True by simp
    have one: "sha_blocks_of ?a = [?a]" using k a by (simp add: sha_blocks_of_def)
    have "sha_blocks_of data = ?a # sha_blocks_of ?b"
      using blocks_append [OF a, of ?b] one by simp
    moreover have "length data div kBlockBytes = Suc (length ?b div kBlockBytes)"
      using True k le_div_geq [of kBlockBytes "length data"] by simp
    ultimately show ?thesis using 1 True by (subst sha_blocks.simps) (simp add: add.commute)
  next
    case False
    then show ?thesis by (subst sha_blocks.simps) (simp add: sha_blocks_of_def)
  qed
qed

lemma foldl_update_length: "length (foldl (\<lambda>t i. t[g i := f i]) xs is) = length xs"
  by (induction "is" arbitrary: xs) simp_all

lemma foldl_update_back:
  assumes "k \<le> L" "L \<le> length xs" "j < length xs"
  shows "foldl (\<lambda>t i. t[L - 1 - i := f i]) xs [0..<k] ! j = (if L - k \<le> j \<and> j < L then f (L - 1 - j) else xs ! j)"
  using assms
proof (induction k)
  case (Suc k)
  have l: "length (foldl (\<lambda>t i. t[L - 1 - i := f i]) xs [0..<k]) = length xs" by (rule foldl_update_length)
  show ?case
  proof (cases "j = L - 1 - k")
    case True
    with Suc.prems l show ?thesis by auto
  next
    case False
    with Suc l show ?thesis by (auto simp: nth_list_update)
  qed
qed auto

lemma length_byte_eq: "length_byte n i = char_of (n div 256 ^ i mod 256)"
proof -
  have "(2 :: nat) ^ (i * 8) = 256 ^ i" using power_mult [of "2 :: nat" 8 i] by (simp add: mult.commute)
  moreover have "drop_bit (i * 8) n AND 255 = drop_bit (i * 8) n mod 256"
    using take_bit_eq_mask [of 8 "drop_bit (i * 8) n"] by (simp add: take_bit_eq_mod mask_eq_exp_minus_1)
  ultimately show ?thesis by (simp add: length_byte_def drop_bit_eq_div)
qed

lemma sha_tail_eq:
  assumes "length rest < 64"
  shows "take (sha_tail_len (length rest)) (sha_tail n rest) = rest @ [char_of (128 :: nat)]
     @ replicate (sha_tail_len (length rest) - length rest - 9) (char_of (0 :: nat))
     @ map (\<lambda>i. char_of ((n * 8 mod 2 ^ 64) div 256 ^ (7 - i) mod 256 :: nat)) [0..<8]" (is "?l = ?r")
proof (rule nth_equalityI)
  let ?L = "sha_tail_len (length rest)"
  let ?base = "rest @ char_of (128 :: nat) # replicate (127 - length rest) (char_of (0 :: nat))"
  have L: "length rest + 9 \<le> ?L" "?L \<le> 128" "8 \<le> ?L"
    using assms by (auto simp: sha_tail_len_def kBlockBytes_def)
  have b: "(rest @ drop (length rest) (replicate (kBlockBytes * 2) (char_of (0 :: nat))))[length rest := char_of (128 :: nat)] = ?base"
  proof -
    have "drop (length rest) (replicate (kBlockBytes * 2) (char_of (0 :: nat))) = char_of (0 :: nat) # replicate (127 - length rest) (char_of (0 :: nat))"
      using assms by (simp add: kBlockBytes_def flip: replicate_Suc)
    then show ?thesis by (simp add: list_update_append)
  qed
  have t: "sha_tail n rest = foldl (\<lambda>t i. t[?L - 1 - i := length_byte (n * 8 mod 2 ^ 64) i]) ?base [0..<8]"
    by (simp only: sha_tail_def Let_def b)
  have len: "length (sha_tail n rest) = 128" unfolding t foldl_update_length using assms by simp
  show "length ?l = length ?r" using L len by simp
  fix j assume "j < length ?l"
  then have j: "j < ?L" "j < 128" using L len by auto
  have "sha_tail n rest ! j = (if ?L - 8 \<le> j \<and> j < ?L then length_byte (n * 8 mod 2 ^ 64) (?L - 1 - j) else ?base ! j)"
    unfolding t by (rule foldl_update_back) (use L j assms in auto)
  moreover have "?r ! j = (if ?L - 8 \<le> j then char_of ((n * 8 mod 2 ^ 64) div 256 ^ (7 - (j - (?L - 8))) mod 256) else ?base ! j)"
    using L j by (auto simp: nth_append nth_Cons' nth_map)
  moreover have "7 - (j - (?L - 8)) = ?L - 1 - j" if "?L - 8 \<le> j" using that L j by linarith
  ultimately show "?l ! j = ?r ! j" using j by (simp add: length_byte_eq)
qed

lemma sha_pad_split:
  fixes data :: string
  defines "q \<equiv> length data div kBlockBytes" and "rest \<equiv> drop (length data div kBlockBytes * kBlockBytes) data"
  shows "sha_pad data = take (q * kBlockBytes) data @ take (sha_tail_len (length rest)) (sha_tail (length data) rest)"
proof -
  have r: "length rest = length data mod 64" "length rest < 64"
    by (simp_all add: rest_def kBlockBytes_def minus_div_mult_eq_mod)
  have z: "(119 - length data mod 64) mod 64 = sha_tail_len (length rest) - length rest - 9"
  proof (cases "length rest \<le> 55")
    case True
    then have "(119 - length rest) mod 64 = (64 + (55 - length rest)) mod 64" by (intro arg_cong2 [where f = "(mod)"]) auto
    also have "\<dots> = 55 - length rest" by simp
    finally show ?thesis using True r by (simp add: sha_tail_len_def kBlockBytes_def)
  next
    case False
    then show ?thesis using r by (simp add: sha_tail_len_def kBlockBytes_def)
  qed
  have "data = take (q * kBlockBytes) data @ rest" by (simp add: q_def rest_def)
  then show ?thesis unfolding sha_tail_eq [OF r(2)] sha_pad_def z by (metis append.assoc)
qed

lemma sha_tail_blocks:
  assumes "length rest < 64"
  shows "map (\<lambda>b. take kBlockBytes (drop (b * kBlockBytes) (sha_tail n rest))) [0..<sha_tail_len (length rest) div kBlockBytes]
    = sha_blocks_of (take (sha_tail_len (length rest)) (sha_tail n rest))"
proof -
  let ?L = "sha_tail_len (length rest)" and ?t = "sha_tail n rest"
  have L: "?L = kBlockBytes \<or> ?L = 2 * kBlockBytes" by (simp add: sha_tail_len_def)
  have "length (take ?L ?t) = ?L"
    unfolding sha_tail_eq [OF assms] using assms by (auto simp: sha_tail_len_def kBlockBytes_def)
  moreover have "take kBlockBytes (drop (b * kBlockBytes) (take ?L ?t)) = take kBlockBytes (drop (b * kBlockBytes) ?t)"
    if "b < ?L div kBlockBytes" for b
    using that L by (auto simp: kBlockBytes_def drop_take less_Suc_eq numeral_2_eq_2)
  ultimately show ?thesis by (simp add: sha_blocks_of_def)
qed

text \<open>C12. \<^verbatim>\<open>Sha256\<close>, which hashes the whole blocks in place and builds the last one or two in a fixed array,
  is the fold of the compression function over the 64-byte blocks of the padded message of the standard; the
  padded message is a whole number of blocks for every input.\<close>

theorem sha256_pads_and_folds:
  "Sha256 data = digest_bytes (foldl Sha256_Compress kInitialState
      (map (\<lambda>b. take kBlockBytes (drop (b * kBlockBytes) (sha_pad data))) [0..<length (sha_pad data) div kBlockBytes]))
   \<and> length (sha_pad data) mod kBlockBytes = 0"
proof
  let ?q = "length data div kBlockBytes" and ?rest = "drop (length data div kBlockBytes * kBlockBytes) data"
  let ?a = "take (?q * kBlockBytes) data" and ?t = "take (sha_tail_len (length ?rest)) (sha_tail (length data) ?rest)"
  have r: "length ?rest < 64" by (simp add: kBlockBytes_def minus_div_mult_eq_mod)
  have a: "length ?a = ?q * kBlockBytes" by (simp add: min_absorb2)
  have "sha_blocks_of data = sha_blocks_of ?a"
  proof -
    have "sha_blocks_of ?rest = []" using r by (simp add: sha_blocks_of_def kBlockBytes_def)
    then show ?thesis using blocks_append [OF a, of ?rest] by simp
  qed
  then show "Sha256 data = digest_bytes (foldl Sha256_Compress kInitialState
      (map (\<lambda>b. take kBlockBytes (drop (b * kBlockBytes) (sha_pad data))) [0..<length (sha_pad data) div kBlockBytes]))"
    unfolding sha_blocks_of_def [symmetric] sha_pad_split blocks_append [OF a] foldl_append
    by (simp only: Sha256_def sha_blocks_eq case_prod_conv Let_def sha_tail_blocks [OF r])
  have "length ?t = sha_tail_len (length ?rest)"
    unfolding sha_tail_eq [OF r] using r by (auto simp: sha_tail_len_def kBlockBytes_def)
  then show "length (sha_pad data) mod kBlockBytes = 0"
    unfolding sha_pad_split length_append a by (simp add: sha_tail_len_def mod_mult_self3)
qed

section \<open>Base 32\<close>

text \<open>The bytes as a number, least significant first.\<close>

definition le_value :: "string \<Rightarrow> nat" where
  "le_value bytes = foldr (\<lambda>c n. of_char c + 256 * n) bytes 0"

lemma le_value_simps [simp]: "le_value [] = 0" "le_value (c # s) = of_char c + 256 * le_value s"
  by (simp_all add: le_value_def)

lemma of_char_less: "(of_char c :: nat) < 256"
  by (metis nat_of_char_less_256)

lemma le_value_less: "le_value s < 256 ^ length s"
proof (induction s)
  case (Cons c s)
  have "of_char c + 256 * le_value s < 256 + 256 * le_value s" using of_char_less [of c] by simp
  also have "\<dots> = 256 * (le_value s + 1)" by simp
  also have "\<dots> \<le> 256 * 256 ^ length s" using Cons by (intro mult_le_mono2) simp
  finally show ?case by simp
qed simp

lemma le_value_byte: "nix32_byte s i = le_value s div 256 ^ i mod 256"
proof (induction s arbitrary: i)
  case (Cons c s)
  have c: "(of_char c :: nat) < 256" by (rule of_char_less)
  show ?case
  proof (cases i)
    case 0
    then show ?thesis using c by (simp add: nix32_byte_def)
  next
    case (Suc j)
    have "(of_char c + 256 * le_value s) div 256 = le_value s" using c by simp
    then show ?thesis using Suc Cons [of j] by (auto simp: nix32_byte_def div_mult2_eq split: if_splits)
  qed
qed (simp add: nix32_byte_def)

lemma le_value_inject: "length s = length t \<Longrightarrow> le_value s = le_value t \<Longrightarrow> s = t"
proof (induction s t rule: list_induct2)
  case (Cons c s d t)
  have m: "(of_char x + 256 * n) mod 256 = of_char x" "(of_char x + 256 * n) div 256 = n" for x :: char and n :: nat
    using of_char_less [of x] by simp_all
  have e: "of_char c + 256 * le_value s = of_char d + 256 * le_value t" using Cons.prems by simp
  have "(of_char c :: nat) = of_char d" "le_value s = le_value t"
    using arg_cong [OF e, of "\<lambda>n. n mod 256"] arg_cong [OF e, of "\<lambda>n. n div 256"] by (simp_all only: m)
  then show ?case using Cons.IH by (simp add: of_char_eq_iff)
qed simp

lemma or_bytes:
  fixes a b :: nat
  assumes "a < 256"
  shows "a OR push_bit 8 b = a + 256 * b"
proof -
  have "take_bit 8 a = a" using assms by (simp add: take_bit_eq_mod)
  moreover have "take_bit 8 a AND push_bit 8 b = 0" by (rule bit_eqI) (simp add: bit_simps)
  ultimately have "a + push_bit 8 b = a OR push_bit 8 b" by (intro disjunctive_add_eq_or) simp
  then show ?thesis by (simp add: push_bit_eq_mult mult.commute)
qed

lemma and_31: "n AND 31 = n mod 32" for n :: nat
  using take_bit_eq_mask [of 5 n] by (simp add: take_bit_eq_mod mask_eq_exp_minus_1)

text \<open>The five bits at a position lie in two neighbouring bytes.\<close>

lemma nix32_digit:
  "drop_bit (b mod 8) (nix32_byte s (b div 8) OR push_bit 8 (nix32_byte s (b div 8 + 1))) AND 31 = le_value s div 2 ^ b mod 32"
proof -
  let ?N = "le_value s div 256 ^ (b div 8)" and ?r = "b mod 8"
  have "nix32_byte s (b div 8) + 256 * nix32_byte s (b div 8 + 1) = ?N mod 256 + 256 * (?N div 256 mod 256)"
    by (simp add: le_value_byte div_mult2_eq mult.commute [of 256])
  also have "\<dots> = ?N mod 65536"
    using mod_mult2_eq [of ?N 256 256] by simp
  finally have p: "nix32_byte s (b div 8) OR push_bit 8 (nix32_byte s (b div 8 + 1)) = ?N mod 65536"
    by (subst or_bytes) (simp_all add: le_value_byte)
  have r: "?r \<le> 11" by (rule order.strict_implies_order [OF less_le_trans [OF mod_less_divisor]]) simp_all
  have "?N mod 65536 div 2 ^ ?r mod 32 = ?N div 2 ^ ?r mod 32"
  proof -
    have "take_bit 5 (drop_bit ?r (take_bit 16 ?N)) = take_bit 5 (drop_bit ?r ?N)"
      using r by (intro bit_eqI) (auto simp: bit_simps)
    then show ?thesis by (simp add: take_bit_eq_mod drop_bit_eq_div)
  qed
  also have "?N div 2 ^ ?r = le_value s div 2 ^ b"
  proof -
    have "(256 :: nat) ^ (b div 8) * 2 ^ ?r = 2 ^ (8 * (b div 8) + ?r)"
      using power_mult [of "2 :: nat" 8 "b div 8"] by (simp only: power_add) simp
    then show ?thesis by (simp only: div_mult2_eq [symmetric] mult_div_mod_eq)
  qed
  finally show ?thesis unfolding p and_31 drop_bit_eq_div .
qed

lemma Nix32_digits:
  fixes s :: string
  defines "n \<equiv> nix32_length (length s)"
  shows "Nix32 s = map (\<lambda>idx. nix_base32 ! (le_value s div 32 ^ (n - 1 - idx) mod 32)) [0..<n]"
proof -
  have "(2 :: nat) ^ (k * 5) = 32 ^ k" for k using power_mult [of "2 :: nat" 5 k] by (simp add: mult.commute)
  then show ?thesis unfolding Nix32_def Let_def n_def nix32_digit by simp
qed

lemma nix_base32_length: "length nix_base32 = 32"
  by (simp add: nix_base32_def)

text \<open>Reading base 32 back: the most significant digit comes first.\<close>

definition of_nix32 :: "string \<Rightarrow> nat" where
  "of_nix32 str = foldl (\<lambda>n c. n * 32 + length (takeWhile (\<lambda>x. x \<noteq> c) nix_base32)) 0 str"

lemma nix_base32_index: "d < 32 \<Longrightarrow> length (takeWhile (\<lambda>x. x \<noteq> nix_base32 ! d) nix_base32) = d"
proof -
  assume d: "d < 32"
  have "list_all (\<lambda>d. length (takeWhile (\<lambda>x. x \<noteq> nix_base32 ! d) nix_base32) = d) [0..<32]" by code_simp
  with d show ?thesis by (simp add: list_all_iff)
qed

lemma foldl_digits:
  "foldl (\<lambda>n d. n * b + d) 0 (map (\<lambda>idx. N div b ^ (k - 1 - idx) mod b) [0..<k]) = N mod b ^ k" if "0 < b" for b k N :: nat
proof (induction k arbitrary: N)
  case (Suc k)
  have m: "map (\<lambda>idx. N div b ^ (Suc k - 1 - idx) mod b) [0..<Suc k]
      = map (\<lambda>idx. N div b div b ^ (k - 1 - idx) mod b) [0..<k] @ [N mod b]"
    by (auto simp: div_mult2_eq [symmetric] power_Suc [symmetric] Suc_diff_Suc simp del: power_Suc)
  show ?case
    unfolding m foldl_append using Suc [of "N div b"] mod_mult2_eq [of N b "b ^ k"] by (simp add: mult.commute)
qed simp

text \<open>C37. Base 32 loses nothing: reading the digits of \<^verbatim>\<open>Nix32\<close> back gives the number the bytes spell, least
  significant first, so two hashes of the same length have the same spelling only when they are the same.\<close>

theorem nix32_round_trip:
  assumes "bytes \<noteq> []"
  shows "of_nix32 (Nix32 bytes) = le_value bytes
    \<and> (\<forall>other. length other = length bytes \<longrightarrow> Nix32 other = Nix32 bytes \<longrightarrow> other = bytes)"
proof -
  have rt: "of_nix32 (Nix32 s) = le_value s" if s: "s \<noteq> []" for s
  proof -
    let ?n = "nix32_length (length s)"
    have "of_nix32 (Nix32 s) = foldl (\<lambda>n d. n * 32 + d) 0 (map (\<lambda>idx. le_value s div 32 ^ (?n - 1 - idx) mod 32) [0..<?n])"
      unfolding Nix32_digits of_nix32_def by (simp add: foldl_map nix_base32_index)
    also have "\<dots> = le_value s mod 32 ^ ?n" by (rule foldl_digits) simp
    also have "\<dots> = le_value s"
    proof (rule mod_less)
      have "8 * length s \<le> 5 * ?n" using s by (cases s) (auto simp: nix32_length_def)
      then have "(2 :: nat) ^ (8 * length s) \<le> 2 ^ (5 * ?n)" by (intro power_increasing) simp_all
      then show "le_value s < 32 ^ ?n" using le_value_less [of s] by (simp add: power_mult)
    qed
    finally show ?thesis .
  qed
  show ?thesis
  proof (intro conjI allI impI)
    show "of_nix32 (Nix32 bytes) = le_value bytes" by (rule rt [OF assms])
    fix other assume o: "length other = length bytes" "Nix32 other = Nix32 bytes"
    then have "other \<noteq> []" using assms by auto
    with rt [of other] rt [OF assms] o show "other = bytes" by (intro le_value_inject) simp_all
  qed
qed

theorem nix32_round_trip_witness: "of_nix32 (Nix32 ''abc'') = le_value ''abc''"
  using nix32_round_trip [of "''abc''"] by simp

section \<open>Store paths\<close>

lemma CompressHash_length: "length (CompressHash digest) = kStorePathHashBytes"
proof -
  have "length (foldl (\<lambda>out i. out[f i := g out i]) xs is) = length xs" for f :: "nat \<Rightarrow> nat" and g and xs :: string and "is"
    by (induction "is" arbitrary: xs) simp_all
  then show ?thesis by (simp add: CompressHash_def)
qed

lemma Nix32_hash:
  assumes "length bytes = kStorePathHashBytes"
  shows "IsStoreHash (Nix32 bytes)"
proof -
  have n: "nix32_length (length bytes) = 32" using assms by (simp add: nix32_length_def kStorePathHashBytes_def)
  have "nix_base32 ! (k mod 32) \<in> set nix_base32" for k by (rule nth_mem) (simp add: nix_base32_length)
  then show ?thesis
    unfolding Nix32_digits n IsStoreHash_def by (auto simp: list_all_iff kStoreHashLength_def)
qed

text \<open>Every path \<^verbatim>\<open>MakeStorePath\<close> computes is a store path: the store directory, a hash of thirty-two
  base-32 digits, a dash and the name, so it is recognised and masked as one.\<close>

lemma make_store_path_well_formed:
  "\<exists>h. IsStoreHash h \<and> MakeStorePath sdir type inner name = sdir @ ''/'' @ h @ ''-'' @ name"
  using Nix32_hash [OF CompressHash_length] by (auto simp: MakeStorePath_def Let_def)

end
