(* ===== verification/Cache_Client.thy ===== *)
theory Cache_Client
  imports Jig_Store
begin

text \<open>
  \<^verbatim>\<open>pkgs/ji/jig/src/cache_client.{h,cc}\<close>: the client of the cache daemon.  A client is the record of
  its members plus its end of the connection: \<open>rx\<close> has what each coming \<^verbatim>\<open>read\<close> finds (an empty
  chunk is end of file or an error), \<open>tx\<close> how many bytes each coming \<^verbatim>\<open>send\<close> takes (none: error),
  \<open>sent\<close> what went out.  zstd is third-party: \<open>zc\<close> compresses (\<^term>\<open>None\<close> on error) and
  \<open>zd\<close> decompresses into a capacity.  \<open>stream\<close> forgets the buffering, and every operation is
  proved against it.
\<close>

section \<open>Connection\<close>

record client =
  valid_fd :: bool
  pending :: string
  rx :: "string list"
  tx :: "nat list"
  sent :: string

definition kBufSize :: nat where
  "kBufSize = 65536"

definition kMaxObjectSize :: nat where
  "kMaxObjectSize = 2 * 2 ^ 30"

text \<open>\<open>sun_path\<close> is the size of \<^verbatim>\<open>sockaddr_un::sun_path\<close>; \<open>sock\<close> and \<open>refused\<close> are the
  answers of \<^verbatim>\<open>socket\<close> and \<^verbatim>\<open>connect\<close>; a new connection keeps the buffer.\<close>

definition Connect :: "nat \<Rightarrow> bool \<Rightarrow> bool \<Rightarrow> string \<Rightarrow> client \<Rightarrow> bool \<times> client" where
  "Connect sun_path sock refused socket_path c =
     (if sun_path \<le> length socket_path then (False, c)
      else if \<not> sock then (False, c)
      else if refused then (False, c)
      else (True, c\<lparr>valid_fd := True\<rparr>))"

function SendAll :: "string \<Rightarrow> client \<Rightarrow> bool \<times> client" where
  "SendAll data c =
     (if data = [] then (True, c)
      else case tx c of
        [] \<Rightarrow> (False, c)
      | k # ks \<Rightarrow>
          if \<not> valid_fd c \<or> k = 0 then (False, c\<lparr>tx := ks\<rparr>)
          else SendAll (drop k data) (c\<lparr>tx := ks, sent := sent c @ take k data\<rparr>))"
  by pat_completeness auto
termination
  by (relation "measure (\<lambda>(data, c). length data)") auto

declare SendAll.simps [simp del]

definition Fill :: "client \<Rightarrow> bool \<times> client" where
  "Fill c =
     (case rx c of
        [] \<Rightarrow> (False, c)
      | ch # rest \<Rightarrow>
          if \<not> valid_fd c then (False, c)
          else if ch = [] then (False, c\<lparr>rx := rest\<rparr>)
          else (True, c\<lparr>pending := take kBufSize ch,
                         rx := (if length ch \<le> kBufSize then rest else drop kBufSize ch # rest)\<rparr>))"

lemma Fill_pending: "Fill c = (True, c') \<Longrightarrow> pending c' \<noteq> []"
  by (auto simp: Fill_def kBufSize_def split: list.splits if_splits)

function recv_line :: "string \<Rightarrow> client \<Rightarrow> string option \<times> client" where
  "recv_line line c =
     (case str_find (pending c) [newline] 0 of
        Some nl \<Rightarrow> (Some (line @ substr (pending c) 0 nl), c\<lparr>pending := drop (nl + 1) (pending c)\<rparr>)
      | None \<Rightarrow>
          (case Fill c of
             (False, c') \<Rightarrow> (None, c')
           | (True, c') \<Rightarrow> recv_line (line @ pending c) c'))"
  by pat_completeness auto
termination
proof (relation "measure (\<lambda>(line, c). length (concat (rx c)))", goal_cases)
  case (2 line c x c')
  then show ?case
    by (auto simp: Fill_def kBufSize_def split: list.splits if_splits)
qed simp

declare recv_line.simps [simp del]

definition RecvLine :: "client \<Rightarrow> string option \<times> client" where
  "RecvLine c = recv_line [] c"

function recv_exactly :: "nat \<Rightarrow> string \<Rightarrow> client \<Rightarrow> string option \<times> client" where
  "recv_exactly remaining out c =
     (if remaining = 0 then (Some out, c)
      else case (if pending c = [] then Fill c else (True, c)) of
        (False, c') \<Rightarrow> (None, c')
      | (True, c') \<Rightarrow>
          (let n = min (length (pending c')) remaining in
           recv_exactly (remaining - n) (out @ take n (pending c')) (c'\<lparr>pending := drop n (pending c')\<rparr>)))"
  by pat_completeness auto
termination
proof (relation "measure (\<lambda>(remaining, out, c). remaining)", goal_cases)
  case (2 remaining out c x c' n)
  then show ?case
    using Fill_pending [of c c'] by (cases "pending c = []") auto
qed simp

declare recv_exactly.simps [simp del]

definition RecvExactly :: "nat \<Rightarrow> client \<Rightarrow> string option \<times> client" where
  "RecvExactly cnt c = recv_exactly cnt [] c"

section \<open>Values\<close>

definition kHeader :: nat where
  "kHeader = 4"

text \<open>\<^verbatim>\<open>bit_cast\<close> of a 32 bit number to bytes and back, little endian.\<close>

definition le32 :: "nat \<Rightarrow> string" where
  "le32 n = map (\<lambda>i. char_of (n div 256 ^ i mod 256)) [0..<kHeader]"

definition of_le32 :: "string \<Rightarrow> nat" where
  "of_le32 s = foldr (\<lambda>c n. of_char c + 256 * n) s 0"

definition Compress :: "(string \<Rightarrow> string option) \<Rightarrow> string \<Rightarrow> string" where
  "Compress zc value =
     (case zc value of
        None \<Rightarrow> []
      | Some written \<Rightarrow> le32 (length value mod 2 ^ 32) @ written)"

definition Decompress :: "(string \<Rightarrow> nat \<Rightarrow> string option) \<Rightarrow> string \<Rightarrow> string option" where
  "Decompress zd wire =
     (if length wire < kHeader then None
      else (let size = of_le32 (take kHeader wire) in
            case zd (drop kHeader wire) size of
              None \<Rightarrow> None
            | Some out \<Rightarrow> if length out = size then Some out else None))"

definition RecvValue :: "(string \<Rightarrow> nat \<Rightarrow> string option) \<Rightarrow> client \<Rightarrow> string option \<times> client" where
  "RecvValue zd c =
     (case RecvLine c of
        (None, c1) \<Rightarrow> (None, c1)
      | (Some line, c1) \<Rightarrow>
          if \<not> starts_with line ''OK '' then (None, c1)
          else case ParseUint (drop 3 line) 10 of
            None \<Rightarrow> (None, c1\<lparr>valid_fd := False\<rparr>)
          | Some len \<Rightarrow>
              if kMaxObjectSize < len then (None, c1\<lparr>valid_fd := False\<rparr>)
              else (case RecvExactly len c1 of
                      (None, c2) \<Rightarrow> (None, c2)
                    | (Some wire, c2) \<Rightarrow> (Decompress zd wire, c2)))"

section \<open>Requests\<close>

definition Get :: "(string \<Rightarrow> nat \<Rightarrow> string option) \<Rightarrow> string \<Rightarrow> client \<Rightarrow> string option \<times> client" where
  "Get zd key c =
     (if \<not> valid_fd c then (None, c)
      else case SendAll (''GET '' @ key @ [newline]) c of
        (False, c1) \<Rightarrow> (None, c1)
      | (True, c1) \<Rightarrow> RecvValue zd c1)"

fun recv_each :: "(client \<Rightarrow> 'a \<times> client) \<Rightarrow> nat \<Rightarrow> client \<Rightarrow> 'a list \<times> client" where
  "recv_each f 0 c = ([], c)"
| "recv_each f (Suc n) c =
     (case f c of (v, c1) \<Rightarrow> (case recv_each f n c1 of (vs, c2) \<Rightarrow> (v # vs, c2)))"

definition GetMany :: "(string \<Rightarrow> nat \<Rightarrow> string option) \<Rightarrow> string list \<Rightarrow> client \<Rightarrow> string option list \<times> client" where
  "GetMany zd keys c =
     (let request = concat (map (\<lambda>key. ''GET '' @ key @ [newline]) keys) in
      if \<not> valid_fd c \<or> keys = [] then (replicate (length keys) None, c)
      else case SendAll request c of
        (False, c1) \<Rightarrow> (replicate (length keys) None, c1)
      | (True, c1) \<Rightarrow> recv_each (RecvValue zd) (length keys) c1)"

definition Identities :: "string list \<Rightarrow> client \<Rightarrow> string list \<times> client" where
  "Identities paths c =
     (if \<not> valid_fd c \<or> paths = [] then ([], c)
      else case SendAll (''IDS '' @ to_decimal (length paths) @ [newline]
                           @ concat (map (\<lambda>path. path @ [newline]) paths)) c of
        (False, c1) \<Rightarrow> ([], c1)
      | (True, c1) \<Rightarrow>
          (case read_n RecvLine (length paths) c1 of
             (None, c2) \<Rightarrow> ([], c2)
           | (Some ids, c2) \<Rightarrow> (ids, c2)))"

definition AcquireSlot :: "string \<Rightarrow> client \<Rightarrow> bool \<times> client" where
  "AcquireSlot build c =
     (if \<not> valid_fd c then (False, c)
      else case SendAll (''SLOT '' @ build @ [newline]) c of
        (False, c1) \<Rightarrow> (False, c1)
      | (True, c1) \<Rightarrow> (case RecvLine c1 of (line, c2) \<Rightarrow> (line = Some ''OK'', c2)))"

definition ReleaseSlot :: "string \<Rightarrow> client \<Rightarrow> client" where
  "ReleaseSlot build c =
     (if \<not> valid_fd c then c
      else case SendAll (''DONE '' @ build @ [newline]) c of
        (False, c1) \<Rightarrow> c1
      | (True, c1) \<Rightarrow> snd (RecvLine c1))"

text \<open>Both sends of a \<^verbatim>\<open>PUT\<close>, the second only after the first.\<close>

definition send_put :: "string \<Rightarrow> string \<Rightarrow> client \<Rightarrow> bool \<times> client" where
  "send_put key wire c =
     (case SendAll (''PUT '' @ key @ '' '' @ to_decimal (length wire) @ [newline]) c of
        (False, c1) \<Rightarrow> (False, c1)
      | (True, c1) \<Rightarrow> SendAll wire c1)"

definition Put :: "(string \<Rightarrow> string option) \<Rightarrow> string \<Rightarrow> string \<Rightarrow> client \<Rightarrow> client" where
  "Put zc key value c =
     (if \<not> valid_fd c then c
      else (let wire = Compress zc value in
            if wire = [] then c
            else case send_put key wire c of
              (False, c1) \<Rightarrow> c1
            | (True, c1) \<Rightarrow> snd (RecvLine c1)))"

fun put_many :: "(string \<Rightarrow> string option) \<Rightarrow> (string \<times> string) list \<Rightarrow> client \<Rightarrow> nat \<times> client" where
  "put_many zc [] c = (0, c)"
| "put_many zc ((key, value) # items) c =
     (let wire = Compress zc value in
      if wire = [] then (0, c)
      else case send_put key wire c of
        (False, c1) \<Rightarrow> (0, c1)
      | (True, c1) \<Rightarrow> (case put_many zc items c1 of (n, c2) \<Rightarrow> (Suc n, c2)))"

definition PutMany :: "(string \<Rightarrow> string option) \<Rightarrow> (string \<times> string) list \<Rightarrow> client \<Rightarrow> client" where
  "PutMany zc items c =
     (if \<not> valid_fd c \<or> items = [] then c
      else case put_many zc items c of
        (n, c1) \<Rightarrow> snd (recv_each RecvLine n c1))"

definition HasMany :: "string list \<Rightarrow> client \<Rightarrow> bool list \<times> client" where
  "HasMany keys c =
     (let request = concat (map (\<lambda>key. ''HAS '' @ key @ [newline]) keys) in
      if \<not> valid_fd c \<or> keys = [] then (replicate (length keys) False, c)
      else case SendAll request c of
        (False, c1) \<Rightarrow> (replicate (length keys) False, c1)
      | (True, c1) \<Rightarrow>
          recv_each (\<lambda>c. case RecvLine c of (line, c') \<Rightarrow> (line = Some ''1'', c')) (length keys) c1)"

section \<open>The stream behind the buffer\<close>

definition stream :: "client \<Rightarrow> string" where
  "stream c = pending c @ (if valid_fd c then concat (takeWhile (\<lambda>ch. ch \<noteq> []) (rx c)) else [])"

lemma Fill_True:
  "Fill c = (True, c') \<Longrightarrow> stream c = pending c @ stream c' \<and> valid_fd c' = valid_fd c \<and> sent c' = sent c"
  by (auto simp: Fill_def stream_def kBufSize_def split: list.splits if_splits)

lemma Fill_False:
  "Fill c = (False, c') \<Longrightarrow> stream c = pending c"
  by (auto simp: Fill_def stream_def split: list.splits if_splits)

lemma stream_drop: "stream (c\<lparr>pending := drop n (pending c)\<rparr>) = drop n (stream c)" if "n \<le> length (pending c)"
  using that by (simp add: stream_def)

lemma append_char_split:
  assumes "a @ b = l @ z # r" "z \<notin> set l" "z \<in> set a"
  shows "\<exists>a'. a = l @ z # a' \<and> r = a' @ b"
proof -
  obtain ys zs where a: "a = ys @ z # zs" "z \<notin> set ys" using split_list_first [OF assms(3)] by blast
  have "takeWhile (\<lambda>x. x \<noteq> z) (a @ b) = l" using assms(1,2) by (simp add: takeWhile_append_char)
  then have "ys = l" using a by (simp add: takeWhile_append_char)
  with a assms(1) show ?thesis by simp
qed

lemma append_char_later:
  assumes "a @ b = l @ z # r" "z \<notin> set a"
  shows "\<exists>l'. l = a @ l' \<and> b = l' @ z # r"
  using assms by (auto simp: append_eq_append_conv2 append_eq_Cons_conv Cons_eq_append_conv)

lemma recv_line_stream:
  "\<lbrakk>stream c = l @ newline # r; newline \<notin> set l\<rbrakk> \<Longrightarrow>
   \<exists>c'. recv_line acc c = (Some (acc @ l), c') \<and> stream c' = r"
proof (induction acc c arbitrary: l rule: recv_line.induct)
  case (1 acc c)
  let ?p = "pending c"
  obtain b where b: "stream c = ?p @ b" by (simp add: stream_def)
  show ?case
  proof (cases "newline \<in> set ?p")
    case True
    with b "1.prems" obtain p' where p: "?p = l @ newline # p'" "r = p' @ b"
      using append_char_split [of ?p b l newline r] by auto
    then have "str_find ?p [newline] 0 = Some (length l)"
      using "1.prems"(2) by (simp add: str_find_0 search_char_append)
    moreover have "stream (c\<lparr>pending := drop (length l + 1) ?p\<rparr>) = r"
      using stream_drop [of "length l + 1" c] p "1.prems"(1) by simp
    ultimately show ?thesis
      using p by (simp add: recv_line.simps [of acc c] substr_def)
  next
    case False
    then have f: "str_find ?p [newline] 0 = None" by (simp add: str_find_0 search_char)
    from b "1.prems" False obtain l' where l: "l = ?p @ l'" "b = l' @ newline # r"
      using append_char_later [of ?p b l newline r] by auto
    show ?thesis
    proof (cases "Fill c")
      case (Pair t c')
      have t: "t"
      proof (rule ccontr)
        assume "\<not> t"
        then have "stream c = ?p" using Fill_False Pair by simp
        with b l show False by simp
      qed
      with Pair Fill_True [of c c'] b l have s: "stream c' = l' @ newline # r" by simp
      with "1.IH" [OF f] Pair t "1.prems"(2) l
      obtain c'' where "recv_line (acc @ ?p) c' = (Some ((acc @ ?p) @ l'), c'')" "stream c'' = r" by fastforce
      with Pair t f l show ?thesis by (simp add: recv_line.simps [of acc c])
    qed
  qed
qed

lemma recv_line_none: "newline \<notin> set (stream c) \<Longrightarrow> fst (recv_line acc c) = None"
proof (induction acc c rule: recv_line.induct)
  case (1 acc c)
  have f: "str_find (pending c) [newline] 0 = None"
    using 1(2) by (auto simp: str_find_0 search_char stream_def)
  show ?case
  proof (cases "Fill c")
    case (Pair t c')
    with 1 f Fill_True [of c c'] show ?thesis
      by (cases t) (auto simp: recv_line.simps [of acc c])
  qed
qed

lemma recv_exactly_stream:
  "n \<le> length (stream c) \<Longrightarrow>
   \<exists>c'. recv_exactly n out c = (Some (out @ take n (stream c)), c') \<and> stream c' = drop n (stream c)"
proof (induction n out c rule: recv_exactly.induct)
  case (1 n out c)
  show ?case
  proof (cases "n = 0")
    case True
    then show ?thesis by (simp add: recv_exactly.simps)
  next
    case n: False
    obtain t c1 where c1: "(if pending c = [] then Fill c else (True, c)) = (t, c1)" by fastforce
    have t: "t"
    proof (rule ccontr)
      assume nt: "\<not> t"
      with c1 have "Fill c = (False, c1)" "pending c = []" by (auto split: if_splits)
      with Fill_False [of c c1] n "1.prems" show False by simp
    qed
    have s1: "stream c1 = stream c"
      using c1 t Fill_True [of c c1] by (auto split: if_splits)
    let ?m = "min (length (pending c1)) n"
    let ?c2 = "c1\<lparr>pending := drop ?m (pending c1)\<rparr>"
    have s2: "stream ?c2 = drop ?m (stream c)" using stream_drop [of ?m c1] s1 by simp
    have tk: "take ?m (pending c1) = take ?m (stream c)" unfolding s1 [symmetric] by (simp add: stream_def)
    have le: "n - ?m \<le> length (stream ?c2)" using "1.prems" s2 by (simp add: diff_le_mono)
    obtain c3 where c3: "recv_exactly (n - ?m) (out @ take ?m (pending c1)) ?c2
        = (Some ((out @ take ?m (pending c1)) @ take (n - ?m) (stream ?c2)), c3)"
        "stream c3 = drop (n - ?m) (stream ?c2)"
      using "1.IH" [OF n c1 [symmetric], of ?m] t le by auto
    have e: "recv_exactly n out c = recv_exactly (n - ?m) (out @ take ?m (pending c1)) ?c2"
      using n c1 t by (simp add: recv_exactly.simps [of n out c] Let_def)
    have "take ?m (stream c) @ take (n - ?m) (drop ?m (stream c)) = take n (stream c)"
      by (metis le_add_diff_inverse min.cobounded2 take_add)
    then show ?thesis
      using c3 e by (simp add: s2 tk)
  qed
qed

interpretation lines: message_source stream RecvLine "\<lambda>l. l @ [newline]" "\<lambda>l. newline \<notin> set l"
  by unfold_locales (simp add: RecvLine_def recv_line_stream [where acc = "[]", simplified])

interpretation exact: message_source stream "RecvExactly n" "\<lambda>s. s" "\<lambda>s. length s = n" for n
proof
  fix x r :: string and c
  assume "length x = n" "stream c = x @ r"
  then show "\<exists>c'. RecvExactly n c = (Some x, c') \<and> stream c' = r"
    using recv_exactly_stream [of n c "[]"] by (auto simp: RecvExactly_def)
qed

lemma SendAll_frame:
  "SendAll data c = (b, c') \<Longrightarrow> stream c' = stream c \<and> valid_fd c' = valid_fd c \<and> pending c' = pending c
     \<and> (\<exists>n \<le> length data. sent c' = sent c @ take n data \<and> (b \<longrightarrow> n = length data))"
proof (induction data c rule: SendAll.induct)
  case (1 data c)
  show ?case
  proof (cases "data = [] \<or> tx c = [] \<or> \<not> valid_fd c \<or> hd (tx c) = 0")
    case True
    then show ?thesis
      using "1.prems" by (subst (asm) SendAll.simps)
        (auto simp: stream_def intro: exI [of _ 0] split: if_splits list.splits)
  next
    case False
    then obtain k ks where k: "tx c = k # ks" "k \<noteq> 0" "valid_fd c" "data \<noteq> []" by (cases "tx c") auto
    let ?c1 = "c\<lparr>tx := ks, sent := sent c @ take k data\<rparr>"
    have r: "SendAll (drop k data) ?c1 = (b, c')"
      using "1.prems" k by (subst (asm) SendAll.simps) simp
    obtain n where n: "n \<le> length (drop k data)" "sent c' = sent ?c1 @ take n (drop k data)"
        "b \<longrightarrow> n = length (drop k data)" "stream c' = stream ?c1" "valid_fd c'" "pending c' = pending c"
      using "1.IH" [OF k(4,1)] k r by auto
    have s: "stream ?c1 = stream c" by (simp add: stream_def)
    have "sent c' = sent c @ take (min k (length data) + n) data"
      using n(2) by (simp add: take_add min_def)
    moreover have "min k (length data) + n \<le> length data" using n(1) by simp
    ultimately show ?thesis
      using n s k(3) by (intro conjI exI [of _ "min k (length data) + n"]) auto
  qed
qed

lemma SendAll_ok:
  assumes "valid_fd c" "\<forall>k \<in> set (tx c). 0 < k" "length data \<le> length (tx c)"
  shows "\<exists>c'. SendAll data c = (True, c') \<and> (\<forall>k \<in> set (tx c'). 0 < k)
    \<and> length (tx c) - length data \<le> length (tx c')"
  using assms
proof (induction data c rule: SendAll.induct)
  case (1 data c)
  show ?case
  proof (cases "data = []")
    case True
    with 1 show ?thesis by (simp add: SendAll.simps)
  next
    case False
    with 1 obtain k ks where k: "tx c = k # ks" "0 < k" by (cases "tx c") auto
    then have "length (drop k data) \<le> length ks" using "1.prems"(3) False by (cases data) auto
    with 1(1) [OF False k(1)] 1(2-) k
    obtain c' where "SendAll (drop k data) (c\<lparr>tx := ks, sent := sent c @ take k data\<rparr>) = (True, c')"
      "\<forall>k \<in> set (tx c'). 0 < k" "length ks - length (drop k data) \<le> length (tx c')" by auto
    moreover have "length (tx c) - length data \<le> length ks - length (drop k data)"
      using k False by (cases data) auto
    ultimately show ?thesis using k False "1.prems"(1) by (subst SendAll.simps) auto
  qed
qed

lemma le32_bytes:
  "le32 n = [char_of (n mod 256), char_of (n div 256 mod 256), char_of (n div 65536 mod 256),
     char_of (n div 16777216 mod 256)]"
  by (simp add: le32_def kHeader_def upt_conv_Cons)

lemma length_le32 [simp]: "length (le32 n) = kHeader"
  by (simp add: le32_def)

lemma of_le32_le32: "n < 2 ^ 32 \<Longrightarrow> of_le32 (le32 n) = n"
proof -
  assume "n < 2 ^ 32"
  then have t: "n div 16777216 mod 256 = n div 16777216" by simp
  have d: "n div 16777216 = n div 65536 div 256" "n div 65536 = n div 256 div 256"
    by (simp_all flip: div_mult2_eq)
  have "n div 65536 mod 256 + 256 * (n div 16777216) = n div 65536" unfolding d(1) by (rule mod_mult_div_eq)
  moreover have "n div 256 mod 256 + 256 * (n div 65536) = n div 256" unfolding d(2) by (rule mod_mult_div_eq)
  ultimately have "n mod 256 + 256 * (n div 256 mod 256 + 256 * (n div 65536 mod 256 + 256 * (n div 16777216))) = n"
    by (simp only: mod_mult_div_eq)
  with t show ?thesis by (simp add: of_le32_def le32_bytes)
qed

section \<open>Answers of the daemon\<close>

text \<open>A value the cache can hold: zstd undoes itself on it, and the sizes fit the header and the bound.\<close>

definition storable :: "(string \<Rightarrow> string option) \<Rightarrow> (string \<Rightarrow> nat \<Rightarrow> string option) \<Rightarrow> string \<Rightarrow> bool" where
  "storable zc zd v \<longleftrightarrow>
     (case zc v of
        None \<Rightarrow> False
      | Some w \<Rightarrow> zd w (length v) = Some v \<and> length v < 2 ^ 32 \<and> kHeader + length w \<le> kMaxObjectSize)"

text \<open>What the daemon answers to a \<^verbatim>\<open>GET\<close>: the bytes once \<^verbatim>\<open>PUT\<close>, or \<^verbatim>\<open>MISS\<close>.\<close>

fun answer :: "(string \<Rightarrow> string option) \<Rightarrow> string option \<Rightarrow> string" where
  "answer zc None = ''MISS'' @ [newline]"
| "answer zc (Some v) = ''OK '' @ to_decimal (length (Compress zc v)) @ [newline] @ Compress zc v"

fun answer_ok :: "(string \<Rightarrow> string option) \<Rightarrow> (string \<Rightarrow> nat \<Rightarrow> string option) \<Rightarrow> string option \<Rightarrow> bool" where
  "answer_ok zc zd None = True"
| "answer_ok zc zd (Some v) = storable zc zd v"

lemma Decompress_Compress: "storable zc zd v \<Longrightarrow> Decompress zd (Compress zc v) = Some v"
  by (auto simp: storable_def Compress_def Decompress_def of_le32_le32 Let_def split: option.splits)

lemma Compress_length: "storable zc zd v \<Longrightarrow> length (Compress zc v) \<le> kMaxObjectSize \<and> Compress zc v \<noteq> []"
  by (auto simp: storable_def Compress_def le32_bytes kHeader_def split: option.splits)

lemma newline_not_digit: "newline \<notin> set (to_decimal n)"
  by (rule to_decimal_not_in) simp

lemma Fill_frame: "tx (snd (Fill c)) = tx c \<and> valid_fd (snd (Fill c)) = valid_fd c \<and> sent (snd (Fill c)) = sent c"
  by (auto simp: Fill_def split: list.splits)

lemma recv_line_frame:
  "tx (snd (recv_line acc c)) = tx c \<and> valid_fd (snd (recv_line acc c)) = valid_fd c \<and> sent (snd (recv_line acc c)) = sent c"
proof (induction acc c rule: recv_line.induct)
  case (1 acc c)
  show ?case
    using 1 Fill_frame [of c]
    by (subst (1 2 3) recv_line.simps) (auto split: option.splits prod.splits bool.splits)
qed

lemma recv_exactly_frame:
  "tx (snd (recv_exactly n out c)) = tx c \<and> valid_fd (snd (recv_exactly n out c)) = valid_fd c"
proof (induction n out c rule: recv_exactly.induct)
  case (1 n out c)
  show ?case
    using 1 Fill_frame [of c]
    by (subst (1 2) recv_exactly.simps) (auto simp: Let_def split: if_splits prod.splits bool.splits)
qed

lemma RecvValue_answer:
  assumes "answer_ok zc zd v" "stream c = answer zc v @ r"
  shows "\<exists>c'. RecvValue zd c = (v, c') \<and> stream c' = r \<and> tx c' = tx c \<and> valid_fd c' = valid_fd c"
proof (cases v)
  case None
  obtain c1 where "RecvLine c = (Some ''MISS'', c1)" "stream c1 = r"
    using lines.recv_enc [of "''MISS''" c r] assms(2) None by auto
  then show ?thesis using None recv_line_frame [of "[]" c] by (simp add: RecvValue_def RecvLine_def)
next
  case (Some x)
  let ?w = "Compress zc x"
  obtain c1 where c1: "RecvLine c = (Some (''OK '' @ to_decimal (length ?w)), c1)" "stream c1 = ?w @ r"
    using lines.recv_enc [of "''OK '' @ to_decimal (length ?w)" c "?w @ r"] assms(2) Some newline_not_digit
    by auto
  obtain c2 where c2: "RecvExactly (length ?w) c1 = (Some ?w, c2)" "stream c2 = r"
    using exact.recv_enc [of ?w "length ?w" c1 r] c1(2) by auto
  have w: "length ?w \<le> kMaxObjectSize" "Decompress zd ?w = Some x"
    using assms(1) Some Compress_length Decompress_Compress by auto
  then have "length ?w < 2 ^ 64" by (simp add: kMaxObjectSize_def)
  then have p: "ParseUint (to_decimal (length ?w)) 10 = Some (length ?w)" by (simp add: ParseUint_to_decimal)
  have "tx c2 = tx c" "valid_fd c2 = valid_fd c"
    using recv_line_frame [of "[]" c] recv_exactly_frame [of "length ?w" "[]" c1] c1(1) c2(1)
    by (simp_all add: RecvLine_def RecvExactly_def)
  then show ?thesis
    using c1(1) c2 w p Some by (simp add: RecvValue_def)
qed

interpretation answers: message_source stream "\<lambda>c. map_prod Some id (RecvValue zd c)" "answer zc" "answer_ok zc zd"
  for zc zd
  by unfold_locales (use RecvValue_answer in fastforce)

lemma read_n_recv_each: "read_n (\<lambda>c. map_prod Some id (f c)) n c = map_prod Some id (recv_each f n c)"
  by (induction n arbitrary: c) (auto simp: map_prod_def split: prod.splits)

lemma recv_each_answers:
  assumes "\<forall>v \<in> set vs. answer_ok zc zd v" "stream c = concat (map (answer zc) vs) @ r"
  shows "\<exists>c'. recv_each (RecvValue zd) (length vs) c = (vs, c') \<and> stream c' = r"
proof -
  obtain c' where "map_prod Some id (recv_each (RecvValue zd) (length vs) c) = (Some vs, c')" "stream c' = r"
    using answers.read_n_enc [OF assms] by (auto simp: read_n_recv_each)
  then show ?thesis by (cases "recv_each (RecvValue zd) (length vs) c") auto
qed

text \<open>Enough calls of \<^verbatim>\<open>send\<close> that take something.\<close>

definition can_send :: "nat \<Rightarrow> client \<Rightarrow> bool" where
  "can_send n c \<longleftrightarrow> valid_fd c \<and> (\<forall>k \<in> set (tx c). 0 < k) \<and> n \<le> length (tx c)"

lemma SendAll_can:
  assumes "can_send (length data + n) c"
  shows "\<exists>c'. SendAll data c = (True, c') \<and> can_send n c' \<and> stream c' = stream c \<and> sent c' = sent c @ data"
proof -
  obtain c' where c': "SendAll data c = (True, c')" "\<forall>k \<in> set (tx c'). 0 < k" "length (tx c) - length data \<le> length (tx c')"
    using SendAll_ok [of c data] assms by (auto simp: can_send_def)
  then show ?thesis
    using SendAll_frame [OF c'(1)] assms by (auto simp: can_send_def)
qed

lemma RecvValue_can:
  assumes "answer_ok zc zd v" "stream c = answer zc v @ r" "can_send n c"
  shows "\<exists>c'. RecvValue zd c = (v, c') \<and> stream c' = r \<and> can_send n c'"
  using RecvValue_answer [OF assms(1,2)] assms(3) by (auto simp: can_send_def)

lemma recv_each_can:
  "\<lbrakk>\<forall>v \<in> set vs. answer_ok zc zd v; stream c = concat (map (answer zc) vs) @ r; can_send n c\<rbrakk> \<Longrightarrow>
   \<exists>c'. recv_each (RecvValue zd) (length vs) c = (vs, c') \<and> stream c' = r \<and> can_send n c'"
proof (induction vs arbitrary: c)
  case (Cons v vs)
  obtain c1 where c1: "RecvValue zd c = (v, c1)" "stream c1 = concat (map (answer zc) vs) @ r" "can_send n c1"
    using RecvValue_can [of zc zd v c "concat (map (answer zc) vs) @ r" n] Cons.prems by auto
  with Cons.IH [OF _ c1(2,3)] Cons.prems(1) show ?case by auto
qed simp

text \<open>A daemon that answers a request leaves the connection as good as before.\<close>

lemma Get_can:
  assumes "answer_ok zc zd v" "stream c = answer zc v @ r" "can_send (length (''GET '' @ key @ [newline]) + n) c"
  shows "\<exists>c'. Get zd key c = (v, c') \<and> stream c' = r \<and> can_send n c'"
proof -
  obtain c1 where c1: "SendAll (''GET '' @ key @ [newline]) c = (True, c1)" "can_send n c1" "stream c1 = stream c"
    using SendAll_can [OF assms(3)] by blast
  with RecvValue_can [OF assms(1), of c1 r n] assms show ?thesis by (auto simp: Get_def can_send_def)
qed

lemma GetMany_can:
  assumes "\<forall>v \<in> set vs. answer_ok zc zd v" "stream c = concat (map (answer zc) vs) @ r" "length vs = length keys"
    and "can_send (length (concat (map (\<lambda>key. ''GET '' @ key @ [newline]) keys)) + n) c"
  shows "\<exists>c'. GetMany zd keys c = (vs, c') \<and> stream c' = r \<and> can_send n c'"
proof (cases "keys = []")
  case True
  with assms show ?thesis by (auto simp: GetMany_def)
next
  case False
  obtain c1 where c1: "SendAll (concat (map (\<lambda>key. ''GET '' @ key @ [newline]) keys)) c = (True, c1)"
    "can_send n c1" "stream c1 = stream c"
    using SendAll_can [OF assms(4)] by blast
  then obtain c2 where "recv_each (RecvValue zd) (length vs) c1 = (vs, c2)" "stream c2 = r" "can_send n c2"
    using recv_each_can [OF assms(1), of c1 r n] assms(2) by auto
  with c1 False assms(3,4) show ?thesis by (simp add: GetMany_def can_send_def Let_def)
qed

section \<open>Properties\<close>

text \<open>C29. Pipelined answers come back in order, however the socket cuts them: when the daemon answers
  each \<^verbatim>\<open>GET\<close> with the bytes once put or with \<^verbatim>\<open>MISS\<close>, \<^verbatim>\<open>GetMany\<close> returns the values put and
  leaves the stream behind the last answer.\<close>

theorem get_many_in_order:
  assumes "can_send (length (concat (map (\<lambda>key. ''GET '' @ key @ [newline]) keys))) c"
    and "length vs = length keys" and "\<forall>v \<in> set vs. answer_ok zc zd v"
    and "stream c = concat (map (answer zc) vs) @ r"
  shows "fst (GetMany zd keys c) = vs \<and> stream (snd (GetMany zd keys c)) = r"
  using GetMany_can [OF assms(3,4,2), of 0] assms(1) by auto

text \<open>A pretend zstd for examples: it stores.\<close>

definition store_zc :: "string \<Rightarrow> string option" where
  "store_zc v = Some v"

definition store_zd :: "string \<Rightarrow> nat \<Rightarrow> string option" where
  "store_zd w cap = (if length w \<le> cap then Some w else None)"

definition example_client :: "string \<Rightarrow> nat \<Rightarrow> client" where
  "example_client s n = \<lparr>valid_fd = True, pending = [], rx = map (\<lambda>b. [b]) s, tx = replicate n 3, sent = []\<rparr>"

lemma stream_example: "stream (example_client s n) = s"
proof -
  have "concat (takeWhile (\<lambda>ch. ch \<noteq> []) (map (\<lambda>b. [b]) s)) = s" by (induction s) auto
  then show ?thesis by (simp add: stream_def example_client_def)
qed

lemma can_send_example: "m \<le> n \<Longrightarrow> can_send m (example_client s n)"
  by (simp add: can_send_def example_client_def)

lemma storable_example: "length v < 1000 \<Longrightarrow> storable store_zc store_zd v"
  by (simp add: storable_def store_zc_def store_zd_def kHeader_def kMaxObjectSize_def)

theorem get_many_in_order_witness:
  "fst (GetMany store_zd [''a'', ''b''] (example_client (concat (map (answer store_zc) [Some ''xyz'', None])) 20))
     = [Some ''xyz'', None]"
  by (rule get_many_in_order [where zc = store_zc and r = "[]", THEN conjunct1])
     (simp_all add: can_send_example storable_example stream_example)

lemma Put_sends:
  assumes "storable zc zd v"
    and "can_send (length (''PUT '' @ key @ '' '' @ to_decimal (length (Compress zc v)) @ [newline]) + length (Compress zc v)) c"
  shows "sent (Put zc key v c) = sent c @ ''PUT '' @ key @ '' '' @ to_decimal (length (Compress zc v)) @ [newline] @ Compress zc v"
proof -
  let ?wire = "Compress zc v"
  let ?h = "''PUT '' @ key @ '' '' @ to_decimal (length ?wire) @ [newline]"
  obtain c1 where c1: "SendAll ?h c = (True, c1)" "can_send (length ?wire) c1" "sent c1 = sent c @ ?h"
    using SendAll_can [OF assms(2)] by blast
  obtain c2 where c2: "SendAll ?wire c1 = (True, c2)" "sent c2 = sent c1 @ ?wire"
    using SendAll_can [of ?wire 0 c1] c1(2) by auto
  have "valid_fd c" "?wire \<noteq> []"
    using assms(2) Compress_length [OF assms(1)] by (auto simp: can_send_def)
  then show ?thesis
    using c1 c2 recv_line_frame [of "[]" c2] by (simp add: Put_def send_put_def RecvLine_def)
qed

lemma Get_answered:
  assumes "storable zc zd v" "can_send (length (''GET '' @ key @ [newline])) c"
    and "stream c = ''OK '' @ to_decimal (length (Compress zc v)) @ [newline] @ Compress zc v @ r"
  shows "fst (Get zd key c) = Some v \<and> stream (snd (Get zd key c)) = r"
proof -
  obtain c3 where c3: "SendAll (''GET '' @ key @ [newline]) c = (True, c3)" "stream c3 = stream c"
    using SendAll_can [of "''GET '' @ key @ [newline]" 0 c] assms(2) by auto
  obtain c4 where "RecvValue zd c3 = (Some v, c4)" "stream c4 = r"
    using RecvValue_answer [of zc zd "Some v" c3 r] assms(1,3) c3(2) by auto
  then show ?thesis
    using c3(1) assms(2) by (simp add: Get_def can_send_def)
qed

text \<open>What is put can be got back: \<^verbatim>\<open>Put\<close> sends the key, the length and the compressed value, and a
  \<^verbatim>\<open>Get\<close> that is answered with these bytes returns the value.\<close>

lemma put_get_round_trip:
  fixes zc :: "string \<Rightarrow> string option" and v :: string
  defines "wire \<equiv> Compress zc v"
  assumes "storable zc zd v"
    and "can_send (length (''PUT '' @ key @ '' '' @ to_decimal (length wire) @ [newline]) + length wire) c"
    and "can_send (length (''GET '' @ key @ [newline])) c'"
    and "stream c' = ''OK '' @ to_decimal (length wire) @ [newline] @ wire @ r"
  shows "sent (Put zc key v c) = sent c @ ''PUT '' @ key @ '' '' @ to_decimal (length wire) @ [newline] @ wire
    \<and> fst (Get zd key c') = Some v \<and> stream (snd (Get zd key c')) = r"
  using assms by (simp add: Put_sends Get_answered)

theorem put_get_round_trip_witness:
  "fst (Get store_zd ''k'' (example_client (''OK '' @ to_decimal (length (Compress store_zc ''xyz'')) @ [newline]
       @ Compress store_zc ''xyz'') 40)) = Some ''xyz''"
proof -
  have w: "length (Compress store_zc ''xyz'') = 7"
    by (simp add: Compress_def store_zc_def kHeader_def)
  have d: "length (to_decimal 7) = 1" by (simp add: to_base.simps [of 10 7])
  show ?thesis
    by (rule put_get_round_trip [where c = "example_client [] 40" and zc = store_zc and r = "[]", THEN conjunct2, THEN conjunct1])
       (simp_all add: storable_example stream_example can_send_example w d)
qed

text \<open>After a length it refuses the client drops the connection but not the bytes it has buffered: the
  next answer of the same \<^verbatim>\<open>GetMany\<close> is read from them.\<close>

lemma get_many_reads_on_after_bad_length:
  assumes "storable zc zd v" "pending c = ''OK x'' @ [newline] @ answer zc (Some v)"
  shows "fst (recv_each (RecvValue zd) 2 c) = [None, Some v]"
proof -
  have f: "str_find (pending c) [newline] 0 = Some 4"
    using search_char_append [of newline "''OK x''"] by (simp add: assms(2) str_find_0)
  have "ParseUint ''x'' 10 = None" by code_simp
  then obtain c1 where c1: "RecvValue zd c = (None, c1)" "valid_fd c1 = False" "pending c1 = answer zc (Some v)"
    using f by (simp add: RecvValue_def RecvLine_def recv_line.simps [of _ c] substr_def assms(2) eval_nat_numeral)
  then have "stream c1 = answer zc (Some v) @ []" by (simp add: stream_def)
  with RecvValue_answer [of zc zd "Some v" c1 "[]"] assms(1)
  obtain c2 where "RecvValue zd c1 = (Some v, c2)" by auto
  with c1(1) show ?thesis by (simp add: numeral_2_eq_2)
qed

end
