(* ===== verification/Jig_Manifest.thy ===== *)
theory Jig_Manifest
  imports Cache_Client
begin

text \<open>
  \<^verbatim>\<open>pkgs/ji/jig/src/keys.h\<close> and \<^verbatim>\<open>pkgs/ji/jig/src/manifest.{h,cc}\<close>: the two-key scheme.  A request
  key names a manifest, the list of the inputs of an earlier compile with their identities and of the
  paths it looked up in vain; a manifest that still holds gives the result key under which the
  artifacts are.  The file system is a disk for contents and a predicate \<open>ex\<close> for
  \<^verbatim>\<open>std::filesystem::exists\<close>; the store and the client are passed along.
\<close>

section \<open>Keys\<close>

datatype tool = kCc | kRustc

datatype outcome =
    kHit | kHitFail | kMissStored | kMissStoredFail | kMissFail | kMissUnstored
  | kPlainCompile | kPlainLink | kPlainNoSource | kPlainQuery | kPlainNoSocket

datatype language = kC | kCxx | kFortran

datatype stderr_mode = kInherit | kCapture | kCaptureStdout

definition RequestKey :: "tool \<Rightarrow> string \<Rightarrow> string" where
  "RequestKey t digest = (if t = kRustc then ''rs/'' else []) @ digest"

definition ResultKey :: "string \<Rightarrow> string" where
  "ResultKey digest = digest"

definition slot_Manifest :: "string \<Rightarrow> string" where "slot_Manifest key = ''m/'' @ key"
definition slot_Object :: "string \<Rightarrow> string" where "slot_Object key = ''o/'' @ key"
definition slot_Stderr :: "string \<Rightarrow> string" where "slot_Stderr key = ''e/'' @ key"
definition slot_Depfile :: "string \<Rightarrow> string" where "slot_Depfile key = ''d/'' @ key"
definition slot_ExitStatus :: "string \<Rightarrow> string" where "slot_ExitStatus key = ''r/'' @ key"
definition slot_GoAction :: "string \<Rightarrow> string" where "slot_GoAction action_hex = ''go/a/'' @ action_hex"
definition slot_GoOutput :: "string \<Rightarrow> string" where "slot_GoOutput output_hex = ''go/o/'' @ output_hex"

fun OutcomeName :: "outcome \<Rightarrow> string" where
  "OutcomeName kHit = ''cached''"
| "OutcomeName kHitFail = ''cached-error''"
| "OutcomeName kMissStored = ''compiled''"
| "OutcomeName kMissStoredFail = ''compiled-error''"
| "OutcomeName kMissFail = ''failed''"
| "OutcomeName kMissUnstored = ''compiled-unstored''"
| "OutcomeName kPlainCompile = ''uncacheable''"
| "OutcomeName kPlainLink = ''linked''"
| "OutcomeName kPlainNoSource = ''uncacheable-nosrc''"
| "OutcomeName kPlainQuery = ''query''"
| "OutcomeName kPlainNoSocket = ''no-daemon''"

section \<open>Depfiles\<close>

definition dep_flush :: "string \<Rightarrow> bool \<Rightarrow> string list \<Rightarrow> bool \<times> string list" where
  "dep_flush token after_colon deps =
     (if token = [] then (after_colon, deps)
      else if after_colon then (after_colon, deps @ [token])
      else if last token = CHR '':'' then (True, deps)
      else (after_colon, deps))"

fun dep_loop :: "string \<Rightarrow> string \<Rightarrow> bool \<Rightarrow> string list \<Rightarrow> string list" where
  "dep_loop [] token after_colon deps = snd (dep_flush token after_colon deps)"
| "dep_loop (cur # rest) token after_colon deps =
     (let nxt = (if rest \<noteq> [] then hd rest else newline) in
      if cur = backslash \<and> nxt = newline then dep_loop (tl rest) token after_colon deps
      else if cur = backslash \<and> nxt = CHR '' '' then dep_loop (tl rest) (token @ '' '') after_colon deps
      else if cur = newline then
        (case dep_flush token after_colon deps of
           (after_colon', deps') \<Rightarrow> if after_colon' then deps' else dep_loop rest [] after_colon' deps')
      else if cur = CHR '' '' \<or> cur = tab then
        (case dep_flush token after_colon deps of (after_colon', deps') \<Rightarrow> dep_loop rest [] after_colon' deps')
      else if cur = CHR '':'' \<and> \<not> after_colon \<and> (nxt = CHR '' '' \<or> nxt = newline \<or> nxt = backslash)
      then dep_loop rest [] True deps
      else dep_loop rest (token @ [cur]) after_colon deps)"

definition ParseDepfile :: "string \<Rightarrow> string list" where
  "ParseDepfile text = dep_loop text [] False []"

section \<open>Manifests\<close>

record entry =
  entry_path :: string
  entry_line :: string
  entry_tab :: "nat option"

definition value_or_empty :: "string option \<Rightarrow> string" where
  "value_or_empty x = (case x of None \<Rightarrow> [] | Some s \<Rightarrow> s)"

definition parse_line :: "store \<Rightarrow> string \<Rightarrow> entry list" where
  "parse_line st line =
     (if starts_with line ''!'' then
        [\<lparr>entry_path = value_or_empty (Resolve st (drop 1 line)), entry_line = line, entry_tab = None\<rparr>]
      else case str_find line [tab] 0 of
        Some t \<Rightarrow>
          [\<lparr>entry_path = value_or_empty (Resolve st (substr line 0 t)), entry_line = line, entry_tab = Some t\<rparr>]
      | None \<Rightarrow> [])"

definition ParseManifest :: "store \<Rightarrow> string \<Rightarrow> entry list" where
  "ParseManifest st str = concat (map (parse_line st) (Split str newline False))"

definition PrefetchIdentities :: "string list \<Rightarrow> store \<times> client \<Rightarrow> store \<times> client" where
  "PrefetchIdentities paths sc =
     (case sc of (st, c) \<Rightarrow>
        let ask = filter (DaemonMayIdentify st) paths in
        case Identities ask c of (ids, c') \<Rightarrow>
          (foldl (\<lambda>st (path, i). if i \<noteq> [] then RememberIdentity st path i else st) st (zip ask ids), c'))"

definition input_lines :: "(string \<Rightarrow> string) \<Rightarrow> store \<Rightarrow> disk \<Rightarrow> string \<Rightarrow> string list \<Rightarrow> string list" where
  "input_lines b3 st d primary_source inputs =
     concat (map (\<lambda>path.
        if path = primary_source then []
        else case InputId b3 st d path of
          None \<Rightarrow> []
        | Some identity \<Rightarrow> [Key st path @ [tab] @ identity]) inputs)"

fun absent_lines :: "store \<Rightarrow> (string \<Rightarrow> bool) \<Rightarrow> string list \<Rightarrow> string list \<Rightarrow> string list" where
  "absent_lines st ex seen [] = []"
| "absent_lines st ex seen (path # paths) =
     (if path = [] \<or> IsStorePath st path \<or> ex path then absent_lines st ex seen paths
      else (let key = ''!'' @ Key st path in
            if key \<in> set seen then absent_lines st ex seen paths
            else key # absent_lines st ex (key # seen) paths))"

record manifest =
  manifest_text :: string
  result_key :: string

definition manifest_of :: "(string \<Rightarrow> string) \<Rightarrow> string \<Rightarrow> string list \<Rightarrow> manifest" where
  "manifest_of b3 request_key lines =
     \<lparr>manifest_text = concat (map (\<lambda>line. line @ [newline]) lines),
      result_key = ResultKey (Hasher_Finish b3 (hash_fields (Hasher_Field [] request_key) lines))\<rparr>"

definition BuildManifest :: "(string \<Rightarrow> string) \<Rightarrow> disk \<Rightarrow> (string \<Rightarrow> bool) \<Rightarrow> string \<Rightarrow> string list \<Rightarrow> string
    \<Rightarrow> string list \<Rightarrow> store \<times> client \<Rightarrow> manifest \<times> store \<times> client" where
  "BuildManifest b3 d ex request_key inputs primary_source absent sc =
     (case PrefetchIdentities inputs sc of (st, c) \<Rightarrow>
        (manifest_of b3 request_key (input_lines b3 st d primary_source inputs @ absent_lines st ex [] absent), st, c))"

fun validate_entries :: "(string \<Rightarrow> string) \<Rightarrow> store \<Rightarrow> disk \<Rightarrow> (string \<Rightarrow> bool) \<Rightarrow> string \<Rightarrow> entry list
    \<Rightarrow> string + string" where
  "validate_entries b3 st d ex hasher [] = Inr (ResultKey (Hasher_Finish b3 hasher))"
| "validate_entries b3 st d ex hasher (entry # entries) =
     (case entry_tab entry of
        None \<Rightarrow>
          if ex (entry_path entry) then Inl (''appeared:'' @ drop 1 (entry_line entry))
          else validate_entries b3 st d ex (Hasher_Field hasher (entry_line entry)) entries
      | Some t \<Rightarrow>
          if InputId b3 st d (entry_path entry) \<noteq> Some (drop (t + 1) (entry_line entry))
          then Inl (''inputs-changed:'' @ substr (entry_line entry) 0 t)
          else validate_entries b3 st d ex (Hasher_Field hasher (entry_line entry)) entries)"

definition manifest_paths :: "entry list \<Rightarrow> string list" where
  "manifest_paths entries = map entry_path (filter (\<lambda>e. entry_tab e \<noteq> None) entries)"

definition ValidateManifest :: "(string \<Rightarrow> string) \<Rightarrow> disk \<Rightarrow> (string \<Rightarrow> bool) \<Rightarrow> string \<Rightarrow> string
    \<Rightarrow> store \<times> client \<Rightarrow> (string + string) \<times> store \<times> client" where
  "ValidateManifest b3 d ex request_key str sc =
     (let entries = ParseManifest (fst sc) str
      in case PrefetchIdentities (manifest_paths entries) sc of (st, c) \<Rightarrow>
           (validate_entries b3 st d ex (Hasher_Field [] request_key) entries, st, c))"

definition FindResult :: "(string \<Rightarrow> string) \<Rightarrow> (string \<Rightarrow> nat \<Rightarrow> string option) \<Rightarrow> disk \<Rightarrow> (string \<Rightarrow> bool) \<Rightarrow> string
    \<Rightarrow> store \<times> client \<Rightarrow> (string + string) \<times> store \<times> client" where
  "FindResult b3 zd d ex request_key sc =
     (case Get zd (slot_Manifest request_key) (snd sc) of
        (None, c) \<Rightarrow> (Inl ''new-key'', fst sc, c)
      | (Some str, c) \<Rightarrow> ValidateManifest b3 d ex request_key str (fst sc, c))"

section \<open>Validation\<close>

definition entry_holds :: "(string \<Rightarrow> string) \<Rightarrow> store \<Rightarrow> disk \<Rightarrow> (string \<Rightarrow> bool) \<Rightarrow> entry \<Rightarrow> bool" where
  "entry_holds b3 st d ex e =
     (case entry_tab e of
        None \<Rightarrow> \<not> ex (entry_path e)
      | Some t \<Rightarrow> InputId b3 st d (entry_path e) = Some (drop (t + 1) (entry_line e)))"

definition complaint :: "entry \<Rightarrow> string" where
  "complaint e =
     (case entry_tab e of
        None \<Rightarrow> ''appeared:'' @ drop 1 (entry_line e)
      | Some t \<Rightarrow> ''inputs-changed:'' @ take t (entry_line e))"

lemma validate_entries_cases:
  "validate_entries b3 st d ex h es =
     (case find (\<lambda>e. \<not> entry_holds b3 st d ex e) es of
        None \<Rightarrow> Inr (ResultKey (Hasher_Finish b3 (hash_fields h (map entry_line es))))
      | Some e \<Rightarrow> Inl (complaint e))"
  by (induction es arbitrary: h)
     (auto simp: entry_holds_def complaint_def substr_def split: option.splits)

text \<open>Asking the daemon changes nothing but the remembered identities.\<close>

definition same_store :: "store \<Rightarrow> store \<Rightarrow> bool" where
  "same_store st st' \<longleftrightarrow> store_dir st' = store_dir st \<and> by_content st' = by_content st \<and> out_path st' = out_path st
     \<and> out_hash st' = out_hash st \<and> masked_to_real st' = masked_to_real st"

lemma remember_all_same:
  "same_store st (foldl (\<lambda>st (path, i). if i \<noteq> [] then RememberIdentity st path i else st) st xs)"
proof (induction xs arbitrary: st)
  case (Cons x xs)
  from Cons.IH [of "RememberIdentity st (fst x) (snd x)"] Cons.IH [of st] show ?case
    by (cases x) (auto simp: same_store_def RememberIdentity_def)
qed (simp add: same_store_def)

lemma Prefetch_same: "PrefetchIdentities paths (st, c) = (st', c') \<Longrightarrow> same_store st st'"
  using remember_all_same by (auto simp: PrefetchIdentities_def Let_def split: prod.splits)

lemma same_store_Key: "same_store st st' \<Longrightarrow> Key st' = Key st"
  by (auto simp: same_store_def Key_def MaskHashes_def)

lemma same_store_IsStorePath: "same_store st st' \<Longrightarrow> IsStorePath st' = IsStorePath st"
  by (auto simp: same_store_def IsStorePath_def)

lemma Prefetch_offline:
  "\<not> valid_fd c \<Longrightarrow> PrefetchIdentities paths (st, c) = (st, c)"
  by (simp add: PrefetchIdentities_def Identities_def Let_def)

section \<open>Lines\<close>

lemma split_char_lines:
  "\<forall>l \<in> set ls. sep \<notin> set l \<Longrightarrow> split_char sep (concat (map (\<lambda>l. l @ [sep]) ls)) = ls @ [[]]"
  by (induction ls) (auto simp: split_char_append)

lemma Split_lines:
  assumes "\<forall>l \<in> set ls. sep \<notin> set l \<and> l \<noteq> []"
  shows "Split (concat (map (\<lambda>l. l @ [sep]) ls)) sep False = ls"
  using assms by (simp add: Split_eq split_char_lines filter_id_conv)

text \<open>A path whose key can be written in a manifest and read back.\<close>

definition key_readable :: "store \<Rightarrow> string \<Rightarrow> bool" where
  "key_readable st p \<longleftrightarrow> Resolve st (Key st p) = Some p \<and> newline \<notin> set (Key st p)"

lemma parse_input_line:
  assumes "key_readable st p" "tab \<notin> set (Key st p)" "\<not> starts_with (Key st p) ''!''" "Key st p \<noteq> []"
  shows "parse_line st (Key st p @ [tab] @ i) =
    [\<lparr>entry_path = p, entry_line = Key st p @ [tab] @ i, entry_tab = Some (length (Key st p))\<rparr>]"
proof -
  have "\<not> starts_with (Key st p @ [tab] @ i) ''!''" using assms(3,4) by (cases "Key st p") auto
  moreover have "str_find (Key st p @ tab # i) [tab] 0 = Some (length (Key st p))"
    using assms(2) by (simp add: str_find_0 search_char_append)
  ultimately show ?thesis
    using assms(1) by (simp add: parse_line_def key_readable_def value_or_empty_def substr_def)
qed

lemma parse_absent_line:
  "key_readable st p \<Longrightarrow>
   parse_line st (''!'' @ Key st p) = [\<lparr>entry_path = p, entry_line = ''!'' @ Key st p, entry_tab = None\<rparr>]"
  by (simp add: parse_line_def key_readable_def value_or_empty_def)

lemma absent_line_cases:
  "l \<in> set (absent_lines st ex seen ps) \<Longrightarrow> \<exists>p \<in> set ps. \<not> ex p \<and> p \<noteq> [] \<and> \<not> IsStorePath st p \<and> l = ''!'' @ Key st p"
  by (induction st ex seen ps rule: absent_lines.induct) (auto simp: Let_def split: if_splits)

lemma absent_lines_same:
  "same_store st st' \<Longrightarrow> absent_lines st' ex seen ps = absent_lines st ex seen ps"
  by (induction st ex seen ps rule: absent_lines.induct)
     (auto simp: Let_def same_store_Key same_store_IsStorePath)

lemma input_line_cases:
  "l \<in> set (input_lines b3 st d q ps) \<Longrightarrow>
   \<exists>p \<in> set ps. \<exists>i. p \<noteq> q \<and> InputId b3 st d p = Some i \<and> l = Key st p @ [tab] @ i"
  by (auto simp: input_lines_def split: if_splits option.splits)

lemma parse_lines_hold:
  assumes "\<forall>l \<in> set ls. \<exists>e. parse_line st l = [e] \<and> entry_line e = l \<and> P e"
  shows "map entry_line (concat (map (parse_line st) ls)) = ls"
    and "\<forall>e \<in> set (concat (map (parse_line st) ls)). P e"
  using assms by (induction ls) auto

lemma ValidateManifest_cases:
  assumes "PrefetchIdentities (manifest_paths (ParseManifest st str)) (st, c) = (st', c')"
  shows "fst (ValidateManifest b3 d ex rk str (st, c)) =
    (case find (\<lambda>e. \<not> entry_holds b3 st' d ex e) (ParseManifest st str) of
       None \<Rightarrow> Inr (ResultKey (Hasher_Finish b3 (hash_fields [] (rk # map entry_line (ParseManifest st str)))))
     | Some e \<Rightarrow> Inl (complaint e))"
  using assms by (simp add: ValidateManifest_def validate_entries_cases Let_def split: option.split)

section \<open>Properties\<close>

text \<open>C18. A manifest holds in an unchanged world: what \<^verbatim>\<open>BuildManifest\<close> wrote after a compile is
  accepted by \<^verbatim>\<open>ValidateManifest\<close> with the same result key, when every input has the identity it had,
  every path that was absent still is, and the paths can be spelled in a manifest.\<close>

theorem unchanged_inputs_hit:
  assumes "BuildManifest b3 d ex rk inputs primary absent (st, c) = (mf, st1, c1)"
    and "\<forall>p \<in> set inputs. key_readable st p \<and> tab \<notin> set (Key st p) \<and> \<not> starts_with (Key st p) ''!'' \<and> Key st p \<noteq> []"
    and "\<forall>p \<in> set absent. key_readable st p"
    and "\<forall>p \<in> set inputs. \<forall>i. InputId b3 st1 d p = Some i \<longrightarrow> newline \<notin> set i"
    and "PrefetchIdentities (manifest_paths (ParseManifest st (manifest_text mf))) (st, c') = (st2, c2)"
    and "\<forall>p \<in> set inputs. InputId b3 st2 d' p = InputId b3 st1 d p"
    and "\<forall>p \<in> set absent. \<not> ex p \<longrightarrow> \<not> ex' p"
  shows "fst (ValidateManifest b3 d' ex' rk (manifest_text mf) (st, c')) = Inr (result_key mf)"
proof -
  obtain stp cp where pre: "PrefetchIdentities inputs (st, c) = (stp, cp)" by fastforce
  have st1: "stp = st1" and same: "same_store st st1"
    using assms(1) pre Prefetch_same [OF pre] by (auto simp: BuildManifest_def)
  define ls where "ls = input_lines b3 st1 d primary inputs @ absent_lines st1 ex [] absent"
  have mf: "mf = manifest_of b3 rk ls"
    using assms(1) pre st1 by (simp add: BuildManifest_def ls_def)
  note key = same_store_Key [OF same]
  have line: "(\<exists>e. parse_line st l = [e] \<and> entry_line e = l \<and> entry_holds b3 st2 d' ex' e)
      \<and> newline \<notin> set l \<and> l \<noteq> []" if l: "l \<in> set ls" for l
  proof -
    consider (inp) p i where "p \<in> set inputs" "InputId b3 st1 d p = Some i" "l = Key st p @ [tab] @ i"
      | (abs) p where "p \<in> set absent" "\<not> ex p" "l = ''!'' @ Key st p"
      using l input_line_cases [of l b3 st1 d primary inputs] absent_line_cases [of l st1 ex "[]" absent]
      by (auto simp: ls_def key)
    then show ?thesis
    proof cases
      case inp
      with assms(2,4,6) parse_input_line [of st p i] show ?thesis
        by (auto simp: entry_holds_def key_readable_def)
    next
      case abs
      with assms(3,7) parse_absent_line [of st p] show ?thesis
        by (auto simp: entry_holds_def key_readable_def)
    qed
  qed
  have "ParseManifest st (manifest_text mf) = concat (map (parse_line st) ls)"
    using Split_lines [of ls newline] line by (simp add: mf manifest_of_def ParseManifest_def)
  with parse_lines_hold [of ls st "entry_holds b3 st2 d' ex'"] line
  have "map entry_line (ParseManifest st (manifest_text mf)) = ls"
    "find (\<lambda>e. \<not> entry_holds b3 st2 d' ex' e) (ParseManifest st (manifest_text mf)) = None"
    by (auto simp: find_None_iff)
  then show ?thesis
    using ValidateManifest_cases [OF assms(5), of b3 d' ex' rk] by (simp add: mf manifest_of_def)
qed

text \<open>A small world for examples: a stand-in for BLAKE3, no daemon, one header.\<close>

definition toy_b3 :: "string \<Rightarrow> string" where
  "toy_b3 s = take 16 (rev s @ replicate 16 (CHR ''x''))"

definition offline :: client where
  "offline = \<lparr>valid_fd = False, pending = [], rx = [], tx = [], sent = []\<rparr>"

definition example_disk :: disk where
  "example_disk = [''a.h'' \<mapsto> ''int x;'']"

lemma offline_invalid [simp]: "\<not> valid_fd offline"
  by (simp add: offline_def)

lemma example_keys:
  "Key example_store ''a.h'' = ''a.h''" "Resolve example_store ''a.h'' = Some ''a.h''"
  "Key example_store ''b.h'' = ''b.h''" "Resolve example_store ''b.h'' = Some ''b.h''"
  by code_simp+

lemma example_id: "InputId toy_b3 example_store example_disk ''a.h'' = Some (''C:'' @ HashOf toy_b3 (MaskOut example_store ''int x;''))"
  by (simp add: InputId_def example_store_def example_disk_def IsStorePath_def)

lemma example_id_line: "newline \<notin> set (''C:'' @ HashOf toy_b3 (MaskOut example_store ''int x;''))"
  by code_simp

theorem unchanged_inputs_hit_witness:
  "fst (ValidateManifest toy_b3 example_disk (\<lambda>p. p = ''a.h'') ''k1''
      (manifest_text (fst (BuildManifest toy_b3 example_disk (\<lambda>p. p = ''a.h'') ''k1'' [''a.h''] ''a.c'' [''b.h'']
         (example_store, offline)))) (example_store, offline))
   = Inr (result_key (fst (BuildManifest toy_b3 example_disk (\<lambda>p. p = ''a.h'') ''k1'' [''a.h''] ''a.c'' [''b.h'']
         (example_store, offline))))"
proof (rule unchanged_inputs_hit)
  let ?b = "BuildManifest toy_b3 example_disk (\<lambda>p. p = ''a.h'') ''k1'' [''a.h''] ''a.c'' [''b.h''] (example_store, offline)"
  show "?b = (fst ?b, example_store, offline)"
    by (simp add: BuildManifest_def Prefetch_offline)
  show "PrefetchIdentities (manifest_paths (ParseManifest example_store (manifest_text (fst ?b)))) (example_store, offline)
      = (example_store, offline)"
    by (simp add: Prefetch_offline)
qed (use example_id_line in \<open>simp_all add: key_readable_def example_keys example_id\<close>)

text \<open>C5. \<^verbatim>\<open>ValidateManifest\<close> decides exactly whether the manifest holds: it gives the result key when every
  line holds, the identity of each input as recorded and each absent path still absent, and otherwise
  names the first line that does not.\<close>

theorem validate_manifest_decides:
  assumes "PrefetchIdentities (manifest_paths (ParseManifest st str)) (st, c) = (st', c')"
  shows "fst (ValidateManifest b3 d ex rk str (st, c)) =
    (case find (\<lambda>e. \<not> (case entry_tab e of
                          None \<Rightarrow> \<not> ex (entry_path e)
                        | Some t \<Rightarrow> InputId b3 st' d (entry_path e) = Some (drop (t + 1) (entry_line e))))
        (ParseManifest st str) of
       None \<Rightarrow> Inr (ResultKey (Hasher_Finish b3
         (foldl Hasher_Field [] (rk # map entry_line (ParseManifest st str)))))
     | Some e \<Rightarrow>
         Inl (case entry_tab e of
                None \<Rightarrow> ''appeared:'' @ drop 1 (entry_line e)
              | Some t \<Rightarrow> ''inputs-changed:'' @ take t (entry_line e)))"
  using ValidateManifest_cases [OF assms, of b3 d ex rk]
  unfolding entry_holds_def complaint_def .

theorem validate_manifest_decides_witness:
  "fst (ValidateManifest toy_b3 (\<lambda>p. None) (\<lambda>p. False) ''k1'' (''a.h'' @ [tab] @ ''C:0'' @ [newline]) (example_store, offline))
     = Inl ''inputs-changed:a.h''"
proof -
  let ?str = "''a.h'' @ [tab] @ ''C:0'' @ [newline]"
  have p: "ParseManifest example_store ?str =
      [\<lparr>entry_path = ''a.h'', entry_line = ''a.h'' @ [tab] @ ''C:0'', entry_tab = Some 3\<rparr>]"
    by code_simp
  have i: "InputId toy_b3 example_store (\<lambda>p. None) ''a.h'' = None"
    by (simp add: InputId_def example_store_def IsStorePath_def)
  have "PrefetchIdentities (manifest_paths (ParseManifest example_store ?str)) (example_store, offline) = (example_store, offline)"
    by (simp add: Prefetch_offline)
  from validate_manifest_decides [OF this, of toy_b3 "\<lambda>p. None" "\<lambda>p. False" "''k1''"] show ?thesis
    by (simp only: p) (simp add: i eval_nat_numeral)
qed

text \<open>C19. A result key determines what it was computed from: when a validation gives the result key of
  a manifest built elsewhere, and BLAKE3 does not collide on the two inputs at hand, then the request
  is the same and every line recorded there has just been checked here.\<close>

theorem result_key_determines_manifest:
  assumes "fst (ValidateManifest b3 d ex rk str (st, c)) = Inr (result_key (manifest_of b3 rk' ls))"
    and "\<And>x y. x = foldl Hasher_Field [] (rk # map entry_line (ParseManifest st str)) \<Longrightarrow>
      y = foldl Hasher_Field [] (rk' # ls) \<Longrightarrow> b3 x = b3 y \<Longrightarrow> x = y"
  shows "rk = rk' \<and> map entry_line (ParseManifest st str) = ls"
proof -
  obtain st' c' where "PrefetchIdentities (manifest_paths (ParseManifest st str)) (st, c) = (st', c')" by fastforce
  from ValidateManifest_cases [OF this, of b3 d ex rk] assms(1)
  have "HexEncode (b3 (hash_fields [] (rk # map entry_line (ParseManifest st str)))) = HexEncode (b3 (hash_fields [] (rk' # ls)))"
    by (auto simp: manifest_of_def ResultKey_def Hasher_Finish_def split: option.splits)
  then have "b3 (hash_fields [] (rk # map entry_line (ParseManifest st str))) = b3 (hash_fields [] (rk' # ls))"
    by (simp only: HexEncode_inject)
  then have "hash_fields [] (rk # map entry_line (ParseManifest st str)) = hash_fields [] (rk' # ls)"
    using assms(2) by blast
  then show ?thesis by (simp only: fields_inject) simp
qed

theorem result_key_determines_manifest_witness:
  "''k1'' = ''k1'' \<and> map entry_line (ParseManifest example_store []) = []"
proof (rule result_key_determines_manifest [of toy_b3 "\<lambda>p. None" "\<lambda>p. False"])
  show "fst (ValidateManifest toy_b3 (\<lambda>p. None) (\<lambda>p. False) ''k1'' [] (example_store, offline))
      = Inr (result_key (manifest_of toy_b3 ''k1'' []))" by code_simp
  have "ParseManifest example_store [] = []" by code_simp
  then show "x = y" if "x = foldl Hasher_Field [] (''k1'' # map entry_line (ParseManifest example_store []))"
    "y = foldl Hasher_Field [] [''k1'']" for x y using that by simp
qed

end
