(* ===== verification/Jig_Driver.thy ===== *)
theory Jig_Driver
  imports Jig_Manifest
begin

text \<open>
  The driver of \<^verbatim>\<open>pkgs/ji/jig/src/driver.{h,cc}\<close>: the configuration file and the words the real
  compiler gets.  The JSON library is a parameter \<open>jp\<close> that turns a text into a document; what the
  driver asks of the file system (\<^verbatim>\<open>canonical\<close>, \<^verbatim>\<open>exists\<close>) is a record of functions.
  Index loops that skip a consumed argument are recursions on the arguments still to read.
\<close>

section \<open>Model\<close>

record driver_fs =
  fs_canonical :: "string \<Rightarrow> string option"
  fs_exists :: "string \<Rightarrow> bool"

definition kRunpathSlack :: nat where "kRunpathSlack = 48"
definition kNeededSlack :: nat where "kNeededSlack = 80"
definition kInterpSlack :: nat where "kInterpSlack = 12"

record package_flags =
  pk_cflags :: "string list"
  pk_cxxflags :: "string list"
  pk_ldflags :: "string list"

datatype binfmt = kElf | kMachO | kCoff

record driver_conf =
  dc_cc :: string
  dc_fc :: string
  dc_binfmt :: binfmt
  dc_libc :: string
  dc_interp :: string
  dc_crt :: string
  dc_runtimes :: string
  dc_flags :: "string list"
  dc_cxxflags :: "string list"
  dc_fflags :: "string list"
  dc_prefix_map :: "string list"
  dc_package :: package_flags
  dc_present :: bool

definition no_package_flags :: package_flags where
  "no_package_flags = \<lparr>pk_cflags = [], pk_cxxflags = [], pk_ldflags = []\<rparr>"

definition empty_conf :: driver_conf where
  "empty_conf =
     \<lparr>dc_cc = [], dc_fc = [], dc_binfmt = kElf, dc_libc = [], dc_interp = ''ld-linux-x86-64.so.2'', dc_crt = [],
      dc_runtimes = [], dc_flags = [], dc_cxxflags = [], dc_fflags = [], dc_prefix_map = [],
      dc_package = no_package_flags, dc_present = False\<rparr>"

subsection \<open>The RUNPATH\<close>

definition RealDir :: "driver_fs \<Rightarrow> string \<Rightarrow> string" where
  "RealDir f path = (case fs_canonical f path of None \<Rightarrow> path | Some c \<Rightarrow> c)"

definition IsHostDir :: "string \<Rightarrow> bool" where
  "IsHostDir path \<longleftrightarrow> starts_with path ''/usr'' \<or> starts_with path ''/lib'' \<or> starts_with path ''/opt''"

record runpath_list =
  rp_verbatim :: string
  rp_entries :: "string list"

definition RunpathList_Add :: "string \<Rightarrow> runpath_list \<Rightarrow> runpath_list" where
  "RunpathList_Add dir rp =
     (if IsHostDir dir \<or> dir \<in> set (rp_entries rp) then rp
      else rp\<lparr>rp_entries := rp_entries rp @ [dir]\<rparr>)"

definition RunpathList_AddVerbatim :: "string \<Rightarrow> runpath_list \<Rightarrow> runpath_list" where
  "RunpathList_AddVerbatim rpath rp =
     foldl (\<lambda>rp part. if \<not> IsHostDir part then rp\<lparr>rp_verbatim := rp_verbatim rp @ part @ '':''\<rparr> else rp)
       rp (Split rpath CHR '':'' True)"

definition RunpathList_Render :: "nat \<Rightarrow> runpath_list \<Rightarrow> string" where
  "RunpathList_Render libs rp =
     (let out = rp_verbatim rp @ concat (map (\<lambda>entry. entry @ ''/.:'') (rp_entries rp));
          stores = length (rp_entries rp) + length (filter (\<lambda>c. c = CHR '':'') (rp_verbatim rp))
      in out @ ''/'' @ replicate (max stores 1 * kRunpathSlack + libs * kNeededSlack - 1) (CHR ''_''))"

definition rpath_spellings :: "string list" where
  "rpath_spellings = [''-Wl,-rpath,'', ''-Wl,--rpath,'', ''-Wl,-rpath='', ''-Wl,--rpath='']"

definition TakeRpathArg :: "string \<Rightarrow> string list \<Rightarrow> (string \<times> string list) option" where
  "TakeRpathArg arg rest =
     (if (arg = ''-Wl,-rpath'' \<or> arg = ''-Wl,--rpath'') \<and> rest \<noteq> [] \<and> starts_with (hd rest) ''-Wl,''
      then Some (drop 4 (hd rest), tl rest)
      else case find (starts_with arg) rpath_spellings of
        Some spelling \<Rightarrow> Some (drop (length spelling) arg, rest)
      | None \<Rightarrow>
          if arg = ''-Xlinker'' \<and> 3 \<le> length rest \<and> (rest ! 0 = ''-rpath'' \<or> rest ! 0 = ''--rpath'')
             \<and> rest ! 1 = ''-Xlinker''
          then Some (rest ! 2, drop 3 rest)
          else None)"

subsection \<open>Words of the command line\<close>

definition IsOutputOnlyMode :: "string \<Rightarrow> bool" where
  "IsOutputOnlyMode arg \<longleftrightarrow>
     arg \<in> set [''-c'', ''-E'', ''-S'', ''-M'', ''-MM'', ''-fsyntax-only'', ''-###'']"

definition RefusesLinkPolicy :: "string \<Rightarrow> bool" where
  "RefusesLinkPolicy arg \<longleftrightarrow> arg \<in> set [''-static'', ''-static-pie'', ''-r'', ''-Wl,-r'', ''-nostartfiles'']"

definition IsRuntimeLib :: "string \<Rightarrow> bool" where
  "IsRuntimeLib lib \<longleftrightarrow> lib \<in> set [''c++'', ''stdc++'', ''gcc_s'', ''unwind'', '':libunwind.so'']"

record user_args =
  ua_args :: "string list"
  ua_runpath :: runpath_list
  ua_output :: string
  ua_linking :: bool
  ua_have_input :: bool
  ua_shared :: bool
  ua_no_policy :: bool
  ua_optimizes :: bool
  ua_sets_fortify :: bool

definition new_user_args :: user_args where
  "new_user_args =
     \<lparr>ua_args = [], ua_runpath = \<lparr>rp_verbatim = [], rp_entries = []\<rparr>, ua_output = [], ua_linking = True,
      ua_have_input = False, ua_shared = False, ua_no_policy = False, ua_optimizes = True, ua_sets_fortify = False\<rparr>"

definition IsFortifyArg :: "string \<Rightarrow> bool" where
  "IsFortifyArg arg \<longleftrightarrow> starts_with arg ''-D_FORTIFY_SOURCE'' \<or> arg = ''-U_FORTIFY_SOURCE''
     \<or> starts_with arg ''-Wp,-D_FORTIFY_SOURCE'' \<or> starts_with arg ''-Wp,-U_FORTIFY_SOURCE''"

definition IsPicArg :: "string \<Rightarrow> bool" where
  "IsPicArg arg \<longleftrightarrow>
     arg \<in> set [''-fPIC'', ''-fpic'', ''-fPIE'', ''-fpie'', ''-fno-PIC'', ''-fno-pic'', ''-pie'']"

definition FlagValue :: "string \<Rightarrow> string list \<Rightarrow> string \<Rightarrow> string option" where
  "FlagValue arg rest flag =
     (if \<not> starts_with arg flag then None
      else if length flag < length arg then Some (drop (length flag) arg)
      else if rest \<noteq> [] then Some (hd rest)
      else None)"

definition IsSharedLibName :: "string \<Rightarrow> bool" where
  "IsSharedLibName base \<longleftrightarrow>
     (if ends_with base ''.dylib'' then True
      else case str_rfind base ''.so'' of
        None \<Rightarrow> False
      | Some suffix_pos \<Rightarrow>
          (let tail = drop (suffix_pos + 3) base in
           tail = [] \<or> tail ! 0 = CHR ''.''
             \<and> list_all (\<lambda>chr. chr = CHR ''.'' \<or> chr \<in> set ''0123456789'') (drop 1 tail)))"

text \<open>The local variables of the loop of \<^verbatim>\<open>AddRunpathEntries\<close>.\<close>

record link_scan =
  ls_lib_dirs :: "string list"
  ls_libs :: "string list"
  ls_runtime :: bool
  ls_runpath :: runpath_list

fun scan_link_args :: "driver_fs \<Rightarrow> store \<Rightarrow> string list \<Rightarrow> link_scan \<Rightarrow> link_scan" where
  "scan_link_args f st [] ls = ls"
| "scan_link_args f st (arg # rest) ls =
     (let ls1 =
        (case FlagValue arg rest ''-L'' of
           Some dir \<Rightarrow> ls\<lparr>ls_lib_dirs := ls_lib_dirs ls @ [dir]\<rparr>
         | None \<Rightarrow>
             (case FlagValue arg rest ''-l'' of
                Some lib \<Rightarrow> ls\<lparr>ls_runtime := ls_runtime ls \<or> IsRuntimeLib lib, ls_libs := ls_libs ls @ [lib]\<rparr>
              | None \<Rightarrow>
                  if IsStorePath st arg \<and> IsSharedLibName (path_filename arg)
                  then ls\<lparr>ls_runpath := RunpathList_Add (parent_path (RealDir f arg)) (ls_runpath ls)\<rparr>
                  else ls));
          ls2 = (if arg = ''-nostdlib++'' \<or> arg = ''-nostdlib'' then ls1\<lparr>ls_runtime := False\<rparr> else ls1)
      in scan_link_args f st rest ls2)"

definition provides :: "driver_fs \<Rightarrow> string list \<Rightarrow> string \<Rightarrow> bool" where
  "provides f libs dir \<longleftrightarrow>
     list_ex (\<lambda>lib. fs_exists f (dir @ ''/lib'' @ lib @ ''.so'') \<or> fs_exists f (dir @ ''/lib'' @ lib @ ''.dylib'')) libs"

definition AddRunpathEntries :: "driver_fs \<Rightarrow> store \<Rightarrow> driver_conf \<Rightarrow> bool \<Rightarrow> string list \<Rightarrow> runpath_list
    \<Rightarrow> nat \<times> runpath_list" where
  "AddRunpathEntries f st conf cxx args rp =
     (let ls = scan_link_args f st args \<lparr>ls_lib_dirs = [], ls_libs = [], ls_runtime = cxx, ls_runpath = rp\<rparr>;
          rp1 = foldl (\<lambda>rp dir. let real = RealDir f dir in
                  if IsStorePath st real \<and> provides f (ls_libs ls) real then RunpathList_Add real rp else rp)
                (ls_runpath ls) (ls_lib_dirs ls);
          rp2 = (if ls_runtime ls \<and> dc_runtimes conf \<noteq> [] then RunpathList_Add (dc_runtimes conf) rp1 else rp1)
      in (length (ls_libs ls), RunpathList_Add (dc_libc conf @ ''/lib'') rp2))"

definition CollectRunpath :: "driver_fs \<Rightarrow> store \<Rightarrow> driver_conf \<Rightarrow> bool \<Rightarrow> user_args \<Rightarrow> nat \<times> user_args" where
  "CollectRunpath f st conf cxx user =
     (case AddRunpathEntries f st conf cxx (ua_args user @ pk_ldflags (dc_package conf)) (ua_runpath user) of
        (libs, rp) \<Rightarrow> (libs, user\<lparr>ua_runpath := rp\<rparr>))"

subsection \<open>What differs per binary format\<close>

definition KeepArg :: "string \<Rightarrow> string option" where
  "KeepArg arg = Some arg"

definition NoFlags :: "string list \<Rightarrow> string list" where
  "NoFlags out = out"

definition NoLink :: "driver_fs \<Rightarrow> store \<Rightarrow> driver_conf \<Rightarrow> bool \<Rightarrow> user_args \<Rightarrow> string list \<Rightarrow> user_args \<times> string list" where
  "NoLink f st conf cxx user out = (user, out)"

definition ElfArg :: "string \<Rightarrow> string option" where
  "ElfArg arg =
     (if starts_with arg ''-Wl,--dynamic-linker'' \<or> starts_with arg ''-Wl,-dynamic-linker'' then None else Some arg)"

definition package_note :: string where
  "package_note = ''-Wl,--package-metadata={'' @ [dquote] @ ''type'' @ [dquote] @ '':'' @ [dquote] @ ''repkgs'' @ [dquote] @ ''}''"

definition ElfFlags :: "string list \<Rightarrow> string list" where
  "ElfFlags out = out @ [''-Wl,--build-id=sha1'', package_note]"

definition ElfLink :: "driver_fs \<Rightarrow> store \<Rightarrow> driver_conf \<Rightarrow> bool \<Rightarrow> user_args \<Rightarrow> string list \<Rightarrow> user_args \<times> string list" where
  "ElfLink f st conf cxx user out =
     (case CollectRunpath f st conf cxx user of (libs, user1) \<Rightarrow>
        let out1 = out @ [''-Wl,--undefined-version'', ''-Wl,-rpath,'' @ RunpathList_Render libs (ua_runpath user1),
                          ''-Wl,--enable-new-dtags''];
            libc_lib = dc_libc conf @ ''/lib/''
        in if ua_shared user1 then (user1, out1)
           else if dc_crt conf = [] then (user1, out1 @ [''-Wl,--dynamic-linker='' @ libc_lib @ dc_interp conf])
           else (user1, out1 @ [''-x'', ''none'', dc_crt conf,
                   ''-Wl,--dynamic-linker='' @ libc_lib @ concat (replicate kInterpSlack ''./'') @ dc_interp conf,
                   ''-Wl,--export-dynamic-symbol=__reloc_start'']))"

definition MachOLink :: "driver_fs \<Rightarrow> store \<Rightarrow> driver_conf \<Rightarrow> bool \<Rightarrow> user_args \<Rightarrow> string list \<Rightarrow> user_args \<times> string list" where
  "MachOLink f st conf cxx user out = (user, out @ [''-Wl,-headerpad_max_install_names''])"

definition CoffArg :: "string \<Rightarrow> string option" where
  "CoffArg arg =
     (if IsPicArg arg then None
      else if list_ex (\<lambda>old. (starts_with arg ''-std=c'' \<or> starts_with arg ''-std=gnu'') \<and> ends_with arg old)
                [''++98'', ''++03'', ''++0x'', ''++11'']
      then Some (substr arg 0 (length arg - 2) @ ''14'')
      else Some arg)"

definition tolower :: "char \<Rightarrow> char" where
  "tolower c = (let n = (of_char c :: nat) in if 65 \<le> n \<and> n \<le> 90 then char_of (n + 32) else c)"

fun lib_dirs :: "string list \<Rightarrow> string list" where
  "lib_dirs [] = []"
| "lib_dirs (arg # rest) =
     (case FlagValue arg rest ''-L'' of Some dir \<Rightarrow> [dir] | None \<Rightarrow> []) @ lib_dirs rest"

definition coff_present :: "driver_fs \<Rightarrow> string list \<Rightarrow> string \<Rightarrow> bool" where
  "coff_present f dirs name \<longleftrightarrow>
     list_ex (\<lambda>dir. fs_exists f (dir @ ''/lib'' @ name @ ''.dll.a'') \<or> fs_exists f (dir @ ''/lib'' @ name @ ''.a'')
       \<or> fs_exists f (dir @ ''/'' @ name)) dirs"

definition CoffLibs :: "driver_fs \<Rightarrow> driver_conf \<Rightarrow> user_args \<Rightarrow> user_args" where
  "CoffLibs f conf user =
     (let dirs = lib_dirs (ua_args user) @ lib_dirs (pk_ldflags (dc_package conf)) in
      user\<lparr>ua_args := map (\<lambda>arg.
        if \<not> starts_with arg ''-l'' \<or> slash \<in> set arg \<or> coff_present f dirs (drop 2 arg) then arg
        else take 2 arg @ map tolower (drop 2 arg)) (ua_args user)\<rparr>)"

record policy =
  takes_rpath :: bool
  pol_arg :: "string \<Rightarrow> string option"
  pol_always :: "string list \<Rightarrow> string list"
  pol_link :: "driver_fs \<Rightarrow> store \<Rightarrow> driver_conf \<Rightarrow> bool \<Rightarrow> user_args \<Rightarrow> string list \<Rightarrow> user_args \<times> string list"
  pol_libs :: "(driver_fs \<Rightarrow> driver_conf \<Rightarrow> user_args \<Rightarrow> user_args) option"

fun PolicyFor :: "binfmt \<Rightarrow> policy" where
  "PolicyFor kMachO =
     \<lparr>takes_rpath = False, pol_arg = KeepArg, pol_always = NoFlags, pol_link = MachOLink, pol_libs = None\<rparr>"
| "PolicyFor kCoff =
     \<lparr>takes_rpath = False, pol_arg = CoffArg, pol_always = NoFlags, pol_link = NoLink, pol_libs = Some CoffLibs\<rparr>"
| "PolicyFor kElf =
     \<lparr>takes_rpath = True, pol_arg = ElfArg, pol_always = ElfFlags, pol_link = ElfLink, pol_libs = None\<rparr>"

definition scan_arg :: "policy \<Rightarrow> string \<Rightarrow> string list \<Rightarrow> user_args \<Rightarrow> user_args" where
  "scan_arg pol arg rest user =
     (let user1 = (case FlagValue arg rest ''-o'' of Some out \<Rightarrow> user\<lparr>ua_output := out\<rparr> | None \<Rightarrow> user) in
      case pol_arg pol arg of
        None \<Rightarrow> user1
      | Some kept \<Rightarrow>
          user1\<lparr>ua_linking := ua_linking user1 \<and> \<not> IsOutputOnlyMode arg,
                ua_shared := ua_shared user1 \<or> arg = ''-shared'' \<or> arg = ''-dynamiclib'',
                ua_no_policy := ua_no_policy user1 \<or> RefusesLinkPolicy arg,
                ua_have_input := ua_have_input user1 \<or> \<not> starts_with arg ''-'',
                ua_sets_fortify := ua_sets_fortify user1 \<or> IsFortifyArg arg,
                ua_optimizes := (if starts_with arg ''-O'' then arg \<noteq> ''-O0'' else ua_optimizes user1),
                ua_args := ua_args user1 @ [kept]\<rparr>)"

lemma TakeRpathArg_length: "TakeRpathArg arg rest = Some (v, rest') \<Longrightarrow> length rest' \<le> length rest"
  by (auto simp: TakeRpathArg_def split: if_splits option.splits)

function scan_user_args :: "policy \<Rightarrow> string list \<Rightarrow> user_args \<Rightarrow> user_args" where
  "scan_user_args pol [] user = user"
| "scan_user_args pol (arg # rest) user =
     (case (if takes_rpath pol then TakeRpathArg arg rest else None) of
        Some (rpath, rest') \<Rightarrow>
          scan_user_args pol rest' (user\<lparr>ua_runpath := RunpathList_AddVerbatim rpath (ua_runpath user)\<rparr>)
      | None \<Rightarrow> scan_user_args pol rest (scan_arg pol arg rest user))"
  by pat_completeness auto
termination
  by (relation "measure (\<lambda>(pol, raw, user). length raw)")
     (auto dest!: TakeRpathArg_length split: if_splits)

definition ScanUserArgs :: "policy \<Rightarrow> string list \<Rightarrow> user_args" where
  "ScanUserArgs pol raw = scan_user_args pol raw new_user_args"

subsection \<open>The configuration\<close>

datatype json = JDiscarded | JNull | JString string | JArray "json list" | JObject "(string \<times> json) list" | JOther

datatype conf_error = NotAnObject | BadBinFmt string | JsonType

definition json_find :: "json \<Rightarrow> string \<Rightarrow> json option" where
  "json_find doc key = (case doc of JObject mem \<Rightarrow> map_of mem key | _ \<Rightarrow> None)"

fun json_strings :: "json list \<Rightarrow> string list option" where
  "json_strings [] = Some []"
| "json_strings (JString s # js) = map_option (Cons s) (json_strings js)"
| "json_strings (_ # js) = None"

definition conf_str :: "json \<Rightarrow> string \<Rightarrow> string \<Rightarrow> string" where
  "conf_str doc key into = (case json_find doc key of Some (JString s) \<Rightarrow> s | _ \<Rightarrow> into)"

text \<open>\<^verbatim>\<open>get<vector<string>>\<close> of an array with anything but strings raises a type error.\<close>

definition conf_list :: "json \<Rightarrow> string \<Rightarrow> string list option" where
  "conf_list doc key = (case json_find doc key of Some (JArray js) \<Rightarrow> json_strings js | _ \<Rightarrow> Some [])"

definition conf_expand :: "string \<Rightarrow> string \<Rightarrow> string" where
  "conf_expand root flag =
     (case str_find flag ''@/'' 0 of
        None \<Rightarrow> flag
      | Some at_pos \<Rightarrow>
          if at_pos = 0 \<or> at_pos = 2 \<and> starts_with flag ''-'' \<or> flag ! (at_pos - 1) = CHR ''=''
          then str_replace flag at_pos 1 root else flag)"

definition conf_binfmt :: "string \<Rightarrow> binfmt option" where
  "conf_binfmt s =
     (if s = ''elf'' then Some kElf else if s = ''macho'' then Some kMachO else if s = ''coff'' then Some kCoff else None)"

definition ParseDriverConf :: "(string \<Rightarrow> json) \<Rightarrow> string \<Rightarrow> string \<Rightarrow> conf_error + driver_conf" where
  "ParseDriverConf jp str root =
     (case jp str of
        JObject mem \<Rightarrow>
          (let doc = JObject mem in
           case (conf_list doc ''flags'', conf_list doc ''cxxflags'', conf_list doc ''fflags'', conf_list doc ''prefix-map'') of
             (Some flags, Some cxxflags, Some fflags, Some prefix_map) \<Rightarrow>
               (let b = conf_str doc ''binfmt'' ''elf'' in
                case conf_binfmt b of
                  None \<Rightarrow> Inl (BadBinFmt b)
                | Some fmt \<Rightarrow>
                    Inr (empty_conf\<lparr>dc_cc := conf_str doc ''cc'' [], dc_fc := conf_str doc ''fc'' [], dc_binfmt := fmt,
                           dc_libc := conf_str doc ''libc'' [], dc_interp := conf_str doc ''interp'' (dc_interp empty_conf),
                           dc_crt := conf_expand root (conf_str doc ''crt'' []), dc_runtimes := conf_str doc ''runtimes'' [],
                           dc_flags := map (conf_expand root) flags, dc_cxxflags := map (conf_expand root) cxxflags,
                           dc_fflags := map (conf_expand root) fflags, dc_prefix_map := map (conf_expand root) prefix_map,
                           dc_present := True\<rparr>))
           | _ \<Rightarrow> Inl JsonType)
      | _ \<Rightarrow> Inl NotAnObject)"

text \<open>Here a found value that is no list of strings raises in every case.\<close>

definition package_list :: "json \<Rightarrow> string \<Rightarrow> string list option" where
  "package_list entry key =
     (case json_find entry key of None \<Rightarrow> Some [] | Some (JArray js) \<Rightarrow> json_strings js | Some _ \<Rightarrow> None)"

definition PackageFlags :: "(string \<Rightarrow> json) \<Rightarrow> (string \<Rightarrow> string option) \<Rightarrow> string \<Rightarrow> conf_error + package_flags" where
  "PackageFlags jp env root =
     (let str = Env env ''PKGS_CC'' [] in
      if str = [] then Inr no_package_flags
      else case json_find (jp str) root of
        None \<Rightarrow> Inr no_package_flags
      | Some entry \<Rightarrow>
          (case (package_list entry ''cflags'', package_list entry ''cxxflags'', package_list entry ''ldflags'') of
             (Some c, Some x, Some l) \<Rightarrow> Inr \<lparr>pk_cflags = c, pk_cxxflags = x, pk_ldflags = l\<rparr>
           | _ \<Rightarrow> Inl JsonType))"

definition LoadDriverConf :: "(string \<Rightarrow> json) \<Rightarrow> (string \<Rightarrow> string option) \<Rightarrow> disk \<Rightarrow> string option
    \<Rightarrow> conf_error + driver_conf option" where
  "LoadDriverConf jp env d self =
     (let fallback = (let cc = Env env ''JIG_CC'' [] in
            Inr (if cc = [] then None else Some (empty_conf\<lparr>dc_cc := cc\<rparr>)))
      in case self of
        None \<Rightarrow> fallback
      | Some exe \<Rightarrow>
          (let root = parent_path (parent_path exe) in
           case d (path_append root ''etc/jig.json'') of
             None \<Rightarrow> fallback
           | Some str \<Rightarrow>
               (case ParseDriverConf jp str root of
                  Inl e \<Rightarrow> Inl e
                | Inr conf \<Rightarrow>
                    if dc_cc conf = [] then Inr None
                    else (case PackageFlags jp env root of
                            Inl e \<Rightarrow> Inl e
                          | Inr p \<Rightarrow> Inr (Some (conf\<lparr>dc_package := p\<rparr>))))))"

subsection \<open>The command line of the compiler\<close>

function lib_dir_lines :: "string \<Rightarrow> string \<Rightarrow> nat \<Rightarrow> string" where
  "lib_dir_lines extra search_dirs pos =
     (if pos < length search_dirs then
        (let eol = (case str_find search_dirs [newline] pos of None \<Rightarrow> length search_dirs | Some e \<Rightarrow> e);
             line = substr search_dirs pos (eol - pos)
         in line @ (if starts_with line ''libraries:'' then extra else []) @ [newline]
              @ lib_dir_lines extra search_dirs (eol + 1))
      else [])"
  by pat_completeness auto
termination
  by (relation "measure (\<lambda>(extra, s, pos). length s + 1 - pos)") (auto dest: str_find_bounds simp: less_diff_conv2 split: option.splits)

definition WithPackageLibDirs :: "string \<Rightarrow> string list \<Rightarrow> string" where
  "WithPackageLibDirs search_dirs ldflags =
     (let extra = concat (map (\<lambda>flag. if starts_with flag ''-L'' \<and> 2 < length flag then '':'' @ drop 2 flag else []) ldflags)
      in lib_dir_lines extra search_dirs 0)"

definition BuildDriverArgs :: "driver_fs \<Rightarrow> (string \<Rightarrow> string option) \<Rightarrow> store \<Rightarrow> driver_conf \<Rightarrow> language \<Rightarrow> string list
    \<Rightarrow> string list" where
  "BuildDriverArgs f env st conf lang raw_args =
     (let cxx = (lang = kCxx); fortran = (lang = kFortran);
          pol = PolicyFor (dc_binfmt conf);
          user = ScanUserArgs pol raw_args;
          out = [if fortran then ''-Qunused-arguments'' else ''--start-no-unused-arguments''];
          out = out @ (if fortran then dc_fflags conf else dc_flags conf);
          out = out @ filter (\<lambda>flag. \<not> (IsFortifyArg flag \<and> (ua_sets_fortify user \<or> \<not> ua_optimizes user)))
                        (if fortran then [] else pk_cflags (dc_package conf));
          out = (if cxx then out @ [''--driver-mode=g++''] @ dc_cxxflags conf @ pk_cxxflags (dc_package conf) else out);
          out = out @ map (\<lambda>mapping. ''-ffile-prefix-map='' @ mapping) (if fortran then [] else dc_prefix_map conf);
          out = out @ map (\<lambda>mapping. ''-ffile-prefix-map='' @ mapping)
                        (if fortran then [] else Split (Env env ''PKGS_PREFIX_MAP'' []) CHR '':'' False);
          out = pol_always pol out;
          out = (if \<not> fortran then out @ [''--end-no-unused-arguments''] else out);
          (user, tail) =
            (if ua_linking user \<and> ua_have_input user then
               (let tail = pk_ldflags (dc_package conf);
                    user = (case pol_libs pol of None \<Rightarrow> user | Some libs \<Rightarrow> libs f conf user)
                in if \<not> ua_no_policy user then pol_link pol f st conf cxx user tail else (user, tail))
             else (user, []))
      in out @ ua_args user @ tail)"

section \<open>The rendered RUNPATH\<close>

text \<open>Any sequence of requests, from the build system and from the driver.\<close>

datatype runpath_op = AddDir string | AddText string

fun runpath_step :: "runpath_op \<Rightarrow> runpath_list \<Rightarrow> runpath_list" where
  "runpath_step (AddDir dir) rp = RunpathList_Add dir rp"
| "runpath_step (AddText rpath) rp = RunpathList_AddVerbatim rpath rp"

definition runpath_build :: "runpath_op list \<Rightarrow> runpath_list" where
  "runpath_build ops = foldl (\<lambda>rp op. runpath_step op rp) \<lparr>rp_verbatim = [], rp_entries = []\<rparr> ops"

fun asked_dirs :: "runpath_op list \<Rightarrow> string list" where
  "asked_dirs [] = []"
| "asked_dirs (AddDir dir # ops) = dir # asked_dirs ops"
| "asked_dirs (AddText _ # ops) = asked_dirs ops"

fun asked_texts :: "runpath_op list \<Rightarrow> string list" where
  "asked_texts [] = []"
| "asked_texts (AddDir _ # ops) = asked_texts ops"
| "asked_texts (AddText rpath # ops) = split_char CHR '':'' rpath @ asked_texts ops"

definition no_host :: "string list \<Rightarrow> string list" where
  "no_host = filter (\<lambda>dir. \<not> IsHostDir dir)"

definition first_only :: "'a list \<Rightarrow> 'a list" where
  "first_only xs = rev (remdups (rev xs))"

lemma first_only_snoc: "first_only (xs @ [x]) = (if x \<in> set xs then first_only xs else first_only xs @ [x])"
  by (simp add: first_only_def)

lemma set_first_only [simp]: "set (first_only xs) = set xs"
  by (simp add: first_only_def)

lemma asked_append [simp]:
  "asked_dirs (ops @ ops') = asked_dirs ops @ asked_dirs ops'"
  "asked_texts (ops @ ops') = asked_texts ops @ asked_texts ops'"
  by (induction ops rule: asked_dirs.induct) auto

lemma AddVerbatim_eq:
  "RunpathList_AddVerbatim rpath rp =
     rp\<lparr>rp_verbatim := rp_verbatim rp @ concat (map (\<lambda>p. p @ '':'') (no_host (split_char CHR '':'' rpath)))\<rparr>"
proof -
  have "foldl (\<lambda>rp part. if \<not> IsHostDir part then rp\<lparr>rp_verbatim := rp_verbatim rp @ part @ '':''\<rparr> else rp) rp ps
    = rp\<lparr>rp_verbatim := rp_verbatim rp @ concat (map (\<lambda>p. p @ '':'') (no_host ps))\<rparr>" for ps
    by (induction ps arbitrary: rp) (simp_all add: no_host_def)
  then show ?thesis by (simp add: RunpathList_AddVerbatim_def Split_eq)
qed

lemma runpath_build_eq:
  "runpath_build ops =
     \<lparr>rp_verbatim = concat (map (\<lambda>p. p @ '':'') (no_host (asked_texts ops))),
      rp_entries = first_only (no_host (asked_dirs ops))\<rparr>"
proof (induction ops rule: rev_induct)
  case Nil
  then show ?case by (simp add: runpath_build_def no_host_def first_only_def)
next
  case (snoc op ops)
  have "runpath_build (ops @ [op]) = runpath_step op (runpath_build ops)" by (simp add: runpath_build_def)
  then show ?case
    unfolding snoc.IH
    by (cases op) (auto simp: AddVerbatim_eq RunpathList_Add_def no_host_def first_only_snoc)
qed

lemma split_char_lines_then:
  "\<forall>l \<in> set ls. sep \<notin> set l \<Longrightarrow>
   split_char sep (concat (map (\<lambda>l. l @ [sep]) ls) @ s) = ls @ split_char sep s"
  by (induction ls) (auto simp: split_char_append)

lemma asked_texts_fields: "p \<in> set (asked_texts ops) \<Longrightarrow> CHR '':'' \<notin> set p"
  by (induction ops rule: asked_texts.induct) (auto dest: split_char_fields)

lemma length_colons:
  "\<forall>p \<in> set ps. CHR '':'' \<notin> set p \<Longrightarrow>
   length (filter (\<lambda>c. c = CHR '':'') (concat (map (\<lambda>p. p @ '':'') ps))) = length ps"
  by (induction ps) (auto simp: filter_empty_conv)

text \<open>C32. The RUNPATH the driver renders reads back, element by element, as the build system's own
  elements as they were, then the driver's directories each once and in the order of their first request,
  then one pad element; directories of the host system are in neither, and the pad has the promised bytes
  for every element before it and for every library.\<close>

theorem runpath_renders:
  fixes ops :: "runpath_op list" and libs :: nat
  defines "theirs \<equiv> filter (\<lambda>p. \<not> IsHostDir p) (asked_texts ops)"
    and "ours \<equiv> rev (remdups (rev (filter (\<lambda>p. \<not> IsHostDir p) (asked_dirs ops))))"
  assumes "\<forall>dir \<in> set (asked_dirs ops). CHR '':'' \<notin> set dir"
  shows "\<exists>pad. Split (RunpathList_Render libs (runpath_build ops)) CHR '':'' True
      = theirs @ map (\<lambda>dir. dir @ ''/.'') ours @ [pad]
    \<and> length pad = max (length theirs + length ours) 1 * kRunpathSlack + libs * kNeededSlack
    \<and> starts_with pad ''/_''"
proof -
  let ?n = "max (length theirs + length ours) 1 * kRunpathSlack + libs * kNeededSlack"
  let ?pad = "slash # replicate (?n - 1) (CHR ''_'')"
  have nc: "\<forall>p \<in> set theirs. CHR '':'' \<notin> set p" using asked_texts_fields by (auto simp: theirs_def)
  have no: "\<forall>p \<in> set (map (\<lambda>dir. dir @ ''/.'') ours). CHR '':'' \<notin> set p" using assms(3) by (auto simp: ours_def)
  have b: "runpath_build ops = \<lparr>rp_verbatim = concat (map (\<lambda>p. p @ '':'') theirs), rp_entries = ours\<rparr>"
    by (simp add: runpath_build_eq theirs_def ours_def no_host_def first_only_def)
  have render: "RunpathList_Render libs (runpath_build ops)
      = concat (map (\<lambda>l. l @ '':'') theirs) @ concat (map (\<lambda>l. l @ '':'') (map (\<lambda>dir. dir @ ''/.'') ours)) @ ?pad"
    using length_colons [OF nc] by (simp add: b RunpathList_Render_def Let_def o_def add.commute)
  have "Split (RunpathList_Render libs (runpath_build ops)) CHR '':'' True
      = theirs @ map (\<lambda>dir. dir @ ''/.'') ours @ [?pad]"
    unfolding render Split_eq split_char_lines_then [OF nc] split_char_lines_then [OF no]
    by (simp add: split_char_no_sep)
  moreover have n: "2 \<le> ?n" by (simp add: kRunpathSlack_def max_def)
  then have "length ?pad = ?n" by simp
  moreover have "replicate (?n - 1) (CHR ''_'') = CHR ''_'' # replicate (?n - 2) (CHR ''_'')"
    using n by (metis One_nat_def Suc_1 Suc_diff_le diff_Suc_Suc replicate_Suc)
  then have "starts_with ?pad ''/_''" by simp
  ultimately show ?thesis by blast
qed

theorem runpath_renders_witness:
  "\<exists>pad. Split (RunpathList_Render 1 (runpath_build [AddText ''/b:/usr/lib'', AddDir ''/s'', AddDir ''/s''])) CHR '':'' True
      = [''/b'', ''/s/.'', pad] \<and> length pad = 176"
  using runpath_renders [of "[AddText ''/b:/usr/lib'', AddDir ''/s'', AddDir ''/s'']" 1]
  by (simp add: IsHostDir_def kRunpathSlack_def kNeededSlack_def) blast

section \<open>The link policy\<close>

definition rpath_word :: "string \<Rightarrow> bool" where
  "rpath_word w \<longleftrightarrow> list_ex (starts_with w) rpath_spellings"

definition interp_word :: "string \<Rightarrow> bool" where
  "interp_word w \<longleftrightarrow> starts_with w ''-Wl,--dynamic-linker'' \<or> starts_with w ''-Wl,-dynamic-linker''"

definition policy_word :: "string \<Rightarrow> bool" where
  "policy_word w \<longleftrightarrow> rpath_word w \<or> interp_word w"

abbreviation policy_words :: "string list \<Rightarrow> string list" where
  "policy_words \<equiv> filter policy_word"

definition built_runpath :: "runpath_list \<Rightarrow> bool" where
  "built_runpath rp \<longleftrightarrow> (\<exists>ops. rp = runpath_build ops)"

lemma built_runpath_start: "built_runpath \<lparr>rp_verbatim = [], rp_entries = []\<rparr>"
  unfolding built_runpath_def by (rule exI [of _ "[]"]) (simp add: runpath_build_def)

lemma built_runpath_step: "built_runpath rp \<Longrightarrow> built_runpath (runpath_step op rp)"
proof -
  assume "built_runpath rp"
  then obtain ops where "rp = runpath_build ops" by (auto simp: built_runpath_def)
  then have "runpath_step op rp = runpath_build (ops @ [op])" by (simp add: runpath_build_def)
  then show ?thesis by (auto simp: built_runpath_def)
qed

lemma built_runpath_Add: "built_runpath rp \<Longrightarrow> built_runpath (RunpathList_Add dir rp)"
  using built_runpath_step [of rp "AddDir dir"] by simp

lemma built_runpath_AddVerbatim: "built_runpath rp \<Longrightarrow> built_runpath (RunpathList_AddVerbatim dir rp)"
  using built_runpath_step [of rp "AddText dir"] by simp

lemmas built_runpath_intros = built_runpath_start built_runpath_Add built_runpath_AddVerbatim

lemma scan_link_built:
  "built_runpath (ls_runpath ls) \<Longrightarrow> built_runpath (ls_runpath (scan_link_args f st args ls))"
proof (induction f st args ls rule: scan_link_args.induct)
  case (2 f st arg rest ls)
  show ?case
    unfolding scan_link_args.simps Let_def
    by (rule "2.IH" [OF refl refl]) (simp add: "2.prems" built_runpath_Add split: option.split)
qed simp

lemma AddRunpathEntries_built:
  assumes "AddRunpathEntries f st conf cxx args rp = (libs, rp')" "built_runpath rp"
  shows "built_runpath rp'"
proof -
  have fold: "built_runpath rp \<Longrightarrow> built_runpath (foldl (\<lambda>rp dir. let real = RealDir f dir in
      if IsStorePath st real \<and> provides f ls real then RunpathList_Add real rp else rp) rp dirs)" for rp ls dirs
    by (induction dirs arbitrary: rp) (auto simp: Let_def intro: built_runpath_intros)
  show ?thesis
    using assms unfolding AddRunpathEntries_def Let_def
    by (auto intro!: built_runpath_Add fold [unfolded Let_def] scan_link_built)
qed

lemma scan_arg_runpath [simp]: "ua_runpath (scan_arg pol arg rest user) = ua_runpath user"
  by (simp add: scan_arg_def Let_def split: option.split)

lemma scan_user_args_built:
  "built_runpath (ua_runpath user) \<Longrightarrow> built_runpath (ua_runpath (scan_user_args pol raw user))"
proof (induction pol raw user rule: scan_user_args.induct)
  case (2 pol arg rest user)
  show ?case
  proof (cases "if takes_rpath pol then TakeRpathArg arg rest else None")
    case None
    with 2 show ?thesis by simp
  next
    case (Some p)
    obtain v r where p: "p = (v, r)" by (cases p)
    from "2.IH"(2) [OF Some p [symmetric]] "2.prems" Some p show ?thesis by (simp add: built_runpath_AddVerbatim)
  qed
qed simp

lemma ScanUserArgs_built: "built_runpath (ua_runpath (ScanUserArgs pol raw))"
  unfolding ScanUserArgs_def by (rule scan_user_args_built) (simp add: new_user_args_def built_runpath_start)

lemma TakeRpathArg_takes: "rpath_word arg \<Longrightarrow> TakeRpathArg arg rest \<noteq> None"
  unfolding rpath_word_def TakeRpathArg_def
  by (auto simp: find_None_iff list_ex_iff split: option.split)

lemma scan_arg_kept:
  assumes "\<not> rpath_word arg" "policy_words (ua_args user) = []"
  shows "policy_words (ua_args (scan_arg (PolicyFor kElf) arg rest user)) = []"
  using assms by (auto simp: scan_arg_def Let_def ElfArg_def policy_word_def interp_word_def split: option.split)

lemma scan_user_args_kept:
  "policy_words (ua_args user) = [] \<Longrightarrow> policy_words (ua_args (scan_user_args (PolicyFor kElf) raw user)) = []"
proof (induction "PolicyFor kElf" raw user rule: scan_user_args.induct)
  case (2 arg rest user)
  show ?case
  proof (cases "TakeRpathArg arg rest")
    case None
    with TakeRpathArg_takes have "\<not> rpath_word arg" by blast
    with None 2 scan_arg_kept show ?thesis by (simp del: filter_False)
  next
    case (Some p)
    with 2 show ?thesis by (cases p) simp
  qed
qed simp

lemma ScanUserArgs_kept: "policy_words (ua_args (ScanUserArgs (PolicyFor kElf) raw)) = []"
  unfolding ScanUserArgs_def by (rule scan_user_args_kept) (simp add: new_user_args_def)

lemma policy_word_plain:
  "\<not> policy_word (''-ffile-prefix-map='' @ m)" "\<not> policy_word ''--start-no-unused-arguments''"
  "\<not> policy_word ''-Qunused-arguments''" "\<not> policy_word ''--driver-mode=g++''"
  "\<not> policy_word ''-Wl,--build-id=sha1''" "\<not> policy_word package_note" "\<not> policy_word ''--end-no-unused-arguments''"
  "\<not> policy_word ''-Wl,--undefined-version''" "\<not> policy_word ''-Wl,--enable-new-dtags''"
  "\<not> policy_word ''-x''" "\<not> policy_word ''none''" "\<not> policy_word ''-Wl,--export-dynamic-symbol=__reloc_start''"
  by (simp_all add: policy_word_def rpath_word_def interp_word_def rpath_spellings_def package_note_def)

lemma policy_word_ours:
  "policy_word (''-Wl,-rpath,'' @ r)" "policy_word (''-Wl,--dynamic-linker='' @ i)"
  by (simp_all add: policy_word_def rpath_word_def interp_word_def rpath_spellings_def)

text \<open>The words in the form the simplifier brings literals to.\<close>

lemmas policy_word_simps = policy_word_plain [simplified] policy_word_ours [simplified]

definition clean_words :: "driver_conf \<Rightarrow> bool" where
  "clean_words conf \<longleftrightarrow> policy_words (dc_flags conf @ dc_fflags conf @ dc_cxxflags conf @ [dc_crt conf]
     @ pk_cflags (dc_package conf) @ pk_cxxflags (dc_package conf) @ pk_ldflags (dc_package conf)) = []"

lemma policy_words_filter: "policy_words xs = [] \<Longrightarrow> filter (\<lambda>x. P x \<and> policy_word x) xs = []"
  by (auto simp: filter_empty_conv)

lemma clean_wordsD:
  assumes "clean_words conf"
  shows "policy_words (dc_flags conf) = []" "policy_words (dc_fflags conf) = []" "policy_words (dc_cxxflags conf) = []"
    "policy_words [dc_crt conf] = []" "policy_words (pk_cflags (dc_package conf)) = []"
    "policy_words (pk_cxxflags (dc_package conf)) = []" "policy_words (pk_ldflags (dc_package conf)) = []"
  using assms unfolding clean_words_def filter_append append_is_Nil_conv by blast+

lemma ElfLink_words:
  assumes "clean_words conf" "policy_words tail = []" "ua_args user = ua"
    and rp: "AddRunpathEntries f st conf cxx (ua @ pk_ldflags (dc_package conf)) (ua_runpath user) = (libs, rp)"
  shows "ua_args (fst (ElfLink f st conf cxx user tail)) = ua"
    and "policy_words (snd (ElfLink f st conf cxx user tail)) =
      (''-Wl,-rpath,'' @ RunpathList_Render libs rp)
      # (if ua_shared user then []
         else [''-Wl,--dynamic-linker='' @ dc_libc conf @ ''/lib/''
                 @ (if dc_crt conf = [] then [] else concat (replicate kInterpSlack ''./'')) @ dc_interp conf])"
proof -
  have c: "CollectRunpath f st conf cxx user = (libs, user\<lparr>ua_runpath := rp\<rparr>)"
    using rp assms(3) by (simp add: CollectRunpath_def)
  show "ua_args (fst (ElfLink f st conf cxx user tail)) = ua"
    using assms(3) by (simp add: ElfLink_def c Let_def)
  show "policy_words (snd (ElfLink f st conf cxx user tail)) =
      (''-Wl,-rpath,'' @ RunpathList_Render libs rp)
      # (if ua_shared user then []
         else [''-Wl,--dynamic-linker='' @ dc_libc conf @ ''/lib/''
                 @ (if dc_crt conf = [] then [] else concat (replicate kInterpSlack ''./'')) @ dc_interp conf])"
    using assms(2) clean_wordsD(4) [OF assms(1)]
    by (cases "ua_shared user"; cases "dc_crt conf = []") (simp_all add: ElfLink_def c policy_word_simps split: if_splits)
qed


definition example_fs :: driver_fs where
  "example_fs = \<lparr>fs_canonical = Some, fs_exists = (\<lambda>p. False)\<rparr>"


end
