(* ===== verification/Nix_ATerm.thy ===== *)
theory Nix_ATerm
  imports Nix_Hash Jig_Driver
begin

text \<open>
  Derivations in ATerm form, from \<^verbatim>\<open>pkgs/ji/jig/src/nix_store_mode.cc\<close>.  The JSON library is a pair of
  parameters, a parser \<open>jp\<close> and a printer \<open>jd\<close>, which aborts on text that is not UTF-8.  A JSON value of the wrong type aborts the program
  (\<^verbatim>\<open>JSON_NOEXCEPTION\<close>), which is \<open>None\<close>; the empty text stands for a document that did not parse.
  The members of a JSON object have distinct names.
\<close>

section \<open>Model\<close>

definition quote_char :: "char \<Rightarrow> string" where
  "quote_char chr =
     (if chr = dquote then [backslash, dquote]
      else if chr = backslash then [backslash, backslash]
      else if chr = newline then [backslash, CHR ''n'']
      else if chr = char_of (13 :: nat) then [backslash, CHR ''r'']
      else if chr = tab then [backslash, CHR ''t'']
      else [chr])"

definition Quote :: "string \<Rightarrow> string" where
  "Quote str = [dquote] @ concat (map quote_char str) @ [dquote]"

fun list_items :: "('a \<Rightarrow> string) \<Rightarrow> bool \<Rightarrow> 'a list \<Rightarrow> string" where
  "list_items render first [] = []"
| "list_items render first (item # items) =
     (if \<not> first then '','' else []) @ render item @ list_items render False items"

definition aterm_list :: "('a \<Rightarrow> string) \<Rightarrow> 'a list \<Rightarrow> string" where
  "aterm_list render items = ''['' @ list_items render True items @ '']''"

definition json_items :: "json \<Rightarrow> (string \<times> json) list" where
  "json_items j =
     (case j of
        JObject mem \<Rightarrow> mem
      | JArray js \<Rightarrow> zip (map to_decimal [0..<length js]) js
      | JNull \<Rightarrow> []
      | _ \<Rightarrow> [([], j)])"

definition value_json :: "json \<Rightarrow> string \<Rightarrow> json" where
  "value_json j key = (case json_find j key of None \<Rightarrow> JObject [] | Some v \<Rightarrow> v)"

definition doc_items :: "json \<Rightarrow> string \<Rightarrow> (string \<times> json) list" where
  "doc_items j key = json_items (value_json j key)"

definition get_strings :: "json \<Rightarrow> string list option" where
  "get_strings j = (case j of JArray js \<Rightarrow> json_strings js | _ \<Rightarrow> None)"

definition value_strings :: "json \<Rightarrow> string \<Rightarrow> string list option" where
  "value_strings j key = (case json_find j key of None \<Rightarrow> Some [] | Some v \<Rightarrow> get_strings v)"

definition value_string :: "json \<Rightarrow> string \<Rightarrow> string option" where
  "value_string j key =
     (case j of
        JObject mem \<Rightarrow> (case map_of mem key of None \<Rightarrow> Some [] | Some (JString s) \<Rightarrow> Some s | Some _ \<Rightarrow> None)
      | _ \<Rightarrow> None)"

fun all_some :: "'a option list \<Rightarrow> 'a list option" where
  "all_some [] = Some []"
| "all_some (None # xs) = None"
| "all_some (Some x # xs) = map_option (Cons x) (all_some xs)"

definition input_drv :: "string \<times> json \<Rightarrow> (string \<times> string list) option" where
  "input_drv p = (case p of (path, outs) \<Rightarrow> map_option (\<lambda>names. (path, sort names)) (get_strings outs))"

definition env_entry :: "string \<times> json \<Rightarrow> (string \<times> string) option" where
  "env_entry p = (case p of (key, JString s) \<Rightarrow> Some (key, s) | _ \<Rightarrow> None)"

type_synonym drv_output = "string \<times> string \<times> string \<times> string"

definition drv_output_of :: "string \<times> json \<Rightarrow> drv_output option" where
  "drv_output_of p =
     (case p of (name, spec) \<Rightarrow>
        (case (value_string spec ''path'', value_string spec ''hashAlgo'', value_string spec ''hash'') of
           (Some path, Some algo, Some hash) \<Rightarrow> Some (name, path, algo, hash)
         | _ \<Rightarrow> None))"

record derivation =
  drv_outputs :: "drv_output list"
  drv_inputs :: "(string \<times> string list) list"
  drv_srcs :: "string list"
  drv_system :: string
  drv_builder :: string
  drv_args :: "string list"
  drv_env :: "(string \<times> string) list"

definition output_aterm :: "drv_output \<Rightarrow> string" where
  "output_aterm p = (case p of (name, path, algo, hash) \<Rightarrow>
     ''('' @ Quote name @ '','' @ Quote path @ '','' @ Quote algo @ '','' @ Quote hash @ '')'')"

definition input_aterm :: "string \<times> string list \<Rightarrow> string" where
  "input_aterm p = (case p of (path, names) \<Rightarrow> ''('' @ Quote path @ '','' @ aterm_list Quote names @ '')'')"

definition env_aterm :: "string \<times> string \<Rightarrow> string" where
  "env_aterm p = (case p of (key, v) \<Rightarrow> ''('' @ Quote key @ '','' @ Quote v @ '')'')"

definition derivation_aterm :: "derivation \<Rightarrow> string" where
  "derivation_aterm d =
     ''Derive('' @ aterm_list output_aterm (drv_outputs d) @ '','' @ aterm_list input_aterm (drv_inputs d)
     @ '','' @ aterm_list Quote (drv_srcs d) @ '','' @ Quote (drv_system d) @ '','' @ Quote (drv_builder d)
     @ '','' @ aterm_list Quote (drv_args d) @ '','' @ aterm_list env_aterm (drv_env d) @ '')''"

text \<open>In the order the code looks: input derivations and sources, then the environment, then the rest.\<close>

definition DerivationToATerm :: "(string \<Rightarrow> json) \<Rightarrow> string \<Rightarrow> string option" where
  "DerivationToATerm jp json_text =
     (let drv = jp json_text in
      if (case drv of JObject _ \<Rightarrow> False | _ \<Rightarrow> True) then Some []
      else
        (let outputs = sort_key fst (doc_items drv ''outputs'') in
         case (all_some (map input_drv (doc_items drv ''inputDrvs'')), value_strings drv ''inputSrcs'') of
           (Some inputs, Some srcs) \<Rightarrow>
             (case all_some (map env_entry (doc_items drv ''env'')) of
                None \<Rightarrow> Some []
              | Some env \<Rightarrow>
                  (case (value_strings drv ''args'', all_some (map drv_output_of outputs), value_string drv ''system'',
                         value_string drv ''builder'') of
                     (Some args, Some outs, Some system, Some builder) \<Rightarrow>
                       Some (derivation_aterm \<lparr>drv_outputs = outs, drv_inputs = sort_key fst inputs, drv_srcs = sort srcs,
                               drv_system = system, drv_builder = builder, drv_args = args, drv_env = sort_key fst env\<rparr>)
                   | _ \<Rightarrow> None))
         | _ \<Rightarrow> None))"

definition fetchurl_json :: "string \<Rightarrow> string \<Rightarrow> string \<Rightarrow> string \<Rightarrow> string \<Rightarrow> string \<Rightarrow> json" where
  "fetchurl_json name algo sri url hex out =
     JObject
       [(''name'', JString name), (''system'', JString ''builtin''), (''builder'', JString ''builtin:fetchurl''), (''args'', JArray []),
        (''outputs'', JObject [(''out'', JObject [(''path'', JString out), (''hashAlgo'', JString algo), (''hash'', JString hex)])]),
        (''inputDrvs'', JObject []), (''inputSrcs'', JArray []),
        (''env'', JObject
          [(''name'', JString name), (''out'', JString out), (''outputHash'', JString sri),
           (''outputHashAlgo'', JString (if starts_with sri (algo @ ''-'') then [] else algo)),
           (''outputHashMode'', JString ''flat''), (''url'', JString url), (''urls'', JString url), (''executable'', JString []),
           (''unpack'', JString []),
           (''impureEnvVars'', JString ''http_proxy https_proxy ftp_proxy all_proxy no_proxy''),
           (''preferLocalBuild'', JString ''1''), (''system'', JString ''builtin''), (''builder'', JString ''builtin:fetchurl'')])]"

definition FetchurlDerivation :: "(string \<Rightarrow> json) \<Rightarrow> (json \<Rightarrow> string option) \<Rightarrow> json \<Rightarrow> string \<Rightarrow> string option" where
  "FetchurlDerivation jp jd file out =
     (case (value_string file ''name'', value_string file ''algo'', value_string file ''sri'', value_string file ''url'',
            value_string file ''hex'') of
        (Some name, Some algo, Some sri, Some url, Some hex) \<Rightarrow>
          Option.bind (jd (fetchurl_json name algo sri url hex out)) (DerivationToATerm jp)
      | _ \<Rightarrow> None)"

section \<open>Prefix codes\<close>

text \<open>What makes an ATerm readable: an item is recovered from the front of any text that starts with it, and
  no item starts with the bracket or quote that ends the sequence it stands in.\<close>

locale prefix_code =
  fixes enc :: "'a \<Rightarrow> string"
  assumes cancel: "enc x @ r = enc y @ r' \<Longrightarrow> x = y \<and> r = r'"
begin

lemma cancel_iff: "enc x @ r = enc y @ r' \<longleftrightarrow> x = y \<and> r = r'"
  using cancel by blast

lemma enc_inject: "enc x = enc y \<longleftrightarrow> x = y"
  using cancel [of x "[]" y "[]"] by auto

end

locale item_code = prefix_code +
  fixes stop :: char
  assumes starts: "enc x \<noteq> []" "hd (enc x) \<noteq> stop"
begin

lemma not_stop: "enc x @ r \<noteq> stop # r'"
  using starts [of x] by (cases "enc x") auto

lemma concat_cancel:
  "concat (map enc xs) @ stop # r = concat (map enc ys) @ stop # r' \<Longrightarrow> xs = ys \<and> r = r'"
proof (induction xs arbitrary: ys)
  case Nil
  then show ?case
    using not_stop by (cases ys) (auto dest: sym)
next
  case (Cons x xs)
  then obtain y ys' where "ys = y # ys'"
    using not_stop by (cases ys) auto
  with Cons show ?case
    by (auto simp: cancel_iff)
qed

lemma items_cancel:
  assumes "stop \<noteq> CHR '',''"
  shows "list_items enc False xs @ stop # r = list_items enc False ys @ stop # r' \<Longrightarrow> xs = ys \<and> r = r'"
proof (induction xs arbitrary: ys)
  case Nil
  then show ?case
    using assms by (cases ys) auto
next
  case (Cons x xs)
  then obtain y ys' where "ys = y # ys'"
    using assms by (cases ys) auto
  with Cons show ?case
    by (auto simp: cancel_iff)
qed

end

locale listed_code = item_code enc "CHR '']''" for enc :: "'a \<Rightarrow> string"
begin

lemma list_items_cancel:
  "list_items enc True xs @ CHR '']'' # r = list_items enc True ys @ CHR '']'' # r' \<Longrightarrow> xs = ys \<and> r = r'"
proof (cases xs; cases ys)
  fix x xs' y ys'
  assume "list_items enc True xs @ CHR '']'' # r = list_items enc True ys @ CHR '']'' # r'"
    and "xs = x # xs'" "ys = y # ys'"
  then show "xs = ys \<and> r = r'"
    using items_cancel [of xs' r ys' r'] by (auto simp: cancel_iff)
qed (auto simp: not_stop not_stop [symmetric])

end

sublocale listed_code \<subseteq> lists: prefix_code "aterm_list enc"
proof
  fix xs ys :: "'a list" and r r' :: string
  assume "aterm_list enc xs @ r = aterm_list enc ys @ r'"
  then show "xs = ys \<and> r = r'"
    using list_items_cancel [of xs r ys r'] by (simp add: aterm_list_def)
qed

section \<open>The pieces of a derivation are prefix codes\<close>

lemma quote_char_cancel: "quote_char c @ r = quote_char d @ r' \<Longrightarrow> c = d \<and> r = r'"
  by (auto simp: quote_char_def split: if_splits)

interpretation quoted: item_code quote_char dquote
  by unfold_locales (auto simp: quote_char_def dest: quote_char_cancel split: if_splits)

interpretation quotes: listed_code Quote
proof
  fix x y r r'
  assume "Quote x @ r = Quote y @ r'"
  then show "x = y \<and> r = r'"
    using quoted.concat_cancel [of x r y r'] by (simp add: Quote_def)
qed (simp_all add: Quote_def)

interpretation outputs: listed_code output_aterm
  by unfold_locales (auto simp: output_aterm_def quotes.cancel_iff)

interpretation inputs: listed_code input_aterm
  by unfold_locales (auto simp: input_aterm_def quotes.cancel_iff quotes.lists.cancel_iff)

interpretation envs: listed_code env_aterm
  by unfold_locales (auto simp: env_aterm_def quotes.cancel_iff)

interpretation derivations: prefix_code derivation_aterm
proof
  fix d d' r r'
  assume "derivation_aterm d @ r = derivation_aterm d' @ r'"
  then show "d = d' \<and> r = r'"
    by (cases d; cases d')
       (simp add: derivation_aterm_def outputs.lists.cancel_iff inputs.lists.cancel_iff quotes.lists.cancel_iff
          quotes.cancel_iff envs.lists.cancel_iff)
qed

section \<open>Properties\<close>

lemma all_some_iff: "all_some xs = Some ys \<longleftrightarrow> xs = map Some ys"
  by (induction xs arbitrary: ys rule: all_some.induct) auto

lemma input_drv_key: "input_drv p = Some q \<Longrightarrow> fst q = fst p"
  by (auto simp: input_drv_def split: prod.splits)

lemma env_entry_key: "env_entry p = Some q \<Longrightarrow> fst q = fst p"
  by (auto simp: env_entry_def split: prod.splits json.splits)

lemma drv_output_of_key: "drv_output_of p = Some q \<Longrightarrow> fst q = fst p"
  by (auto simp: drv_output_of_def split: prod.splits option.splits)

lemma entries_keys:
  assumes "\<And>p q. f p = Some q \<Longrightarrow> fst q = fst p" and "map f xs = map Some ys"
  shows "map fst ys = map fst xs"
  using assms(2) by (induction xs arbitrary: ys) (auto dest: assms(1))

lemma entries_set:
  assumes "map f xs = map Some ys"
  shows "f ` set xs = Some ` set ys"
  using assms by (metis list.set_map)

lemma sorted_entries_eq_iff:
  fixes xs ys :: "('k :: linorder \<times> 'v) list"
  assumes "sorted (map fst xs)" "distinct (map fst xs)" "sorted (map fst ys)" "distinct (map fst ys)"
  shows "xs = ys \<longleftrightarrow> set xs = set ys"
proof
  assume eq: "set xs = set ys"
  have "inj_on fst (set xs)"
    using assms(2) by (simp add: distinct_map)
  then show "xs = ys"
    using assms eq by (intro map_sorted_distinct_set_unique [of fst]) simp_all
qed simp

lemma distinct_sort_key_fst [simp]: "distinct (map fst (sort_key fst xs)) \<longleftrightarrow> distinct (map fst xs)"
  by (simp add: distinct_map)

lemma sorted_inputs_agree:
  fixes f :: "'k :: linorder \<times> 'a \<Rightarrow> ('k \<times> 'v) option"
  assumes key: "\<And>p q. f p = Some q \<Longrightarrow> fst q = fst p"
    and "all_some (map f xs) = Some zs" "all_some (map f xs') = Some zs'"
    and "distinct (map fst xs)" "distinct (map fst xs')"
  shows "sort_key fst zs = sort_key fst zs' \<longleftrightarrow> f ` set xs = f ` set xs'"
proof -
  have eqs: "map f xs = map Some zs" "map f xs' = map Some zs'"
    using assms by (simp_all add: all_some_iff)
  have "sort_key fst zs = sort_key fst zs' \<longleftrightarrow> set (sort_key fst zs) = set (sort_key fst zs')"
    using assms(4,5) entries_keys [OF key eqs(1)] entries_keys [OF key eqs(2)]
    by (intro sorted_entries_eq_iff) simp_all
  also have "\<dots> \<longleftrightarrow> Some ` set zs = Some ` set zs'"
    by (simp add: inj_image_eq_iff)
  also have "\<dots> \<longleftrightarrow> f ` set xs = f ` set xs'"
    by (simp add: entries_set [OF eqs(1)] entries_set [OF eqs(2)])
  finally show ?thesis .
qed

lemma sorted_outputs_agree:
  fixes f :: "'k :: linorder \<times> 'a \<Rightarrow> ('k \<times> 'v) option"
  assumes key: "\<And>p q. f p = Some q \<Longrightarrow> fst q = fst p"
    and "all_some (map f (sort_key fst xs)) = Some zs" "all_some (map f (sort_key fst xs')) = Some zs'"
    and "distinct (map fst xs)" "distinct (map fst xs')"
  shows "zs = zs' \<longleftrightarrow> f ` set xs = f ` set xs'"
proof -
  have eqs: "map f (sort_key fst xs) = map Some zs" "map f (sort_key fst xs') = map Some zs'"
    using assms by (simp_all add: all_some_iff)
  have "map fst zs = map fst (sort_key fst xs)" "map fst zs' = map fst (sort_key fst xs')"
    using entries_keys [OF key eqs(1)] entries_keys [OF key eqs(2)] by simp_all
  then have "sort_key fst zs = zs" "sort_key fst zs' = zs'"
    by (simp_all add: sort_key_id_if_sorted)
  then show ?thesis
    using sorted_inputs_agree [OF key assms(2,3)] assms(4,5) by simp
qed

lemma derivation_aterm_nonempty [simp]: "derivation_aterm d \<noteq> []"
  by (simp add: derivation_aterm_def)

lemma DerivationToATerm_some:
  assumes "DerivationToATerm jp str = Some a" "a \<noteq> []"
  obtains ins srcs env args outs system builder where
    "all_some (map input_drv (doc_items (jp str) ''inputDrvs'')) = Some ins"
    "value_strings (jp str) ''inputSrcs'' = Some srcs"
    "all_some (map env_entry (doc_items (jp str) ''env'')) = Some env"
    "value_strings (jp str) ''args'' = Some args"
    "all_some (map drv_output_of (sort_key fst (doc_items (jp str) ''outputs''))) = Some outs"
    "value_string (jp str) ''system'' = Some system" "value_string (jp str) ''builder'' = Some builder"
    "a = derivation_aterm \<lparr>drv_outputs = outs, drv_inputs = sort_key fst ins, drv_srcs = sort srcs, drv_system = system,
           drv_builder = builder, drv_args = args, drv_env = sort_key fst env\<rparr>"
  using assms by (auto simp: DerivationToATerm_def Let_def split: if_splits option.splits)

text \<open>C8. The ATerm text of a derivation is canonical and loses nothing: two documents are written as the same text
  exactly when they have the same system, builder and arguments, the same sources in any order, and the same
  outputs, input derivations and environment in any order.\<close>

theorem aterm_canonical:
  assumes "DerivationToATerm jp str = Some a" "a \<noteq> []" "DerivationToATerm jp str' = Some a'" "a' \<noteq> []"
    and "\<And>key. distinct (map fst (doc_items (jp str) key))" "\<And>key. distinct (map fst (doc_items (jp str') key))"
  shows "a = a' \<longleftrightarrow>
    value_string (jp str) ''system'' = value_string (jp str') ''system'' \<and>
    value_string (jp str) ''builder'' = value_string (jp str') ''builder'' \<and>
    value_strings (jp str) ''args'' = value_strings (jp str') ''args'' \<and>
    map_option mset (value_strings (jp str) ''inputSrcs'') = map_option mset (value_strings (jp str') ''inputSrcs'') \<and>
    drv_output_of ` set (doc_items (jp str) ''outputs'') = drv_output_of ` set (doc_items (jp str') ''outputs'') \<and>
    input_drv ` set (doc_items (jp str) ''inputDrvs'') = input_drv ` set (doc_items (jp str') ''inputDrvs'') \<and>
    env_entry ` set (doc_items (jp str) ''env'') = env_entry ` set (doc_items (jp str') ''env'')"
proof -
  obtain ins srcs env args outs system builder where d:
    "all_some (map input_drv (doc_items (jp str) ''inputDrvs'')) = Some ins"
    "value_strings (jp str) ''inputSrcs'' = Some srcs"
    "all_some (map env_entry (doc_items (jp str) ''env'')) = Some env"
    "value_strings (jp str) ''args'' = Some args"
    "all_some (map drv_output_of (sort_key fst (doc_items (jp str) ''outputs''))) = Some outs"
    "value_string (jp str) ''system'' = Some system" "value_string (jp str) ''builder'' = Some builder"
    "a = derivation_aterm \<lparr>drv_outputs = outs, drv_inputs = sort_key fst ins, drv_srcs = sort srcs, drv_system = system,
           drv_builder = builder, drv_args = args, drv_env = sort_key fst env\<rparr>"
    using assms(1,2) by (rule DerivationToATerm_some)
  obtain ins' srcs' env' args' outs' system' builder' where d':
    "all_some (map input_drv (doc_items (jp str') ''inputDrvs'')) = Some ins'"
    "value_strings (jp str') ''inputSrcs'' = Some srcs'"
    "all_some (map env_entry (doc_items (jp str') ''env'')) = Some env'"
    "value_strings (jp str') ''args'' = Some args'"
    "all_some (map drv_output_of (sort_key fst (doc_items (jp str') ''outputs''))) = Some outs'"
    "value_string (jp str') ''system'' = Some system'" "value_string (jp str') ''builder'' = Some builder'"
    "a' = derivation_aterm \<lparr>drv_outputs = outs', drv_inputs = sort_key fst ins', drv_srcs = sort srcs', drv_system = system',
           drv_builder = builder', drv_args = args', drv_env = sort_key fst env'\<rparr>"
    using assms(3,4) by (rule DerivationToATerm_some)
  have srcs: "sort srcs = sort srcs' \<longleftrightarrow> mset srcs = mset srcs'"
    by (metis mset_sort properties_for_sort sorted_sort)
  have "a = a' \<longleftrightarrow> outs = outs' \<and> sort_key fst ins = sort_key fst ins' \<and> sort srcs = sort srcs' \<and> system = system'
    \<and> builder = builder' \<and> args = args' \<and> sort_key fst env = sort_key fst env'"
    unfolding d(8) d'(8) derivations.enc_inject by simp
  moreover have "outs = outs' \<longleftrightarrow>
    drv_output_of ` set (doc_items (jp str) ''outputs'') = drv_output_of ` set (doc_items (jp str') ''outputs'')"
    using drv_output_of_key d(5) d'(5) assms(5,6) by (rule sorted_outputs_agree)
  moreover have "sort_key fst ins = sort_key fst ins' \<longleftrightarrow>
    input_drv ` set (doc_items (jp str) ''inputDrvs'') = input_drv ` set (doc_items (jp str') ''inputDrvs'')"
    using input_drv_key d(1) d'(1) assms(5,6) by (rule sorted_inputs_agree)
  moreover have "sort_key fst env = sort_key fst env' \<longleftrightarrow>
    env_entry ` set (doc_items (jp str) ''env'') = env_entry ` set (doc_items (jp str') ''env'')"
    using env_entry_key d(3) d'(3) assms(5,6) by (rule sorted_inputs_agree)
  ultimately show ?thesis
    unfolding d(2,4,6,7) d'(2,4,6,7) srcs option.map option.inject by argo
qed

definition example_documents :: "string \<Rightarrow> json" where
  "example_documents str =
     (let env = [(''a'', JString ''x''), (''b'', JString ''y'')] in
      JObject [(''system'', JString ''s''), (''inputSrcs'', JArray [JString ''p'']),
               (''env'', JObject (if str = [] then env else rev env))])"

lemma example_documents_distinct: "distinct (map fst (doc_items (example_documents str) key))"
  by (simp add: doc_items_def json_items_def value_json_def json_find_def example_documents_def Let_def
      split: option.splits json.splits if_splits)

theorem aterm_canonical_witness:
  "DerivationToATerm example_documents [] = DerivationToATerm example_documents ''r'' \<and>
   DerivationToATerm example_documents [] \<noteq> Some [] \<and> DerivationToATerm example_documents [] \<noteq> None"
proof -
  obtain a where a: "DerivationToATerm example_documents [] = Some a" "a \<noteq> []"
    by (simp add: DerivationToATerm_def example_documents_def doc_items_def json_items_def value_json_def json_find_def
        value_strings_def value_string_def get_strings_def env_entry_def)
  obtain a' where a': "DerivationToATerm example_documents ''r'' = Some a'" "a' \<noteq> []"
    by (simp add: DerivationToATerm_def example_documents_def doc_items_def json_items_def value_json_def json_find_def
        value_strings_def value_string_def get_strings_def env_entry_def)
  have "a = a'"
    by (subst aterm_canonical [OF a a' example_documents_distinct example_documents_distinct])
       (auto simp: example_documents_def doc_items_def json_items_def value_json_def json_find_def
          value_strings_def value_string_def get_strings_def env_entry_def)
  then show ?thesis
    using a a' by simp
qed

end
