(* ===== verification/Nix_Daemon.thy ===== *)
theory Nix_Daemon
  imports Nix_ATerm
begin

text \<open>
  The worker protocol client and the \<^verbatim>\<open>nix-store\<close> verbs of \<^verbatim>\<open>pkgs/ji/jig/src/nix_store_mode.cc\<close>.  A
  connection is the record of what each coming \<^verbatim>\<open>read\<close> finds (an empty chunk: end of file or error) and
  how many bytes each coming \<^verbatim>\<open>write\<close> takes (none: error), of the bytes that went out, the output buffer
  and the lines printed on standard error.  Words of the protocol are 64 bit machine words.
\<close>

unbundle bit_operations_syntax

section \<open>Connection\<close>

record daemon =
  d_rx :: "string list"
  d_tx :: "nat list"
  d_sent :: string
  d_out :: string
  d_log :: "string list"

definition kWorkerMagic1 :: "64 word" where
  "kWorkerMagic1 = 0x6e697863"

definition kWorkerMagic2 :: "64 word" where
  "kWorkerMagic2 = 0x6478696f"

definition kProtocolVersion :: "64 word" where
  "kProtocolVersion = push_bit 8 1 OR 38"

definition kStderrNext :: "64 word" where
  "kStderrNext = 0x6f6c6d67"

definition kStderrLast :: "64 word" where
  "kStderrLast = 0x616c7473"

definition kStderrError :: "64 word" where
  "kStderrError = 0x63787470"

definition kStderrStartActivity :: "64 word" where
  "kStderrStartActivity = 0x53545254"

definition kStderrStopActivity :: "64 word" where
  "kStderrStopActivity = 0x53544f50"

definition kStderrResult :: "64 word" where
  "kStderrResult = 0x52534c54"

definition kOpAddToStore :: "64 word" where
  "kOpAddToStore = 7"

definition kOpSubmitOutput :: "64 word" where
  "kOpSubmitOutput = 1000"

definition kWordBytes :: nat where
  "kWordBytes = 8"

definition kByteBits :: nat where
  "kByteBits = 8"

definition kByteMask :: "64 word" where
  "kByteMask = 0xff"

definition log_line :: "string \<Rightarrow> daemon \<Rightarrow> daemon" where
  "log_line line d = d\<lparr>d_log := d_log d @ [line]\<rparr>"

definition word_bytes :: "64 word \<Rightarrow> string" where
  "word_bytes w = map (\<lambda>i. char_of (unat (drop_bit (i * kByteBits) w AND kByteMask))) [0..<kWordBytes]"

definition WriteWord :: "64 word \<Rightarrow> daemon \<Rightarrow> daemon" where
  "WriteWord w d = d\<lparr>d_out := d_out d @ word_bytes w\<rparr>"

definition pad_bytes :: "nat \<Rightarrow> nat" where
  "pad_bytes n = (kWordBytes - n mod kWordBytes) mod kWordBytes"

definition WriteString :: "string \<Rightarrow> daemon \<Rightarrow> daemon" where
  "WriteString str d =
     (let d1 = WriteWord (of_nat (length str)) d in
      d1\<lparr>d_out := d_out d1 @ str @ replicate (pad_bytes (length str)) (char_of (0 :: nat))\<rparr>)"

function flush_loop :: "string \<Rightarrow> daemon \<Rightarrow> bool \<times> daemon" where
  "flush_loop waiting d =
     (if waiting = [] then (True, d\<lparr>d_out := []\<rparr>)
      else case d_tx d of
        [] \<Rightarrow> (False, d)
      | k # ks \<Rightarrow>
          if k = 0 then (False, d\<lparr>d_tx := ks\<rparr>)
          else flush_loop (drop k waiting) (d\<lparr>d_tx := ks, d_sent := d_sent d @ take k waiting\<rparr>))"
  by pat_completeness auto
termination
  by (relation "measure (\<lambda>(waiting, d). length waiting)") auto

declare flush_loop.simps [simp del]

definition Flush :: "daemon \<Rightarrow> bool \<times> daemon" where
  "Flush d = flush_loop (d_out d) d"

function read_bytes :: "nat \<Rightarrow> string \<Rightarrow> daemon \<Rightarrow> string option \<times> daemon" where
  "read_bytes remaining buf d =
     (if remaining = 0 then (Some buf, d)
      else case d_rx d of
        [] \<Rightarrow> (None, d)
      | ch # rest \<Rightarrow>
          if ch = [] then (None, d\<lparr>d_rx := rest\<rparr>)
          else read_bytes (remaining - length ch) (buf @ take remaining ch)
                 (d\<lparr>d_rx := (if length ch \<le> remaining then rest else drop remaining ch # rest)\<rparr>))"
  by pat_completeness auto
termination
  by (relation "measure (\<lambda>(remaining, buf, d). remaining)") auto

declare read_bytes.simps [simp del]

definition ReadBytes :: "nat \<Rightarrow> daemon \<Rightarrow> string option \<times> daemon" where
  "ReadBytes cnt d = read_bytes cnt [] d"

definition bytes_word :: "string \<Rightarrow> 64 word" where
  "bytes_word bytes =
     fold (\<lambda>i value. value OR push_bit (i * kByteBits) (of_nat (of_char (bytes ! i)))) [0..<kWordBytes] 0"

definition ReadWord :: "daemon \<Rightarrow> 64 word option \<times> daemon" where
  "ReadWord d =
     (case ReadBytes kWordBytes d of
        (None, d1) \<Rightarrow> (None, d1)
      | (Some bytes, d1) \<Rightarrow> (Some (bytes_word bytes), d1))"

definition kMaxString :: "64 word" where
  "kMaxString = push_bit 20 64"

definition ReadString :: "daemon \<Rightarrow> string option \<times> daemon" where
  "ReadString d =
     (case ReadWord d of
        (None, d1) \<Rightarrow> (None, d1)
      | (Some sz, d1) \<Rightarrow>
          if kMaxString < sz then (None, d1)
          else (case ReadBytes (unat sz) d1 of
                  (None, d2) \<Rightarrow> (None, d2)
                | (Some str, d2) \<Rightarrow>
                    (case ReadBytes (pad_bytes (unat sz)) d2 of
                       (None, d3) \<Rightarrow> (None, d3)
                     | (Some _, d3) \<Rightarrow> (Some str, d3))))"

fun skip_strings :: "nat \<Rightarrow> daemon \<Rightarrow> bool \<times> daemon" where
  "skip_strings 0 d = (True, d)"
| "skip_strings (Suc n) d =
     (case ReadString d of
        (None, d1) \<Rightarrow> (False, d1)
      | (Some _, d1) \<Rightarrow> skip_strings n d1)"

definition SkipStrings :: "daemon \<Rightarrow> bool \<times> daemon" where
  "SkipStrings d =
     (case ReadWord d of
        (None, d1) \<Rightarrow> (False, d1)
      | (Some cnt, d1) \<Rightarrow> skip_strings (unat cnt) d1)"

definition value_or :: "'a option \<Rightarrow> 'a \<Rightarrow> 'a" where
  "value_or v x = (case v of None \<Rightarrow> x | Some y \<Rightarrow> y)"

fun skip_fields :: "nat \<Rightarrow> daemon \<Rightarrow> daemon" where
  "skip_fields 0 d = d"
| "skip_fields (Suc n) d =
     (case ReadWord d of
        (w, d1) \<Rightarrow> skip_fields n (if value_or w 0 = 1 then snd (ReadString d1) else snd (ReadWord d1)))"

definition SkipFields :: "daemon \<Rightarrow> daemon" where
  "SkipFields d = (case ReadWord d of (cnt, d1) \<Rightarrow> skip_fields (unat (value_or cnt 0)) d1)"

section \<open>Log traffic\<close>

text \<open>Each round of the loop reads a word first, so that what is left to read gets shorter.\<close>

definition unread :: "daemon \<Rightarrow> nat" where
  "unread d = length (concat (d_rx d))"

lemma read_bytes_unread:
  "read_bytes n buf d = (r, d') \<Longrightarrow> unread d' \<le> unread d \<and> (r \<noteq> None \<longrightarrow> unread d' + n = unread d)"
proof (induction n buf d rule: read_bytes.induct)
  case (1 n buf d)
  then show ?case
    by (subst (asm) (2) read_bytes.simps) (force simp: unread_def split: if_splits list.splits)
qed

lemma ReadBytes_unread:
  "ReadBytes n d = (r, d') \<Longrightarrow> unread d' \<le> unread d \<and> (r \<noteq> None \<longrightarrow> unread d' + n = unread d)"
  unfolding ReadBytes_def by (rule read_bytes_unread)

lemma ReadWord_unread:
  "ReadWord d = (r, d') \<Longrightarrow> unread d' \<le> unread d \<and> (r \<noteq> None \<longrightarrow> unread d' < unread d)"
  by (auto simp: ReadWord_def kWordBytes_def split: prod.splits option.splits dest!: ReadBytes_unread)

lemma ReadString_unread: "ReadString d = (r, d') \<Longrightarrow> unread d' \<le> unread d"
  by (auto simp: ReadString_def split: prod.splits option.splits if_splits dest!: ReadBytes_unread ReadWord_unread)

lemma snd_ReadWord_unread: "unread (snd (ReadWord d)) \<le> unread d"
  using ReadWord_unread [of d] by (cases "ReadWord d") auto

lemma snd_ReadString_unread: "unread (snd (ReadString d)) \<le> unread d"
  using ReadString_unread [of d] by (cases "ReadString d") auto

lemma skip_fields_unread: "unread (skip_fields n d) \<le> unread d"
proof (induction n arbitrary: d)
  case (Suc n)
  obtain w d1 where d1: "ReadWord d = (w, d1)" by fastforce
  let ?d2 = "if value_or w 0 = 1 then snd (ReadString d1) else snd (ReadWord d1)"
  have "unread ?d2 \<le> unread d1"
    by (simp add: snd_ReadWord_unread snd_ReadString_unread)
  then show ?case
    using Suc [of ?d2] ReadWord_unread [OF d1] by (simp add: d1)
qed simp

lemma SkipFields_unread: "unread (SkipFields d) \<le> unread d"
proof -
  obtain cnt d1 where d1: "ReadWord d = (cnt, d1)" by fastforce
  then show ?thesis
    using ReadWord_unread [OF d1] skip_fields_unread [of "unat (value_or cnt 0)" d1] by (simp add: SkipFields_def)
qed

definition start_activity :: "daemon \<Rightarrow> daemon" where
  "start_activity d =
     (let d3 = snd (ReadWord (snd (ReadWord (snd (ReadWord d))))) in
      snd (ReadWord (SkipFields (snd (ReadString d3)))))"

definition activity_result :: "daemon \<Rightarrow> daemon" where
  "activity_result d = SkipFields (snd (ReadWord (snd (ReadWord d))))"

definition print_next :: "daemon \<Rightarrow> daemon" where
  "print_next d = (case ReadString d of (str, d1) \<Rightarrow> log_line (value_or str []) d1)"

definition print_error :: "daemon \<Rightarrow> daemon" where
  "print_error d =
     (case ReadString (snd (ReadString (snd (ReadWord (snd (ReadString d)))))) of
        (msg, d1) \<Rightarrow> log_line (''nix-daemon: '' @ value_or msg ''?'') d1)"

lemma unread_log_line [simp]: "unread (log_line l d) = unread d"
  by (simp add: unread_def log_line_def)

lemma start_activity_unread: "unread (start_activity d) \<le> unread d"
  unfolding start_activity_def Let_def
  by (meson order_trans snd_ReadWord_unread snd_ReadString_unread SkipFields_unread)

lemma activity_result_unread: "unread (activity_result d) \<le> unread d"
  unfolding activity_result_def by (meson order_trans snd_ReadWord_unread SkipFields_unread)

lemma print_next_unread: "unread (print_next d) \<le> unread d"
  by (auto simp: print_next_def split: prod.splits dest: ReadString_unread)

function DrainStderr :: "daemon \<Rightarrow> bool \<times> daemon" where
  "DrainStderr d =
     (case ReadWord d of
        (None, d1) \<Rightarrow> (False, d1)
      | (Some msg, d1) \<Rightarrow>
          if msg = kStderrLast then (True, d1)
          else if msg = kStderrError then (False, print_error d1)
          else if msg = kStderrNext then DrainStderr (print_next d1)
          else if msg = kStderrStartActivity then DrainStderr (start_activity d1)
          else if msg = kStderrStopActivity then DrainStderr (snd (ReadWord d1))
          else if msg = kStderrResult then DrainStderr (activity_result d1)
          else (False, log_line (''jig nix-store: unexpected daemon message 0x'' @ to_base 16 (unat msg)) d1))"
  by pat_completeness auto
termination
proof (relation "measure unread", goal_cases)
  case (2 d r d1 msg)
  then show ?case
    using ReadWord_unread [of d r d1] print_next_unread [of d1] by (simp add: 2)
next
  case (3 d r d1 msg)
  then show ?case
    using ReadWord_unread [of d r d1] start_activity_unread [of d1] by (simp add: 3)
next
  case (4 d r d1 msg)
  then show ?case
    using ReadWord_unread [of d r d1] snd_ReadWord_unread [of d1] by (simp add: 4)
next
  case (5 d r d1 msg)
  then show ?case
    using ReadWord_unread [of d r d1] activity_result_unread [of d1] by (simp add: 5)
qed simp

declare DrainStderr.simps [simp del]

section \<open>Operations\<close>

text \<open>\<open>and_then\<close> is one operand of a chain of \<^verbatim>\<open>&&\<close>: the rest is evaluated when it succeeds.\<close>

definition and_then :: "bool \<times> daemon \<Rightarrow> (daemon \<Rightarrow> bool \<times> daemon) \<Rightarrow> bool \<times> daemon" where
  "and_then p f = (case p of (ok, d) \<Rightarrow> if ok then f d else (False, d))"

definition has_word :: "daemon \<Rightarrow> bool \<times> daemon" where
  "has_word d = (case ReadWord d of (w, d1) \<Rightarrow> (w \<noteq> None, d1))"

definition has_string :: "daemon \<Rightarrow> bool \<times> daemon" where
  "has_string d = (case ReadString d of (w, d1) \<Rightarrow> (w \<noteq> None, d1))"

definition read_path_info :: "daemon \<Rightarrow> bool \<times> daemon" where
  "read_path_info d =
     and_then (and_then (and_then (and_then (and_then (and_then (and_then (has_string d) has_string) SkipStrings)
       has_word) has_word) has_word) SkipStrings) has_string"

definition AddToStore :: "string \<Rightarrow> string \<Rightarrow> string list \<Rightarrow> string \<Rightarrow> daemon \<Rightarrow> string option \<times> daemon" where
  "AddToStore name meth references contents d =
     (let d1 = WriteString meth (WriteString name (WriteWord kOpAddToStore d));
          refs = sort references;
          d2 = fold WriteString refs (WriteWord (of_nat (length refs)) d1);
          d3 = WriteWord (of_nat (length contents)) (WriteWord 0 d2);
          d4 = WriteWord 0 (d3\<lparr>d_out := d_out d3 @ contents\<rparr>)
      in case and_then (Flush d4) DrainStderr of
           (False, d5) \<Rightarrow> (None, d5)
         | (True, d5) \<Rightarrow>
             (case ReadString d5 of
                (None, d6) \<Rightarrow> (None, d6)
              | (Some path, d6) \<Rightarrow>
                  (case read_path_info d6 of
                     (False, d7) \<Rightarrow> (None, d7)
                   | (True, d7) \<Rightarrow> (Some path, d7))))"

definition SubmitOutput :: "string \<Rightarrow> string \<Rightarrow> daemon \<Rightarrow> bool \<times> daemon" where
  "SubmitOutput path out d =
     (let d1 = WriteString out (WriteString path (WriteWord 0 (WriteWord kOpSubmitOutput d)))
      in and_then (and_then (Flush d1) DrainStderr) has_word)"

definition kFeatures :: "string list" where
  "kFeatures = [''realisation-with-path-not-hash'', ''disable-set-options'', ''add-to-store-scanning'', ''submit-output'']"

definition bad_magic :: "daemon \<Rightarrow> bool \<times> daemon" where
  "bad_magic d = (False, log_line ''jig nix-store: bad daemon magic'' d)"

definition exchange_features :: "daemon \<Rightarrow> bool \<times> daemon" where
  "exchange_features d =
     (let d1 = fold WriteString kFeatures (WriteWord (of_nat (length kFeatures)) d)
      in and_then (and_then (Flush d1) SkipStrings)
           (\<lambda>d2. and_then (and_then (and_then (Flush (WriteWord 0 (WriteWord 0 d2))) has_string) has_word) DrainStderr))"

definition Handshake :: "daemon \<Rightarrow> bool \<times> daemon" where
  "Handshake d =
     (case Flush (WriteWord kProtocolVersion (WriteWord kWorkerMagic1 d)) of
        (False, d1) \<Rightarrow> bad_magic d1
      | (True, d1) \<Rightarrow>
          (case ReadWord d1 of
             (magic, d2) \<Rightarrow>
               if magic \<noteq> Some kWorkerMagic2 then bad_magic d2
               else (case ReadWord d2 of
                       (version, d3) \<Rightarrow>
                         if version = None \<or> min (value_or version 0) kProtocolVersion < kProtocolVersion
                         then (False, log_line (''jig nix-store: daemon protocol '' @ to_decimal (unat (value_or version 0))
                                                  @ '' too old'') d3)
                         else exchange_features d3)))"

text \<open>The environment and the answers of \<^verbatim>\<open>socket\<close> and \<^verbatim>\<open>connect\<close>.\<close>

record nix_host =
  nix_remote :: string
  nix_offline :: string
  sun_path_size :: nat
  socket_fails :: bool
  connect_fails :: bool

definition Daemon_Connect :: "nix_host \<Rightarrow> daemon \<Rightarrow> bool \<times> daemon" where
  "Daemon_Connect h d =
     (let remote = nix_remote h in
      if \<not> starts_with remote ''unix://''
      then (False, log_line (''jig nix-store: NIX_REMOTE='' @ remote
              @ '' is not a unix:// socket (builder-rpc-v0 missing?)'') d)
      else (let remote = drop (length ''unix://'') remote in
            if sun_path_size h \<le> length remote then (False, d)
            else if socket_fails h \<or> connect_fails h
            then (False, log_line (''jig nix-store: cannot connect to '' @ remote) d)
            else Handshake d))"

record nix_store =
  offline :: bool
  daemon_conn :: daemon

definition Store_Open :: "nix_host \<Rightarrow> nix_store \<Rightarrow> bool \<times> nix_store" where
  "Store_Open h st =
     (if nix_offline h \<noteq> [] then (True, st\<lparr>offline := True\<rparr>)
      else (case Daemon_Connect h (daemon_conn st) of (ok, d) \<Rightarrow> (ok, st\<lparr>offline := False, daemon_conn := d\<rparr>)))"

definition AddText :: "string \<Rightarrow> string \<Rightarrow> string list \<Rightarrow> string \<Rightarrow> nix_store \<Rightarrow> string option \<times> nix_store" where
  "AddText sdir name references contents st =
     (if offline st then (Some (TextPath sdir name references contents), st)
      else (case AddToStore name ''text:sha256'' references contents (daemon_conn st) of
              (path, d) \<Rightarrow> (path, st\<lparr>daemon_conn := d\<rparr>)))"

definition Submit :: "string \<Rightarrow> string \<Rightarrow> nix_store \<Rightarrow> bool \<times> nix_store" where
  "Submit drv out st =
     (if offline st then (True, st)
      else (case SubmitOutput drv out (daemon_conn st) of (ok, d) \<Rightarrow> (ok, st\<lparr>daemon_conn := d\<rparr>)))"

section \<open>Verbs\<close>

text \<open>How a run ends: its exit status with what it printed, or the abort of the JSON library.\<close>

datatype nix_end = Exit nat string | Abort

definition store_log :: "string \<Rightarrow> nix_store \<Rightarrow> nix_store" where
  "store_log line st = st\<lparr>daemon_conn := log_line line (daemon_conn st)\<rparr>"

definition add_verb :: "(string \<Rightarrow> json) \<Rightarrow> string \<Rightarrow> bool \<Rightarrow> string \<Rightarrow> string list \<Rightarrow> string \<Rightarrow> nix_store
    \<Rightarrow> nix_end \<times> nix_store" where
  "add_verb jp sdir is_drv name references input st =
     (case (if is_drv then DerivationToATerm jp input else Some input) of
        None \<Rightarrow> (Abort, st)
      | Some contents \<Rightarrow>
          if is_drv \<and> contents = []
          then (Exit 1 [], store_log ''jig nix-store: derivation JSON did not parse'' st)
          else (case AddText sdir name references contents st of
                  (None, st1) \<Rightarrow> (Exit 1 [], st1)
                | (Some path, st1) \<Rightarrow> (Exit 0 (path @ [newline]), st1)))"

fun fetch_files :: "(string \<Rightarrow> json) \<Rightarrow> (json \<Rightarrow> string option) \<Rightarrow> string \<Rightarrow> json list \<Rightarrow> json list \<Rightarrow> nix_store
    \<Rightarrow> nix_end \<times> nix_store" where
  "fetch_files jp jd sdir [] result st =
     ((case jd (JArray result) of None \<Rightarrow> Abort | Some str \<Rightarrow> Exit 0 (str @ [newline])), st)"
| "fetch_files jp jd sdir (file # files) result st =
     (case (value_string file ''name'', value_string file ''algo'', value_string file ''hex'') of
        (Some name, Some algo, Some hex) \<Rightarrow>
          (let out = FixedOutputPath sdir name algo hex in
           case FetchurlDerivation jp jd file out of
             None \<Rightarrow> (Abort, st)
           | Some contents \<Rightarrow>
               (case AddText sdir (name @ ''.drv'') [] contents st of
                  (None, st1) \<Rightarrow> (Exit 1 [], st1)
                | (Some drv, st1) \<Rightarrow>
                    fetch_files jp jd sdir files
                      (result @ [JObject [(''drv'', JString drv), (''out'', JString out)]]) st1))
      | _ \<Rightarrow> (Abort, st))"

definition RunNixStoreMode :: "(string \<Rightarrow> json) \<Rightarrow> (json \<Rightarrow> string option) \<Rightarrow> nix_host \<Rightarrow> string \<Rightarrow> string list
    \<Rightarrow> string \<Rightarrow> nix_store \<Rightarrow> nix_end \<times> nix_store" where
  "RunNixStoreMode jp jd h sdir args input st =
     (case args of
        [] \<Rightarrow> (Exit 2 [], store_log (''usage: jig nix-store add-text|add-drv|fetchurls|submit ''
               @ [char_of (226 :: nat), char_of (128 :: nat), char_of (166 :: nat)]) st)
      | verb # operands \<Rightarrow>
          (case Store_Open h st of
             (False, st1) \<Rightarrow> (Exit 1 [], st1)
           | (True, st1) \<Rightarrow>
               if (verb = ''add-text'' \<or> verb = ''add-drv'') \<and> 2 \<le> length args
               then add_verb jp sdir (verb = ''add-drv'') (hd operands) (tl operands) input st1
               else if verb = ''fetchurls'' \<and> length args = 1
               then (case jp input of
                       JArray files \<Rightarrow> fetch_files jp jd sdir files [] st1
                     | _ \<Rightarrow> (Exit 1 [], store_log ''jig nix-store fetchurls: expected a JSON array'' st1))
               else if verb = ''submit'' \<and> length args = 3
               then (case Submit (operands ! 0) (operands ! 1) st1 of
                       (ok, st2) \<Rightarrow> (Exit (if ok then 0 else 1) [], st2))
               else (Exit 2 [], store_log ''jig nix-store: bad arguments'' st1)))"

section \<open>Words and strings on the wire\<close>

lemma byte_of_word: "of_nat (unat (v AND 255) mod 256) = (v AND 255 :: 64 word)"
proof -
  have m: "(255 :: 64 word) = mask 8"
    by (simp add: mask_eq_exp_minus_1)
  have "unat (v AND 255) < 256"
    unfolding m take_bit_eq_mask [symmetric] using take_bit_nat_less_exp [of 8 "unat v"]
    by (simp add: unsigned_take_bit_eq)
  then show ?thesis
    by simp
qed

lemma byte_in_place: "push_bit k (drop_bit k w) AND push_bit k 255 = (w AND push_bit k 255 :: 64 word)"
  by (rule bit_word_eqI) (auto simp: bit_simps)

lemma bytes_word_bytes [simp]: "bytes_word (word_bytes w) = w"
proof -
  have "bytes_word (word_bytes w) = fold (\<lambda>i v. v OR (w AND push_bit (i * 8) 255)) [0..<8] 0"
    unfolding bytes_word_def word_bytes_def kWordBytes_def kByteBits_def kByteMask_def
    by (rule fold_cong) (simp_all add: byte_of_word byte_in_place)
  also have "\<dots> = w AND 0xffffffffffffffff"
    by (simp add: upt_rec bit.conj_disj_distrib [symmetric])
  also have "(0xffffffffffffffff :: 64 word) = - 1"
    by simp
  finally show ?thesis
    by simp
qed

lemma length_word_bytes [simp]: "length (word_bytes w) = kWordBytes"
  by (simp add: word_bytes_def)

section \<open>Reading\<close>

definition available :: "daemon \<Rightarrow> string" where
  "available d = concat (takeWhile (\<lambda>ch. ch \<noteq> []) (d_rx d))"

lemma read_bytes_available:
  "n \<le> length (available d) \<Longrightarrow>
   \<exists>d'. read_bytes n buf d = (Some (buf @ take n (available d)), d') \<and> available d' = drop n (available d)"
proof (induction n buf d rule: read_bytes.induct)
  case (1 n buf d)
  show ?case
  proof (cases "n = 0 \<or> d_rx d = [] \<or> hd (d_rx d) = []")
    case True
    with 1 show ?thesis
      by (cases "n = 0"; cases "d_rx d") (auto simp: read_bytes.simps [of n buf d] read_bytes.simps [of 0 buf d] available_def)
  next
    case False
    then obtain ch rest where rx: "d_rx d = ch # rest" "ch \<noteq> []" "n \<noteq> 0" by (cases "d_rx d") auto
    with 1 show ?thesis
      by (subst read_bytes.simps) (auto simp: available_def)
  qed
qed

text \<open>Reading leaves the rest of the connection as it is.\<close>

definition d_frame :: "daemon \<Rightarrow> nat list \<times> string \<times> string \<times> string list" where
  "d_frame d = (d_tx d, d_sent d, d_out d, d_log d)"

lemma d_frame_rx [simp]: "d_frame (d\<lparr>d_rx := r\<rparr>) = d_frame d"
  by (simp add: d_frame_def)

lemma read_bytes_frame: "d_frame (snd (read_bytes n buf d)) = d_frame d"
proof (induction n buf d rule: read_bytes.induct)
  case (1 n buf d)
  then show ?case
    by (subst read_bytes.simps) (auto split: list.splits)
qed

lemma ReadBytes_frame: "ReadBytes n d = (r, d') \<Longrightarrow> d_frame d' = d_frame d"
  using read_bytes_frame [of n "[]" d] by (simp add: ReadBytes_def)

lemma ReadWord_frame: "ReadWord d = (r, d') \<Longrightarrow> d_frame d' = d_frame d"
  by (auto simp: ReadWord_def split: prod.splits option.splits dest!: ReadBytes_frame)

lemma ReadString_frame: "ReadString d = (r, d') \<Longrightarrow> d_frame d' = d_frame d"
  by (auto simp: ReadString_def split: prod.splits option.splits if_splits dest!: ReadBytes_frame ReadWord_frame)

definition string_bytes :: "string \<Rightarrow> string" where
  "string_bytes str = word_bytes (of_nat (length str)) @ str @ replicate (pad_bytes (length str)) (char_of (0 :: nat))"

definition string_ok :: "string \<Rightarrow> bool" where
  "string_ok str \<longleftrightarrow> length str \<le> 67108864"

interpretation raw: message_source available "ReadBytes n" "\<lambda>s. s" "\<lambda>s. length s = n" for n
proof
  fix x r :: string and d
  assume "length x = n" "available d = x @ r"
  then show "\<exists>d'. ReadBytes n d = (Some x, d') \<and> available d' = r"
    using read_bytes_available [of n d "[]"] by (auto simp: ReadBytes_def)
qed

interpretation wire_words: message_source available ReadWord word_bytes "\<lambda>_. True"
proof
  fix w r d
  assume "available d = word_bytes w @ r"
  then obtain d' where "ReadBytes kWordBytes d = (Some (word_bytes w), d')" "available d' = r"
    using raw.recv_enc [of "word_bytes w" kWordBytes d r] by auto
  then show "\<exists>d'. ReadWord d = (Some w, d') \<and> available d' = r"
    by (simp add: ReadWord_def)
qed

lemma string_ok_size:
  assumes "string_ok str"
  shows "unat (of_nat (length str) :: 64 word) = length str" "\<not> kMaxString < of_nat (length str)"
proof -
  show u: "unat (of_nat (length str) :: 64 word) = length str"
    using assms by (simp add: string_ok_def unsigned_of_nat take_bit_eq_mod)
  have "unat kMaxString = 67108864"
    by (simp add: kMaxString_def)
  with u assms show "\<not> kMaxString < of_nat (length str)"
    by (simp add: word_less_nat_alt string_ok_def)
qed

interpretation wire_strings: message_source available ReadString string_bytes string_ok
proof
  fix str r :: string and d
  let ?pad = "replicate (pad_bytes (length str)) (char_of (0 :: nat))"
  assume ok: "string_ok str" and "available d = string_bytes str @ r"
  then obtain d1 where d1: "ReadWord d = (Some (of_nat (length str)), d1)" "available d1 = str @ ?pad @ r"
    using wire_words.recv_enc [of d "of_nat (length str)" "str @ ?pad @ r"] by (auto simp: string_bytes_def)
  then obtain d2 where d2: "ReadBytes (length str) d1 = (Some str, d2)" "available d2 = ?pad @ r"
    using raw.recv_enc [of str "length str" d1 "?pad @ r"] by auto
  then obtain d3 where d3: "ReadBytes (pad_bytes (length str)) d2 = (Some ?pad, d3)" "available d3 = r"
    using raw.recv_enc [of ?pad "pad_bytes (length str)" d2 r] by auto
  show "\<exists>d'. ReadString d = (Some str, d') \<and> available d' = r"
    using d1(1) d2(1) d3 string_ok_size [OF ok] by (simp add: ReadString_def)
qed

definition strings_bytes :: "string list \<Rightarrow> string" where
  "strings_bytes strs = word_bytes (of_nat (length strs)) @ concat (map string_bytes strs)"

definition strings_ok :: "string list \<Rightarrow> bool" where
  "strings_ok strs \<longleftrightarrow> length strs < 2 ^ 64 \<and> (\<forall>str \<in> set strs. string_ok str)"

text \<open>One step of reading past a message: the state that follows, with what it leaves to read.\<close>

definition consumes :: "daemon \<Rightarrow> daemon \<Rightarrow> string \<Rightarrow> bool" where
  "consumes d d' r \<longleftrightarrow> available d' = r \<and> d_frame d' = d_frame d"

lemma consumes_word:
  "available d = word_bytes w @ r \<Longrightarrow> \<exists>d'. ReadWord d = (Some w, d') \<and> consumes d d' r"
  using wire_words.recv_enc [of d w r] ReadWord_frame [of d] by (auto simp: consumes_def)

lemma consumes_string:
  "string_ok str \<Longrightarrow> available d = string_bytes str @ r \<Longrightarrow> \<exists>d'. ReadString d = (Some str, d') \<and> consumes d d' r"
  using wire_strings.recv_enc [of str d r] ReadString_frame [of d] by (auto simp: consumes_def)

lemma consumes_trans: "consumes d d1 r1 \<Longrightarrow> consumes d1 d2 r2 \<Longrightarrow> consumes d d2 r2"
  by (simp add: consumes_def)

lemma consumes_available: "consumes d d' r \<Longrightarrow> available d' = r"
  by (simp add: consumes_def)

lemma skip_strings_consumes:
  "\<forall>str \<in> set strs. string_ok str \<Longrightarrow> available d = concat (map string_bytes strs) @ r \<Longrightarrow>
   \<exists>d'. skip_strings (length strs) d = (True, d') \<and> consumes d d' r"
proof (induction strs arbitrary: d)
  case (Cons str strs)
  then obtain d1 where d1: "ReadString d = (Some str, d1)" "consumes d d1 (concat (map string_bytes strs) @ r)"
    using consumes_string [of str d "concat (map string_bytes strs) @ r"] by auto
  then obtain d2 where "skip_strings (length strs) d1 = (True, d2)" "consumes d1 d2 r"
    using Cons.IH [of d1] Cons.prems by (auto simp: consumes_available)
  with d1 show ?case
    by (auto intro: consumes_trans)
qed (simp add: consumes_def)

lemma unat_length: "length xs < 2 ^ 64 \<Longrightarrow> unat (of_nat (length xs) :: 64 word) = length xs"
  by (simp add: unsigned_of_nat take_bit_eq_mod)

lemma consumes_strings:
  assumes "strings_ok strs" "available d = strings_bytes strs @ r"
  shows "\<exists>d'. SkipStrings d = (True, d') \<and> consumes d d' r"
proof -
  obtain d1 where d1: "ReadWord d = (Some (of_nat (length strs)), d1)" "consumes d d1 (concat (map string_bytes strs) @ r)"
    using assms consumes_word [of d "of_nat (length strs)" "concat (map string_bytes strs) @ r"]
    by (auto simp: strings_bytes_def)
  then obtain d2 where "skip_strings (length strs) d1 = (True, d2)" "consumes d1 d2 r"
    using assms skip_strings_consumes [of strs d1 r] by (auto simp: strings_ok_def consumes_available)
  with d1 assms show ?thesis
    by (auto simp: SkipStrings_def strings_ok_def unat_length intro: consumes_trans)
qed

section \<open>The daemon's side of the protocol\<close>

datatype log_field = IntField "64 word" | StringField string

fun field_bytes :: "log_field \<Rightarrow> string" where
  "field_bytes (IntField w) = word_bytes 0 @ word_bytes w"
| "field_bytes (StringField str) = word_bytes 1 @ string_bytes str"

fun field_ok :: "log_field \<Rightarrow> bool" where
  "field_ok (IntField w) \<longleftrightarrow> True"
| "field_ok (StringField str) \<longleftrightarrow> string_ok str"

definition fields_bytes :: "log_field list \<Rightarrow> string" where
  "fields_bytes fs = word_bytes (of_nat (length fs)) @ concat (map field_bytes fs)"

definition fields_ok :: "log_field list \<Rightarrow> bool" where
  "fields_ok fs \<longleftrightarrow> length fs < 2 ^ 64 \<and> (\<forall>f \<in> set fs. field_ok f)"

datatype log_msg =
    LogNext string
  | LogStart "64 word" "64 word" "64 word" string "log_field list" "64 word"
  | LogStop "64 word"
  | LogResult "64 word" "64 word" "log_field list"

fun msg_bytes :: "log_msg \<Rightarrow> string" where
  "msg_bytes (LogNext str) = word_bytes kStderrNext @ string_bytes str"
| "msg_bytes (LogStart act lvl ty str fs par) =
     word_bytes kStderrStartActivity @ word_bytes act @ word_bytes lvl @ word_bytes ty @ string_bytes str
     @ fields_bytes fs @ word_bytes par"
| "msg_bytes (LogStop act) = word_bytes kStderrStopActivity @ word_bytes act"
| "msg_bytes (LogResult act ty fs) = word_bytes kStderrResult @ word_bytes act @ word_bytes ty @ fields_bytes fs"

fun msg_ok :: "log_msg \<Rightarrow> bool" where
  "msg_ok (LogNext str) \<longleftrightarrow> string_ok str"
| "msg_ok (LogStart act lvl ty str fs par) \<longleftrightarrow> string_ok str \<and> fields_ok fs"
| "msg_ok (LogStop act) \<longleftrightarrow> True"
| "msg_ok (LogResult act ty fs) \<longleftrightarrow> fields_ok fs"

fun msg_lines :: "log_msg \<Rightarrow> string list" where
  "msg_lines (LogNext str) = [str]"
| "msg_lines _ = []"

lemma consumes_snd_word: "available d = word_bytes w @ r \<Longrightarrow> consumes d (snd (ReadWord d)) r"
  using consumes_word by fastforce

lemma consumes_snd_string:
  "string_ok str \<Longrightarrow> available d = string_bytes str @ r \<Longrightarrow> consumes d (snd (ReadString d)) r"
  using consumes_string by fastforce

lemma consumes_refl: "available d = r \<Longrightarrow> consumes d d r"
  by (simp add: consumes_def)

lemma skip_fields_consumes:
  "\<forall>f \<in> set fs. field_ok f \<Longrightarrow> available d = concat (map field_bytes fs) @ r \<Longrightarrow>
   consumes d (skip_fields (length fs) d) r"
proof (induction fs arbitrary: d)
  case (Cons f fs)
  let ?r = "concat (map field_bytes fs) @ r"
  show ?case
  proof (cases f)
    case (IntField w)
    then obtain d1 where d1: "ReadWord d = (Some 0, d1)" "consumes d d1 (word_bytes w @ ?r)"
      using Cons.prems consumes_word [of d 0 "word_bytes w @ ?r"] by auto
    then have d2: "consumes d1 (snd (ReadWord d1)) ?r"
      by (intro consumes_snd_word) (simp add: consumes_available)
    then have "consumes (snd (ReadWord d1)) (skip_fields (length fs) (snd (ReadWord d1))) r"
      using Cons by (simp add: consumes_available)
    with d1 d2 show ?thesis
      by (auto simp: value_or_def intro: consumes_trans)
  next
    case (StringField str)
    then obtain d1 where d1: "ReadWord d = (Some 1, d1)" "consumes d d1 (string_bytes str @ ?r)"
      using Cons.prems consumes_word [of d 1 "string_bytes str @ ?r"] by auto
    then have d2: "consumes d1 (snd (ReadString d1)) ?r"
      using StringField Cons.prems by (intro consumes_snd_string) (simp_all add: consumes_available)
    then have "consumes (snd (ReadString d1)) (skip_fields (length fs) (snd (ReadString d1))) r"
      using Cons by (simp add: consumes_available)
    with d1 d2 show ?thesis
      by (auto simp: value_or_def intro: consumes_trans)
  qed
qed (simp add: consumes_def)

lemma consumes_fields:
  assumes "fields_ok fs" "available d = fields_bytes fs @ r"
  shows "consumes d (SkipFields d) r"
proof -
  obtain d1 where d1: "ReadWord d = (Some (of_nat (length fs)), d1)" "consumes d d1 (concat (map field_bytes fs) @ r)"
    using assms consumes_word [of d "of_nat (length fs)" "concat (map field_bytes fs) @ r"]
    by (auto simp: fields_bytes_def)
  then have "consumes d1 (skip_fields (length fs) d1) r"
    using assms skip_fields_consumes [of fs d1 r] by (auto simp: fields_ok_def consumes_available)
  with d1 assms show ?thesis
    by (auto simp: SkipFields_def value_or_def fields_ok_def unat_length intro: consumes_trans)
qed

definition answers :: "daemon \<Rightarrow> daemon \<Rightarrow> string list \<Rightarrow> string \<Rightarrow> bool" where
  "answers d d' lines r \<longleftrightarrow>
     available d' = r \<and> d_frame d' = (d_tx d, d_sent d, d_out d, d_log d @ lines)"

lemma answers_consumes: "answers d d' [] r \<longleftrightarrow> consumes d d' r"
  by (simp add: answers_def consumes_def d_frame_def)

lemma answers_trans: "answers d d1 l1 r1 \<Longrightarrow> answers d1 d2 l2 r2 \<Longrightarrow> answers d d2 (l1 @ l2) r2"
  by (simp add: answers_def d_frame_def)

lemma consumes_answers: "consumes d d1 r1 \<Longrightarrow> answers d1 d2 l r2 \<Longrightarrow> answers d d2 l r2"
  by (simp add: answers_def consumes_def d_frame_def)

lemma answers_available: "answers d d' l r \<Longrightarrow> available d' = r"
  by (simp add: answers_def)

lemma answers_log: "consumes d d' r \<Longrightarrow> answers d (log_line l d') [l] r"
  by (simp add: answers_def consumes_def d_frame_def log_line_def available_def)

lemma answers_next:
  "string_ok str \<Longrightarrow> available d = string_bytes str @ r \<Longrightarrow> answers d (print_next d) [str] r"
  using consumes_string [of str d r] by (auto simp: print_next_def value_or_def intro: answers_log)

lemma consumes_start:
  assumes "string_ok str" "fields_ok fs"
    and "available d = word_bytes act @ word_bytes lvl @ word_bytes ty @ string_bytes str @ fields_bytes fs @ word_bytes par @ r"
  shows "consumes d (start_activity d) r"
proof -
  let ?d1 = "snd (ReadWord d)" let ?d2 = "snd (ReadWord ?d1)" let ?d3 = "snd (ReadWord ?d2)"
  let ?d4 = "snd (ReadString ?d3)" let ?d5 = "SkipFields ?d4"
  let ?r4 = "fields_bytes fs @ word_bytes par @ r"
  have 1: "consumes d ?d1 (word_bytes lvl @ word_bytes ty @ string_bytes str @ ?r4)"
    using assms(3) by (rule consumes_snd_word)
  have 2: "consumes ?d1 ?d2 (word_bytes ty @ string_bytes str @ ?r4)"
    using consumes_available [OF 1] by (rule consumes_snd_word)
  have 3: "consumes ?d2 ?d3 (string_bytes str @ ?r4)"
    using consumes_available [OF 2] by (rule consumes_snd_word)
  have 4: "consumes ?d3 ?d4 ?r4"
    using assms(1) consumes_available [OF 3] by (rule consumes_snd_string)
  have 5: "consumes ?d4 ?d5 (word_bytes par @ r)"
    using assms(2) consumes_available [OF 4] by (rule consumes_fields)
  have 6: "consumes ?d5 (snd (ReadWord ?d5)) r"
    using consumes_available [OF 5] by (rule consumes_snd_word)
  show ?thesis
    unfolding start_activity_def Let_def
    by (meson 1 2 3 4 5 6 consumes_trans)
qed

lemma consumes_result:
  assumes "fields_ok fs" and "available d = word_bytes act @ word_bytes ty @ fields_bytes fs @ r"
  shows "consumes d (activity_result d) r"
proof -
  let ?d1 = "snd (ReadWord d)" let ?d2 = "snd (ReadWord ?d1)"
  have 1: "consumes d ?d1 (word_bytes ty @ fields_bytes fs @ r)"
    using assms(2) by (rule consumes_snd_word)
  have 2: "consumes ?d1 ?d2 (fields_bytes fs @ r)"
    using consumes_available [OF 1] by (rule consumes_snd_word)
  have 3: "consumes ?d2 (SkipFields ?d2) r"
    using assms(1) consumes_available [OF 2] by (rule consumes_fields)
  show ?thesis
    unfolding activity_result_def by (meson 1 2 3 consumes_trans)
qed

lemmas stderr_codes = kStderrNext_def kStderrLast_def kStderrError_def kStderrStartActivity_def
  kStderrStopActivity_def kStderrResult_def

lemma drain_message:
  assumes "msg_ok m" "available d = msg_bytes m @ r"
  shows "\<exists>d'. DrainStderr d = DrainStderr d' \<and> answers d d' (msg_lines m) r"
proof (cases m)
  case (LogNext str)
  then obtain d1 where d1: "ReadWord d = (Some kStderrNext, d1)" "consumes d d1 (string_bytes str @ r)"
    using assms consumes_word [of d kStderrNext "string_bytes str @ r"] by auto
  then have "answers d1 (print_next d1) [str] r"
    using assms LogNext by (intro answers_next) (auto simp: consumes_available)
  with d1 LogNext show ?thesis
    by (intro exI [of _ "print_next d1"]) (auto simp: DrainStderr.simps [of d] stderr_codes intro: consumes_answers)
next
  case (LogStart act lvl ty str fs par)
  let ?r = "word_bytes act @ word_bytes lvl @ word_bytes ty @ string_bytes str @ fields_bytes fs @ word_bytes par @ r"
  obtain d1 where d1: "ReadWord d = (Some kStderrStartActivity, d1)" "consumes d d1 ?r"
    using assms LogStart consumes_word [of d kStderrStartActivity ?r] by auto
  then have "consumes d1 (start_activity d1) r"
    using assms LogStart by (intro consumes_start) (auto simp: consumes_available)
  with d1 LogStart show ?thesis
    by (intro exI [of _ "start_activity d1"])
       (auto simp: DrainStderr.simps [of d] stderr_codes answers_consumes intro: consumes_trans)
next
  case (LogStop act)
  obtain d1 where d1: "ReadWord d = (Some kStderrStopActivity, d1)" "consumes d d1 (word_bytes act @ r)"
    using assms LogStop consumes_word [of d kStderrStopActivity "word_bytes act @ r"] by auto
  then have "consumes d1 (snd (ReadWord d1)) r"
    by (intro consumes_snd_word) (auto simp: consumes_available)
  with d1 LogStop show ?thesis
    by (intro exI [of _ "snd (ReadWord d1)"])
       (auto simp: DrainStderr.simps [of d] stderr_codes answers_consumes intro: consumes_trans)
next
  case (LogResult act ty fs)
  let ?r = "word_bytes act @ word_bytes ty @ fields_bytes fs @ r"
  obtain d1 where d1: "ReadWord d = (Some kStderrResult, d1)" "consumes d d1 ?r"
    using assms LogResult consumes_word [of d kStderrResult ?r] by auto
  then have "consumes d1 (activity_result d1) r"
    using assms LogResult by (intro consumes_result) (auto simp: consumes_available)
  with d1 LogResult show ?thesis
    by (intro exI [of _ "activity_result d1"])
       (auto simp: DrainStderr.simps [of d] stderr_codes answers_consumes intro: consumes_trans)
qed

lemma drain_messages:
  "\<forall>m \<in> set ms. msg_ok m \<Longrightarrow> available d = concat (map msg_bytes ms) @ r \<Longrightarrow>
   \<exists>d'. DrainStderr d = DrainStderr d' \<and> answers d d' (concat (map msg_lines ms)) r"
proof (induction ms arbitrary: d)
  case Nil
  then show ?case
    by (auto simp: answers_consumes intro: consumes_refl)
next
  case (Cons m ms)
  then obtain d1 where d1: "DrainStderr d = DrainStderr d1" "answers d d1 (msg_lines m) (concat (map msg_bytes ms) @ r)"
    using drain_message [of m d "concat (map msg_bytes ms) @ r"] by auto
  then obtain d2 where "DrainStderr d1 = DrainStderr d2" "answers d1 d2 (concat (map msg_lines ms)) r"
    using Cons.IH [of d1] Cons.prems by (auto simp: answers_available)
  with d1 show ?case
    by (auto intro: answers_trans)
qed

text \<open>How a request ends: the last word of the log, or an error with its kind, level, name and message.\<close>

datatype log_end = LogLast | LogError string "64 word" string string

fun end_bytes :: "log_end \<Rightarrow> string" where
  "end_bytes LogLast = word_bytes kStderrLast"
| "end_bytes (LogError kind lvl name msg) =
     word_bytes kStderrError @ string_bytes kind @ word_bytes lvl @ string_bytes name @ string_bytes msg"

fun end_ok :: "log_end \<Rightarrow> bool" where
  "end_ok LogLast \<longleftrightarrow> True"
| "end_ok (LogError kind lvl name msg) \<longleftrightarrow> string_ok kind \<and> string_ok name \<and> string_ok msg"

fun end_lines :: "log_end \<Rightarrow> string list" where
  "end_lines LogLast = []"
| "end_lines (LogError kind lvl name msg) = [''nix-daemon: '' @ msg]"

lemma print_error_answers:
  assumes "end_ok (LogError kind lvl name msg)"
    and "available d = string_bytes kind @ word_bytes lvl @ string_bytes name @ string_bytes msg @ r"
  shows "answers d (print_error d) [''nix-daemon: '' @ msg] r"
proof -
  let ?d1 = "snd (ReadString d)" let ?d2 = "snd (ReadWord ?d1)" let ?d3 = "snd (ReadString ?d2)"
  have 1: "consumes d ?d1 (word_bytes lvl @ string_bytes name @ string_bytes msg @ r)"
    using assms by (intro consumes_snd_string) auto
  have 2: "consumes ?d1 ?d2 (string_bytes name @ string_bytes msg @ r)"
    using consumes_available [OF 1] by (rule consumes_snd_word)
  have 3: "consumes ?d2 ?d3 (string_bytes msg @ r)"
    using assms(1) consumes_available [OF 2] by (intro consumes_snd_string) auto
  obtain d4 where 4: "ReadString ?d3 = (Some msg, d4)" "consumes ?d3 d4 r"
    using assms(1) consumes_available [OF 3] consumes_string [of msg ?d3 r] by auto
  have "consumes d d4 r"
    by (meson 1 2 3 4(2) consumes_trans)
  with 4(1) show ?thesis
    by (simp add: print_error_def value_or_def answers_log)
qed

lemma drain_end:
  assumes "end_ok e" "available d = end_bytes e @ r"
  shows "\<exists>d'. DrainStderr d = (e = LogLast, d') \<and> answers d d' (end_lines e) r"
proof (cases e)
  case LogLast
  with assms show ?thesis
    using consumes_word [of d kStderrLast r] by (auto simp: DrainStderr.simps [of d] answers_consumes)
next
  case (LogError kind lvl name msg)
  let ?r = "string_bytes kind @ word_bytes lvl @ string_bytes name @ string_bytes msg @ r"
  obtain d1 where d1: "ReadWord d = (Some kStderrError, d1)" "consumes d d1 ?r"
    using assms LogError consumes_word [of d kStderrError ?r] by auto
  then have "answers d1 (print_error d1) [''nix-daemon: '' @ msg] r"
    using assms LogError by (intro print_error_answers) (auto simp: consumes_available)
  with d1 LogError show ?thesis
    by (auto simp: DrainStderr.simps [of d] stderr_codes intro: consumes_answers)
qed

lemma drain_log:
  assumes "\<forall>m \<in> set ms. msg_ok m" "end_ok e" "available d = concat (map msg_bytes ms) @ end_bytes e @ r"
  shows "\<exists>d'. DrainStderr d = (e = LogLast, d') \<and> answers d d' (concat (map msg_lines ms) @ end_lines e) r"
proof -
  obtain d1 where d1: "DrainStderr d = DrainStderr d1" "answers d d1 (concat (map msg_lines ms)) (end_bytes e @ r)"
    using drain_messages [OF assms(1,3)] by auto
  then show ?thesis
    using drain_end [OF assms(2) answers_available [OF d1(2)]] by (auto intro: answers_trans)
qed

section \<open>Requests\<close>

lemma flush_loop_ok:
  "\<forall>k \<in> set (d_tx d). 0 < k \<Longrightarrow> length w \<le> length (d_tx d) \<Longrightarrow>
   \<exists>ks. flush_loop w d = (True, d\<lparr>d_tx := ks, d_sent := d_sent d @ w, d_out := []\<rparr>)"
proof (induction w d rule: flush_loop.induct)
  case (1 w d)
  show ?case
  proof (cases "w = []")
    case True
    then show ?thesis
      by (intro exI [of _ "d_tx d"]) (simp add: flush_loop.simps)
  next
    case False
    with 1 obtain k ks where k: "d_tx d = k # ks" "0 < k" by (cases "d_tx d") auto
    then have "length (drop k w) \<le> length ks"
      using "1.prems"(2) False by (cases w) auto
    then obtain ks' where "flush_loop (drop k w) (d\<lparr>d_tx := ks, d_sent := d_sent d @ take k w\<rparr>)
        = (True, d\<lparr>d_tx := ks', d_sent := d_sent d @ w, d_out := []\<rparr>)"
      using "1.IH" [OF False k(1)] k "1.prems"(1) by auto
    with k False show ?thesis
      by (auto simp: flush_loop.simps [of w d])
  qed
qed

lemma WriteString_out: "WriteString str d = d\<lparr>d_out := d_out d @ string_bytes str\<rparr>"
  by (simp add: WriteString_def WriteWord_def string_bytes_def Let_def)

lemma WriteStrings_out: "fold WriteString strs d = d\<lparr>d_out := d_out d @ concat (map string_bytes strs)\<rparr>"
  by (induction strs arbitrary: d) (simp_all add: WriteString_out)

lemma available_frame [simp]: "available (d\<lparr>d_tx := ks, d_sent := b, d_out := c\<rparr>) = available d"
  by (simp add: available_def)

text \<open>The request as the protocol has it: operation, name, method, references, no repair, the contents
  as one frame, the empty frame.\<close>

definition add_request :: "string \<Rightarrow> string \<Rightarrow> string list \<Rightarrow> string \<Rightarrow> string" where
  "add_request name meth refs contents =
     word_bytes kOpAddToStore @ string_bytes name @ string_bytes meth @ strings_bytes refs @ word_bytes 0
     @ word_bytes (of_nat (length contents)) @ contents @ word_bytes 0"

record path_info =
  pi_path :: string
  pi_deriver :: string
  pi_hash :: string
  pi_refs :: "string list"
  pi_time :: "64 word"
  pi_size :: "64 word"
  pi_ultimate :: "64 word"
  pi_sigs :: "string list"
  pi_ca :: string

definition info_tail :: "path_info \<Rightarrow> string" where
  "info_tail p =
     string_bytes (pi_deriver p) @ string_bytes (pi_hash p) @ strings_bytes (pi_refs p)
     @ word_bytes (pi_time p) @ word_bytes (pi_size p) @ word_bytes (pi_ultimate p) @ strings_bytes (pi_sigs p)
     @ string_bytes (pi_ca p)"

definition info_ok :: "path_info \<Rightarrow> bool" where
  "info_ok p \<longleftrightarrow> string_ok (pi_path p) \<and> string_ok (pi_deriver p) \<and> string_ok (pi_hash p) \<and> strings_ok (pi_refs p)
     \<and> strings_ok (pi_sigs p) \<and> string_ok (pi_ca p)"

definition reads_past :: "(daemon \<Rightarrow> bool \<times> daemon) \<Rightarrow> string \<Rightarrow> bool" where
  "reads_past f b \<longleftrightarrow> (\<forall>d r. available d = b @ r \<longrightarrow> (\<exists>d'. f d = (True, d') \<and> consumes d d' r))"

lemma reads_past_then:
  assumes "reads_past f b" "reads_past g c"
  shows "reads_past (\<lambda>d. and_then (f d) g) (b @ c)"
  unfolding reads_past_def
proof (intro allI impI)
  fix d r
  assume "available d = (b @ c) @ r"
  then obtain d1 where d1: "f d = (True, d1)" "consumes d d1 (c @ r)"
    using assms(1) by (auto simp: reads_past_def)
  then obtain d2 where "g d1 = (True, d2)" "consumes d1 d2 r"
    using assms(2) consumes_available [OF d1(2)] by (auto simp: reads_past_def)
  with d1 show "\<exists>d'. and_then (f d) g = (True, d') \<and> consumes d d' r"
    by (auto simp: and_then_def intro: consumes_trans)
qed

lemma reads_past_string: "string_ok str \<Longrightarrow> reads_past has_string (string_bytes str)"
  using consumes_string by (fastforce simp: reads_past_def has_string_def)

lemma reads_past_word: "reads_past has_word (word_bytes w)"
  using consumes_word by (fastforce simp: reads_past_def has_word_def)

lemma reads_past_strings: "strings_ok strs \<Longrightarrow> reads_past SkipStrings (strings_bytes strs)"
  using consumes_strings by (auto simp: reads_past_def)

lemma read_path_info_past:
  assumes "info_ok p"
  shows "reads_past read_path_info (info_tail p)"
proof -
  have "reads_past read_path_info
    (((((((string_bytes (pi_deriver p) @ string_bytes (pi_hash p)) @ strings_bytes (pi_refs p)) @ word_bytes (pi_time p))
      @ word_bytes (pi_size p)) @ word_bytes (pi_ultimate p)) @ strings_bytes (pi_sigs p)) @ string_bytes (pi_ca p))"
    unfolding read_path_info_def using assms
    by (intro reads_past_then reads_past_string reads_past_word reads_past_strings) (simp_all add: info_ok_def)
  then show ?thesis
    by (simp add: info_tail_def)
qed

text \<open>What the daemon answers: an error, or the description of the new store object.\<close>

datatype add_answer = AddRefused string "64 word" string string | Added path_info

fun add_end :: "add_answer \<Rightarrow> log_end" where
  "add_end (AddRefused kind lvl name msg) = LogError kind lvl name msg"
| "add_end (Added p) = LogLast"

fun add_bytes :: "add_answer \<Rightarrow> string" where
  "add_bytes (AddRefused kind lvl name msg) = []"
| "add_bytes (Added p) = string_bytes (pi_path p) @ info_tail p"

fun add_ok :: "add_answer \<Rightarrow> bool" where
  "add_ok (AddRefused kind lvl name msg) \<longleftrightarrow> True"
| "add_ok (Added p) \<longleftrightarrow> info_ok p"

fun add_result :: "add_answer \<Rightarrow> string option" where
  "add_result (AddRefused kind lvl name msg) = None"
| "add_result (Added p) = Some (pi_path p)"

lemma AddToStore_unfold:
  assumes "flush_loop (d_out d @ add_request name meth (sort refs) contents)
      (d\<lparr>d_out := d_out d @ add_request name meth (sort refs) contents\<rparr>) = (True, d4)"
  shows "AddToStore name meth refs contents d =
    (case DrainStderr d4 of
       (False, d5) \<Rightarrow> (None, d5)
     | (True, d5) \<Rightarrow>
         (case ReadString d5 of
            (None, d6) \<Rightarrow> (None, d6)
          | (Some path, d6) \<Rightarrow> (case read_path_info d6 of (ok, d7) \<Rightarrow> (if ok then Some path else None, d7))))"
  using assms unfolding AddToStore_def Let_def Flush_def
  by (simp add: add_request_def strings_bytes_def WriteString_out WriteStrings_out WriteWord_def and_then_def
      split: option.splits prod.splits bool.splits)


definition example_info :: path_info where
  "example_info = \<lparr>pi_path = ''/s/x'', pi_deriver = [], pi_hash = ''h'', pi_refs = [''/s/y''], pi_time = 1, pi_size = 2,
     pi_ultimate = 0, pi_sigs = [], pi_ca = ''text''\<rparr>"

definition example_reply :: string where
  "example_reply = concat (map msg_bytes [LogNext ''hello'', LogResult 1 2 [StringField ''f'', IntField 3]])
     @ end_bytes (add_end (Added example_info)) @ add_bytes (Added example_info) @ ''more''"

definition example_daemon :: daemon where
  "example_daemon = \<lparr>d_rx = [take 3 example_reply, drop 3 example_reply],
     d_tx = replicate (length (add_request ''x'' ''text:sha256'' [''/s/y''] ''body'')) 1, d_sent = [], d_out = [], d_log = []\<rparr>"

lemma example_daemon_available: "available example_daemon = example_reply"
proof -
  have "3 < length example_reply"
    by (simp add: example_reply_def kWordBytes_def)
  then have "take 3 example_reply \<noteq> []" "drop 3 example_reply \<noteq> []"
    by (auto simp del: length_drop)
  then show ?thesis
    by (simp add: example_daemon_def available_def)
qed


end
