(* ===== verification/Bin_Image.thy ===== *)
theory Bin_Image
  imports Nix_Hash
begin

text \<open>
  \<^verbatim>\<open>BinaryImage\<close> and the parts of \<^verbatim>\<open>pkgs/ji/jig/src/fixup_mode.{h,cc}\<close> that both binary formats use.  An
  image is its bytes.  A value read from it is the bytes of a C struct; \<open>le_at\<close> is a field of it and
  \<open>le_bytes\<close> the bytes of an integer, least significant first.  Offsets are 64 bit: sums that can
  wrap are written with \<open>u64\<close>.  The locale \<open>byte_store\<close> is the contract of reading and writing at
  offsets.
\<close>

unbundle bit_operations_syntax

section \<open>Images\<close>

definition u64 :: "nat \<Rightarrow> nat" where
  "u64 n = n mod 2 ^ 64"

definition nul :: char where
  "nul = CHR 0x00"

definition Image_Read :: "nat \<Rightarrow> string \<Rightarrow> nat \<Rightarrow> string option" where
  "Image_Read sz bytes off =
     (if length bytes < off \<or> length bytes - off < sz then None else Some (substr bytes off sz))"

definition Image_Write :: "string \<Rightarrow> nat \<Rightarrow> string \<Rightarrow> bool \<times> string" where
  "Image_Write bytes off value =
     (if length bytes < off \<or> length bytes - off < length value then (False, bytes)
      else (True, str_replace bytes off (length value) value))"

definition CString :: "string \<Rightarrow> nat \<Rightarrow> string" where
  "CString bytes off =
     (if length bytes \<le> off then []
      else case str_find bytes [nul] off of
        None \<Rightarrow> drop off bytes
      | Some e \<Rightarrow> substr bytes off (e - off))"

definition WritePadded :: "string \<Rightarrow> nat \<Rightarrow> nat \<Rightarrow> string \<Rightarrow> bool \<times> string" where
  "WritePadded bytes off capacity str =
     (if capacity < length str + 1 \<or> length bytes < off \<or> length bytes - off < capacity then (False, bytes)
      else (True, str_replace bytes off capacity (str @ replicate (capacity - length str) nul)))"

definition Overwrite :: "string \<Rightarrow> nat \<Rightarrow> string \<Rightarrow> bool \<times> string" where
  "Overwrite bytes off data =
     (if length bytes < off \<or> length bytes - off < length data then (False, bytes)
      else (True, str_replace bytes off (length data) data))"

text \<open>Integers in memory, least significant byte first.\<close>

definition le_at :: "nat \<Rightarrow> string \<Rightarrow> nat \<Rightarrow> nat" where
  "le_at k bs i = le_value (substr bs i k)"

definition le_bytes :: "nat \<Rightarrow> nat \<Rightarrow> string" where
  "le_bytes k n = map (\<lambda>i. char_of (n div 256 ^ i mod 256)) [0..<k]"

section \<open>Context of a run\<close>

record fixup_ctx =
  fx_prefix :: string
  fx_dest :: string
  own_lib_dirs :: "string list"
  denied :: "string list"
  sdk :: string

text \<open>What the system answers: existing files, \<^verbatim>\<open>fs::relative\<close>, the calls of \<^verbatim>\<open>WriteFile\<close>, the text of
  \<^verbatim>\<open>errno\<close> and the mode of a new file.\<close>

record fixup_host =
  h_store :: store
  h_exists :: "string \<Rightarrow> bool"
  h_relative :: "string \<Rightarrow> string \<Rightarrow> string"
  h_write :: "string \<Rightarrow> write_io"
  h_pid :: nat
  h_errno :: string
  h_new_mode :: nat

text \<open>What a run changes: the count of errors, the files and their modes, what is printed, and for the
  file at hand the image, the log and whether it must be written back.\<close>

record fixup =
  f_errors :: nat
  f_disk :: disk
  f_mode :: "string \<Rightarrow> nat option"
  f_err :: "string list"
  f_out :: "string list"
  f_img :: string
  f_log :: "string list"
  f_dirty :: bool

definition err_line :: "string \<Rightarrow> fixup \<Rightarrow> fixup" where
  "err_line line f = f\<lparr>f_err := f_err f @ [line]\<rparr>"

definition out_line :: "string \<Rightarrow> fixup \<Rightarrow> fixup" where
  "out_line line f = f\<lparr>f_out := f_out f @ [line]\<rparr>"

definition count_error :: "fixup \<Rightarrow> fixup" where
  "count_error f = f\<lparr>f_errors := f_errors f + 1\<rparr>"

definition complain :: "string \<Rightarrow> fixup \<Rightarrow> fixup" where
  "complain line f = count_error (err_line line f)"

definition log_add :: "string \<Rightarrow> fixup \<Rightarrow> fixup" where
  "log_add line f = f\<lparr>f_log := f_log f @ [line]\<rparr>"

definition S_IWUSR :: nat where
  "S_IWUSR = 128"

definition chmod :: "string \<Rightarrow> nat \<Rightarrow> fixup \<Rightarrow> fixup" where
  "chmod path mode f = f\<lparr>f_mode := (f_mode f)(path \<mapsto> mode)\<rparr>"

definition WriteBack :: "fixup_host \<Rightarrow> string \<Rightarrow> string \<Rightarrow> fixup \<Rightarrow> bool \<times> fixup" where
  "WriteBack h path bytes f =
     (let status = f_mode f path;
          f1 = (case status of None \<Rightarrow> f | Some mode \<Rightarrow> chmod path (mode OR S_IWUSR) f);
          (written, disks) = WriteFile (h_write h path) (h_pid h) path bytes (f_disk f1);
          f2 = f1\<lparr>f_disk := last disks,
                  f_mode := (if written then (f_mode f1)(path \<mapsto> h_new_mode h) else f_mode f1)\<rparr>;
          f3 = (case status of None \<Rightarrow> f2 | Some mode \<Rightarrow> chmod path mode f2)
      in (written, if written then f3 else err_line (path @ '': cannot write back: '' @ h_errno h) f3))"

definition RelativeTo :: "string \<Rightarrow> string \<Rightarrow> string \<Rightarrow> string" where
  "RelativeTo dir target anchor =
     (let rel = lexically_relative (lexically_normal target) dir in
      if anchor = [] then rel
      else if rel = ''.'' then anchor else anchor @ ''/'' @ rel)"

definition Final :: "fixup_ctx \<Rightarrow> string \<Rightarrow> string" where
  "Final ctx path =
     (let rel = lexically_relative (lexically_normal path) (fx_prefix ctx) in
      if rel = [] \<or> starts_with rel ''..'' then path else lexically_normal (path_append (fx_dest ctx) rel))"

definition OnDisk :: "fixup_ctx \<Rightarrow> string \<Rightarrow> string" where
  "OnDisk ctx path =
     (let rel = lexically_relative (lexically_normal path) (fx_dest ctx) in
      if rel = [] \<or> starts_with rel ''..'' then path else lexically_normal (path_append (fx_prefix ctx) rel))"

section \<open>Reading what was written\<close>

text \<open>The contract of a store of bytes: a write that succeeds is read back, keeps what does not overlap it,
  and keeps the size; whether it succeeds depends on the size only.\<close>

definition apart :: "nat \<Rightarrow> nat \<Rightarrow> nat \<Rightarrow> nat \<Rightarrow> bool" where
  "apart a m b n \<longleftrightarrow> a + m \<le> b \<or> b + n \<le> a"

lemma apart_sym: "apart a m b n \<longleftrightarrow> apart b n a m"
  by (auto simp: apart_def)

locale byte_store =
  fixes extent :: "'s \<Rightarrow> nat"
    and get :: "nat \<Rightarrow> 's \<Rightarrow> nat \<Rightarrow> string option"
    and put :: "'s \<Rightarrow> nat \<Rightarrow> string \<Rightarrow> bool \<times> 's"
  assumes extent_put: "extent (snd (put s off v)) = extent s"
    and put_ok: "fst (put s off v) \<longleftrightarrow> off + length v \<le> extent s"
    and get_ok: "get n s off \<noteq> None \<longleftrightarrow> off + n \<le> extent s"
    and get_put: "off + length v \<le> extent s \<Longrightarrow> get (length v) (snd (put s off v)) off = Some v"
    and get_apart: "apart off (length v) a n \<Longrightarrow> get n (snd (put s off v)) a = get n s a"
begin

text \<open>A sequence of writes, each an offset and bytes.\<close>

definition put_all :: "(nat \<times> string) list \<Rightarrow> 's \<Rightarrow> 's" where
  "put_all ws s = fold (\<lambda>w s. snd (put s (fst w) (snd w))) ws s"

lemma put_all_simps [simp]:
  "put_all [] s = s" "put_all (w # ws) s = put_all ws (snd (put s (fst w) (snd w)))"
  by (simp_all add: put_all_def)

lemma extent_put_all [simp]: "extent (put_all ws s) = extent s"
  by (induction ws arbitrary: s) (simp_all add: extent_put)

lemma put_all_apart:
  "\<forall>w \<in> set ws. apart (fst w) (length (snd w)) a n \<Longrightarrow> get n (put_all ws s) a = get n s a"
  by (induction ws arbitrary: s) (simp_all add: get_apart)

definition spread :: "(nat \<times> string) list \<Rightarrow> bool" where
  "spread ws \<longleftrightarrow> sorted_wrt (\<lambda>v w. apart (fst v) (length (snd v)) (fst w) (length (snd w))) ws"

lemma put_all_get:
  assumes "spread ws" "w \<in> set ws" "fst w + length (snd w) \<le> extent s"
  shows "get (length (snd w)) (put_all ws s) (fst w) = Some (snd w)"
  using assms
proof (induction ws arbitrary: s)
  case (Cons v ws)
  show ?case
  proof (cases "w = v \<and> w \<notin> set ws")
    case True
    then have "get (length (snd w)) (put_all ws (snd (put s (fst v) (snd v)))) (fst w)
        = get (length (snd w)) (snd (put s (fst v) (snd v))) (fst w)"
      using Cons.prems(1) by (intro put_all_apart) (auto simp: spread_def apart_sym)
    with True Cons.prems(3) show ?thesis
      by (simp add: get_put)
  next
    case False
    with Cons show ?thesis
      by (auto simp: spread_def extent_put)
  qed
qed simp

end

lemma image_write_split:
  assumes "off + length v \<le> length bytes"
  obtains a b c where "bytes = a @ b @ c" "length a = off" "length b = length v" "snd (Image_Write bytes off v) = a @ v @ c"
proof
  show "bytes = take off bytes @ take (length v) (drop off bytes) @ drop (off + length v) bytes"
    by (metis append_take_drop_id drop_drop add.commute)
qed (use assms in \<open>auto simp: Image_Write_def str_replace_def\<close>)

lemma substr_nth: "i < n \<Longrightarrow> off + n \<le> length s \<Longrightarrow> substr s off n ! i = s ! (off + i)"
  by (simp add: substr_def)

lemma substr_eq_iff:
  assumes "length s = length t"
  shows "substr s off n = substr t off n \<longleftrightarrow> (\<forall>i. off \<le> i \<and> i < off + n \<and> i < length s \<longrightarrow> s ! i = t ! i)"
proof
  assume eq: "substr s off n = substr t off n"
  show "\<forall>i. off \<le> i \<and> i < off + n \<and> i < length s \<longrightarrow> s ! i = t ! i"
  proof (intro allI impI)
    fix i
    assume i: "off \<le> i \<and> i < off + n \<and> i < length s"
    then have "take n (drop off s) ! (i - off) = take n (drop off t) ! (i - off)"
      using eq by (simp add: substr_def)
    with i assms show "s ! i = t ! i"
      by (simp add: less_diff_conv2)
  qed
next
  assume "\<forall>i. off \<le> i \<and> i < off + n \<and> i < length s \<longrightarrow> s ! i = t ! i"
  then show "substr s off n = substr t off n"
    using assms by (intro nth_equalityI) (auto simp: substr_def)
qed

lemma Image_Write_nth:
  "off + length v \<le> length bytes \<Longrightarrow> i < length bytes \<Longrightarrow>
   snd (Image_Write bytes off v) ! i = (if off \<le> i \<and> i < off + length v then v ! (i - off) else bytes ! i)"
  by (auto simp: Image_Write_def str_replace_def nth_append min_def)

lemma length_Image_Write [simp]: "length (snd (Image_Write bytes off v)) = length bytes"
  by (auto simp: Image_Write_def str_replace_def)

interpretation image: byte_store length Image_Read Image_Write
proof
  fix s off v n a
  show "fst (Image_Write s off v) \<longleftrightarrow> off + length v \<le> length s"
    by (auto simp: Image_Write_def)
  show "Image_Read n s off \<noteq> None \<longleftrightarrow> off + n \<le> length s"
    by (auto simp: Image_Read_def)
  show "Image_Read (length v) (snd (Image_Write s off v)) off = Some v" if "off + length v \<le> length s"
    using that by (auto simp: Image_Read_def Image_Write_def str_replace_def substr_def)
  show "Image_Read n (snd (Image_Write s off v)) a = Image_Read n s a" if "apart off (length v) a n"
  proof (cases "off + length v \<le> length s")
    case True
    have "substr (snd (Image_Write s off v)) a n = substr s a n"
      using that by (subst substr_eq_iff) (auto simp: apart_def Image_Write_nth [OF True])
    then show ?thesis
      by (simp add: Image_Read_def)
  qed (auto simp: Image_Write_def)
qed simp

lemma Overwrite_Write: "Overwrite = Image_Write"
  by (simp add: fun_eq_iff Overwrite_def Image_Write_def)

lemma WritePadded_Write:
  "length str < capacity \<Longrightarrow> WritePadded bytes off capacity str = Image_Write bytes off (str @ replicate (capacity - length str) nul)"
  by (auto simp: WritePadded_def Image_Write_def)

lemma WritePadded_ok: "fst (WritePadded bytes off capacity str) \<longleftrightarrow> length str < capacity \<and> off + capacity \<le> length bytes"
  by (auto simp: WritePadded_def)

lemma length_WritePadded [simp]: "length (snd (WritePadded bytes off capacity str)) = length bytes"
  by (auto simp: WritePadded_def str_replace_def)

section \<open>Integers and strings in an image\<close>

lemma length_le_bytes [simp]: "length (le_bytes k n) = k"
  by (simp add: le_bytes_def)

lemma le_bytes_Suc: "le_bytes (Suc k) n = char_of (n mod 256) # le_bytes k (n div 256)"
  by (simp add: le_bytes_def upt_conv_Cons map_Suc_upt [symmetric] div_mult2_eq o_def del: upt_Suc)

lemma le_value_le_bytes [simp]: "le_value (le_bytes k n) = n mod 256 ^ k"
proof (induction k arbitrary: n)
  case (Suc k)
  then show ?case
    by (simp add: le_bytes_Suc mod_mult2_eq)
qed (simp add: le_bytes_def)

lemma takeWhile_nul: "nul \<notin> set s \<Longrightarrow> takeWhile (\<lambda>c. c \<noteq> nul) s = s"
  by (rule takeWhile_eq_all_conv [THEN iffD2]) auto

lemma CString_takeWhile: "CString bytes off = takeWhile (\<lambda>c. c \<noteq> nul) (drop off bytes)"
proof (cases "off < length bytes \<and> nul \<in> set (drop off bytes)")
  case True
  let ?k = "length (takeWhile (\<lambda>c. c \<noteq> nul) (drop off bytes))"
  have "str_find bytes [nul] off = Some (off + ?k)"
    using True by (simp add: str_find_def search_char)
  with True show ?thesis
    by (simp add: CString_def substr_def takeWhile_eq_take [symmetric])
next
  case False
  then show ?thesis
    by (auto simp: CString_def str_find_def search_char takeWhile_nul)
qed

lemma CString_no_nul: "nul \<notin> set (CString bytes off)"
  by (auto simp: CString_takeWhile dest: set_takeWhileD)

lemma CString_at:
  assumes "drop off bytes = str @ nul # r" "nul \<notin> set str"
  shows "CString bytes off = str"
proof -
  have "takeWhile (\<lambda>c. c \<noteq> nul) (str @ nul # r) = str @ takeWhile (\<lambda>c. c \<noteq> nul) (nul # r)"
    using assms(2) by (intro takeWhile_append2) auto
  then show ?thesis
    by (simp add: CString_takeWhile assms(1))
qed

lemma CString_end:
  assumes "off + length (CString bytes off) < length bytes"
  shows "drop off bytes = CString bytes off @ nul # drop (off + length (CString bytes off) + 1) bytes"
proof -
  let ?s = "drop off bytes" and ?t = "takeWhile (\<lambda>c. c \<noteq> nul) (drop off bytes)"
  have lt: "length ?t < length ?s"
    using assms by (simp add: CString_takeWhile)
  then have "?s = ?t @ ?s ! length ?t # drop (Suc (length ?t)) ?s"
    by (metis Cons_nth_drop_Suc takeWhile_dropWhile_id dropWhile_eq_drop)
  moreover have "?s ! length ?t = nul"
    using lt nth_length_takeWhile by blast
  ultimately show ?thesis
    by (simp add: CString_takeWhile add.commute)
qed

text \<open>A string is read the same from two images that agree up to its end.\<close>

lemma CString_cong:
  assumes "length s = length t" "off + length (CString s off) < length s"
    and "\<And>i. off \<le> i \<Longrightarrow> i \<le> off + length (CString s off) \<Longrightarrow> t ! i = s ! i"
  shows "CString t off = CString s off"
proof -
  let ?n = "length (CString s off)"
  have "take (?n + 1) (drop off t) = take (?n + 1) (drop off s)"
    using assms by (intro nth_equalityI) auto
  also have "\<dots> = CString s off @ [nul]"
    using CString_end [OF assms(2)] by simp
  finally have "drop off t = (CString s off @ [nul]) @ drop (?n + 1) (drop off t)"
    by (metis append_take_drop_id)
  then show ?thesis
    by (intro CString_at [of off t "CString s off" "drop (?n + 1) (drop off t)"]) (simp_all add: CString_no_nul)
qed

end
