(* ===== verification/Elf_Fixup.thy ===== *)
theory Elf_Fixup
  imports Bin_Image
begin

text \<open>
  \<^verbatim>\<open>pkgs/ji/jig/src/elf_fixup.cc\<close>: making the RUNPATH, the NEEDED names and the program interpreter of an
  ELF file relative to its place.  The structs of \<^verbatim>\<open>elf.h\<close> are their bytes, a field is a \<open>le_at\<close> of them.
  A loop over the entries of a section visits the list \<open>table_offsets\<close>, whose fuel is the size of the
  image.
\<close>

section \<open>Structs of elf.h\<close>

definition SHT_DYNAMIC :: nat where "SHT_DYNAMIC = 6"
definition SHT_NOBITS :: nat where "SHT_NOBITS = 8"
definition SHT_DYNSYM :: nat where "SHT_DYNSYM = 11"
definition SHT_GNU_verneed :: nat where "SHT_GNU_verneed = 0x6ffffffe"
definition DT_NULL :: nat where "DT_NULL = 0"
definition DT_NEEDED :: nat where "DT_NEEDED = 1"
definition DT_RPATH :: nat where "DT_RPATH = 15"
definition DT_RUNPATH :: nat where "DT_RUNPATH = 29"
definition PT_NULL :: nat where "PT_NULL = 0"
definition PT_LOAD :: nat where "PT_LOAD = 1"
definition PT_INTERP :: nat where "PT_INTERP = 3"
definition ET_EXEC :: nat where "ET_EXEC = 2"
definition ET_DYN :: nat where "ET_DYN = 3"

definition Ehdr_size :: nat where "Ehdr_size = 64"
definition Shdr_size :: nat where "Shdr_size = 64"
definition Phdr_size :: nat where "Phdr_size = 56"
definition Dyn_size :: nat where "Dyn_size = 16"
definition Sym_size :: nat where "Sym_size = 24"
definition Verneed_size :: nat where "Verneed_size = 16"

definition e_type :: "string \<Rightarrow> nat" where "e_type eh = le_at 2 eh 16"
definition e_entry :: "string \<Rightarrow> nat" where "e_entry eh = le_at 8 eh 24"
definition e_phoff :: "string \<Rightarrow> nat" where "e_phoff eh = le_at 8 eh 32"
definition e_shoff :: "string \<Rightarrow> nat" where "e_shoff eh = le_at 8 eh 40"
definition e_phentsize :: "string \<Rightarrow> nat" where "e_phentsize eh = le_at 2 eh 54"
definition e_phnum :: "string \<Rightarrow> nat" where "e_phnum eh = le_at 2 eh 56"
definition e_shentsize :: "string \<Rightarrow> nat" where "e_shentsize eh = le_at 2 eh 58"
definition e_shnum :: "string \<Rightarrow> nat" where "e_shnum eh = le_at 2 eh 60"

definition p_type :: "string \<Rightarrow> nat" where "p_type ph = le_at 4 ph 0"
definition p_offset :: "string \<Rightarrow> nat" where "p_offset ph = le_at 8 ph 8"
definition p_vaddr :: "string \<Rightarrow> nat" where "p_vaddr ph = le_at 8 ph 16"
definition p_filesz :: "string \<Rightarrow> nat" where "p_filesz ph = le_at 8 ph 32"

definition d_tag :: "string \<Rightarrow> nat" where "d_tag dyn = le_at 8 dyn 0"
definition d_val :: "string \<Rightarrow> nat" where "d_val dyn = le_at 8 dyn 8"
definition d_un_offset :: nat where "d_un_offset = 8"

definition st_name :: "string \<Rightarrow> nat" where "st_name sy = le_at 4 sy 0"
definition st_value :: "string \<Rightarrow> nat" where "st_value sy = le_at 8 sy 8"

definition vn_file :: "string \<Rightarrow> nat" where "vn_file ent = le_at 4 ent 4"
definition vn_next :: "string \<Rightarrow> nat" where "vn_next ent = le_at 4 ent 12"
definition vn_file_offset :: nat where "vn_file_offset = 4"

section \<open>Sections\<close>

record elf_section =
  sec_type :: nat
  sec_offset :: nat
  sec_size :: nat
  sec_link :: nat
  sec_entsize :: nat

definition section_of :: "string \<Rightarrow> elf_section" where
  "section_of shdr = \<lparr>sec_type = le_at 4 shdr 4, sec_offset = le_at 8 shdr 24, sec_size = le_at 8 shdr 32,
     sec_link = le_at 4 shdr 40, sec_entsize = le_at 8 shdr 56\<rparr>"

definition SectionEnd :: "string \<Rightarrow> elf_section \<Rightarrow> nat" where
  "SectionEnd elf sec =
     (if length elf \<le> sec_offset sec then 0
      else sec_offset sec + min (sec_size sec) (length elf - sec_offset sec))"

fun read_sections :: "string \<Rightarrow> string \<Rightarrow> nat list \<Rightarrow> elf_section list" where
  "read_sections elf ehdr [] = []"
| "read_sections elf ehdr (i # is) =
     (case Image_Read Shdr_size elf (u64 (e_shoff ehdr + i * e_shentsize ehdr)) of
        None \<Rightarrow> []
      | Some shdr \<Rightarrow> section_of shdr # read_sections elf ehdr is)"

definition ReadSections :: "string \<Rightarrow> string \<Rightarrow> elf_section list" where
  "ReadSections elf ehdr = read_sections elf ehdr [0..<e_shnum ehdr]"

text \<open>\<^verbatim>\<open>for (off = begin; off < end; off += step)\<close>, 64 bit.\<close>

fun entry_offsets :: "nat \<Rightarrow> nat \<Rightarrow> nat \<Rightarrow> nat \<Rightarrow> nat list" where
  "entry_offsets 0 off fin step = []"
| "entry_offsets (Suc fuel) off fin step =
     (if off < fin then off # entry_offsets fuel (u64 (off + step)) fin step else [])"

definition table_offsets :: "string \<Rightarrow> elf_section \<Rightarrow> nat \<Rightarrow> nat list" where
  "table_offsets elf sec step = entry_offsets (length elf) (sec_offset sec) (SectionEnd elf sec) step"

definition find_section :: "nat \<Rightarrow> elf_section list \<Rightarrow> elf_section option" where
  "find_section ty sections = find (\<lambda>sec. sec_type sec = ty) sections"

section \<open>The dynamic section\<close>

record needed =
  nd_name :: string
  nd_val_offset :: nat
  nd_vn_files :: "nat list"

record dynamic_info =
  di_needed :: "needed list"
  di_dynstr :: nat
  di_runpath :: "nat option"

definition no_dynamic :: dynamic_info where
  "no_dynamic = \<lparr>di_needed = [], di_dynstr = 0, di_runpath = None\<rparr>"

fun dyn_loop :: "string \<Rightarrow> nat \<Rightarrow> nat list \<Rightarrow> dynamic_info \<Rightarrow> dynamic_info" where
  "dyn_loop elf dynstr [] info = info"
| "dyn_loop elf dynstr (off # offs) info =
     (case Image_Read Dyn_size elf off of
        None \<Rightarrow> info
      | Some dyn \<Rightarrow>
          if d_tag dyn = DT_NULL then info
          else
            (let str = u64 (dynstr + d_val dyn);
                 info1 = (if d_tag dyn = DT_NEEDED
                          then info\<lparr>di_needed := di_needed info
                                 @ [\<lparr>nd_name = CString elf str, nd_val_offset = u64 (off + d_un_offset), nd_vn_files = []\<rparr>]\<rparr>
                          else info);
                 info2 = (if d_tag dyn = DT_RUNPATH \<or> d_tag dyn = DT_RPATH
                          then info1\<lparr>di_runpath := Some str\<rparr> else info1)
             in dyn_loop elf dynstr offs info2))"

definition add_vn_file :: "string \<Rightarrow> nat \<Rightarrow> needed \<Rightarrow> needed" where
  "add_vn_file file off lib =
     (if nd_name lib = file then lib\<lparr>nd_vn_files := nd_vn_files lib @ [off]\<rparr> else lib)"

text \<open>The entry read at \<open>off\<close> lies in the image, so adding a 32 bit \<open>vn_next\<close> does not wrap.\<close>

function verneed_loop :: "string \<Rightarrow> nat \<Rightarrow> nat \<Rightarrow> needed list \<Rightarrow> needed list" where
  "verneed_loop elf dynstr off libs =
     (if off = 0 then libs
      else case Image_Read Verneed_size elf off of
        None \<Rightarrow> libs
      | Some ent \<Rightarrow>
          (let file = CString elf (u64 (dynstr + vn_file ent));
               libs1 = map (add_vn_file file (off + vn_file_offset)) libs
           in verneed_loop elf dynstr (if vn_next ent = 0 then 0 else off + vn_next ent) libs1))"
  by pat_completeness auto
termination
proof (relation "measure (\<lambda>(elf, dynstr, off, libs). if off = 0 then 0 else length elf + 1 - off)", goal_cases)
  case (2 elf dynstr off libs ent name libs1)
  then have "off + Verneed_size \<le> length elf"
    using image.get_ok [of Verneed_size elf off] by simp
  with 2 show ?case
    by (auto simp: Verneed_size_def)
qed simp

declare verneed_loop.simps [simp del]

definition ReadDynamic :: "string \<Rightarrow> elf_section list \<Rightarrow> dynamic_info" where
  "ReadDynamic elf sections =
     (case find_section SHT_DYNAMIC sections of
        None \<Rightarrow> no_dynamic
      | Some dyn \<Rightarrow>
          if length sections \<le> sec_link dyn \<or> sec_type (sections ! sec_link dyn) = SHT_NOBITS then no_dynamic
          else
            (let dynstr = sec_offset (sections ! sec_link dyn);
                 info = dyn_loop elf dynstr (table_offsets elf dyn Dyn_size) (no_dynamic\<lparr>di_dynstr := dynstr\<rparr>);
                 start = (case find_section SHT_GNU_verneed sections of None \<Rightarrow> 0 | Some sec \<Rightarrow> sec_offset sec)
             in info\<lparr>di_needed := verneed_loop elf dynstr start (di_needed info)\<rparr>))"

definition dynsym_table :: "elf_section list \<Rightarrow> (elf_section \<times> nat) option" where
  "dynsym_table sections =
     (case find_section SHT_DYNSYM sections of
        None \<Rightarrow> None
      | Some sec \<Rightarrow>
          if sec_entsize sec < Sym_size \<or> length sections \<le> sec_link sec then None
          else Some (sec, sec_offset (sections ! sec_link sec)))"

definition sym_inside :: "string \<Rightarrow> nat \<Rightarrow> nat \<Rightarrow> nat \<Rightarrow> nat \<Rightarrow> bool" where
  "sym_inside elf strtab lo hi off =
     (case Image_Read Sym_size elf off of
        None \<Rightarrow> False
      | Some sy \<Rightarrow> lo < u64 (strtab + st_name sy) \<and> u64 (strtab + st_name sy) < hi)"

definition SymbolInside :: "string \<Rightarrow> elf_section list \<Rightarrow> nat \<Rightarrow> nat \<Rightarrow> string option" where
  "SymbolInside elf sections lo hi =
     (case dynsym_table sections of
        None \<Rightarrow> None
      | Some (sec, strtab) \<Rightarrow>
          (case find (sym_inside elf strtab lo hi) (table_offsets elf sec (sec_entsize sec)) of
             None \<Rightarrow> None
           | Some off \<Rightarrow> map_option (\<lambda>sy. CString elf (u64 (strtab + st_name sy))) (Image_Read Sym_size elf off)))"

section \<open>RUNPATH\<close>

record runpath_dir =
  rp_entry :: string
  rp_dir :: string
  rp_keep :: bool

definition IsLibc :: "fixup_host \<Rightarrow> runpath_dir \<Rightarrow> bool" where
  "IsLibc h rp = h_exists h (path_append (rp_dir rp) ''libc.so.6'')"

definition kOrigin :: string where
  "kOrigin = ''$ORIGIN''"

definition runpath_entry :: "fixup_host \<Rightarrow> fixup_ctx \<Rightarrow> string \<Rightarrow> string \<Rightarrow> runpath_dir list" where
  "runpath_entry h ctx final_here entry =
     (let dir = (if entry = kOrigin \<or> starts_with entry (kOrigin @ ''/'')
                 then lexically_normal (path_append final_here (drop (min (length entry) (length kOrigin + 1)) entry))
                 else Final ctx entry)
      in if IsStorePath (h_store h) dir
         then [\<lparr>rp_entry = RelativeTo final_here dir kOrigin, rp_dir = OnDisk ctx dir, rp_keep = True\<rparr>] else [])"

definition RelativizeRunpath :: "fixup_host \<Rightarrow> fixup_ctx \<Rightarrow> string \<Rightarrow> string \<Rightarrow> runpath_dir list" where
  "RelativizeRunpath h ctx old here =
     (let final_here = Final ctx here in
      concat (map (runpath_entry h ctx final_here) (Split old CHR '':'' False))
      @ map (\<lambda>own. \<lparr>rp_entry = RelativeTo final_here (Final ctx own) kOrigin, rp_dir = own, rp_keep = False\<rparr>)
          (own_lib_dirs ctx))"

definition render_entry :: "string list \<Rightarrow> runpath_dir \<Rightarrow> string list" where
  "render_entry kept dir =
     (if rp_keep dir \<and> rp_entry dir \<notin> set kept then kept @ [rp_entry dir] else kept)"

definition RenderRunpath :: "runpath_dir list \<Rightarrow> string" where
  "RenderRunpath runpath = Join (foldl render_entry [] runpath) '':''"

fun find_index :: "('a \<Rightarrow> bool) \<Rightarrow> 'a list \<Rightarrow> nat option" where
  "find_index P [] = None"
| "find_index P (x # xs) = (if P x then Some 0 else map_option Suc (find_index P xs))"

definition set_keep :: "bool \<Rightarrow> nat \<Rightarrow> runpath_dir list \<Rightarrow> runpath_dir list" where
  "set_keep b i runpath = runpath[i := (runpath ! i)\<lparr>rp_keep := b\<rparr>]"

text \<open>A direct dependency is a NEEDED and the index of its RUNPATH directory.\<close>

type_synonym direct = "(needed \<times> nat) list"

definition loader_name :: "string \<Rightarrow> bool" where
  "loader_name name \<longleftrightarrow> str_contains name ''/'' \<or> starts_with name ''ld-linux'' \<or> starts_with name ''linux-vdso''"

definition place_one :: "fixup_host \<Rightarrow> fixup_ctx \<Rightarrow> string \<Rightarrow> string \<Rightarrow> needed \<Rightarrow> runpath_dir list \<times> direct \<times> fixup
    \<Rightarrow> runpath_dir list \<times> direct \<times> fixup" where
  "place_one h ctx path old lib st =
     (case st of (runpath, direct, f) \<Rightarrow>
        if loader_name (nd_name lib) then (runpath, direct, f)
        else case find_index (\<lambda>rp. h_exists h (path_append (rp_dir rp) (nd_name lib))) runpath of
          None \<Rightarrow> (runpath, direct,
            complain (path @ '': NEEDED '' @ nd_name lib @ '' not found in RUNPATH ['' @ old @ ''] nor under '' @ fx_prefix ctx) f)
        | Some i \<Rightarrow>
            if IsLibc h (runpath ! i) then (runpath, direct, f)
            else (set_keep False i runpath, direct @ [(lib, i)], f))"

definition place_needed :: "fixup_host \<Rightarrow> fixup_ctx \<Rightarrow> string \<Rightarrow> string \<Rightarrow> needed list \<Rightarrow> runpath_dir list \<times> direct \<times> fixup
    \<Rightarrow> runpath_dir list \<times> direct \<times> fixup" where
  "place_needed h ctx path old libs st = fold (place_one h ctx path old) libs st"

definition direct_target :: "runpath_dir list \<Rightarrow> needed \<times> nat \<Rightarrow> string" where
  "direct_target runpath dep = rp_entry (runpath ! snd dep) @ ''/'' @ nd_name (fst dep)"

definition runpath_blob :: "string \<Rightarrow> string list \<Rightarrow> string" where
  "runpath_blob neu targets = neu @ concat (map (\<lambda>t. nul # t) targets)"

text \<open>What goes into the slot of the old RUNPATH: the directories, the direct dependencies, the new RUNPATH
  and the bytes.  Without room for the direct dependencies they stay names.\<close>

definition runpath_plan :: "string \<Rightarrow> runpath_dir list \<Rightarrow> direct \<Rightarrow> runpath_dir list \<times> direct \<times> string \<times> string" where
  "runpath_plan old runpath direct =
     (let neu = RenderRunpath runpath; blob = runpath_blob neu (map (direct_target runpath) direct) in
      if length old < length blob
      then (let runpath' = fold (\<lambda>dep. set_keep True (snd dep)) direct runpath; neu' = RenderRunpath runpath'
            in (runpath', [], neu', neu'))
      else (runpath, direct, neu, blob))"

definition write_vn_files :: "nat \<Rightarrow> nat list \<Rightarrow> string \<Rightarrow> string" where
  "write_vn_files str offs elf = fold (\<lambda>off elf. snd (Image_Write elf off (le_bytes 4 str))) offs elf"

fun write_direct :: "runpath_dir list \<Rightarrow> direct \<Rightarrow> nat \<Rightarrow> string \<Rightarrow> string" where
  "write_direct runpath [] str elf = elf"
| "write_direct runpath (dep # deps) str elf =
     write_direct runpath deps (u64 (str + length (direct_target runpath dep) + 1))
       (write_vn_files str (nd_vn_files (fst dep)) (snd (Image_Write elf (nd_val_offset (fst dep)) (le_bytes 8 str))))"

definition log_runpath :: "runpath_dir list \<Rightarrow> direct \<Rightarrow> string \<Rightarrow> fixup \<Rightarrow> fixup" where
  "log_runpath runpath direct neu f =
     fold (\<lambda>dep. log_add (''NEEDED '' @ direct_target runpath dep)) direct (log_add (''RUNPATH '' @ neu) f)"

definition FixRunpath :: "fixup_host \<Rightarrow> fixup_ctx \<Rightarrow> string \<Rightarrow> elf_section list \<Rightarrow> fixup \<Rightarrow> bool \<times> fixup" where
  "FixRunpath h ctx path sections f =
     (let dyn = ReadDynamic (f_img f) sections in
      case di_runpath dyn of
        None \<Rightarrow> (True, f)
      | Some off \<Rightarrow>
          (let old = CString (f_img f) off;
               (runpath0, direct0, f1) =
                 place_needed h ctx path old (di_needed dyn) (RelativizeRunpath h ctx old (parent_path path), [], f);
               (runpath, direct, neu, blob) = runpath_plan old runpath0 direct0
           in if blob = old then (True, log_runpath runpath direct neu f1)
              else case SymbolInside (f_img f) sections off (u64 (off + length old)) of
                Some sy \<Rightarrow>
                  (False, complain (path @ '': symbol '' @ [squote] @ sy @ [squote]
                     @ '' shares bytes with RUNPATH (suffix-merged .dynstr, not lld?)'') f1)
              | None \<Rightarrow>
                  (case WritePadded (f_img f) off (length old + 1) blob of
                     (False, _) \<Rightarrow>
                       (False, complain (path @ '': RUNPATH does not fit ('' @ to_decimal (length blob) @ '' > ''
                          @ to_decimal (length old) @ ''): '' @ neu) f1)
                   | (True, elf) \<Rightarrow>
                       (True, log_runpath runpath direct neu
                          (f1\<lparr>f_img := write_direct runpath direct (u64 (off + length neu + 1 + (2 ^ 64 - di_dynstr dyn))) elf,
                              f_dirty := True\<rparr>)))))"

section \<open>Program interpreter\<close>

definition kRelocStubMagic :: string where
  "kRelocStubMagic = ''RELOCSTB''"

definition kRelocStubHeader :: nat where
  "kRelocStubHeader = 16"

definition phdr_offset :: "string \<Rightarrow> nat \<Rightarrow> nat" where
  "phdr_offset ehdr i = u64 (e_phoff ehdr + i * e_phentsize ehdr)"

definition in_load :: "nat \<Rightarrow> string \<Rightarrow> bool" where
  "in_load vaddr ph \<longleftrightarrow> p_type ph = PT_LOAD \<and> p_vaddr ph \<le> vaddr \<and> vaddr - p_vaddr ph < p_filesz ph"

definition file_offset_at :: "string \<Rightarrow> string \<Rightarrow> nat \<Rightarrow> nat \<Rightarrow> nat option" where
  "file_offset_at elf ehdr vaddr i =
     (case Image_Read Phdr_size elf (phdr_offset ehdr i) of
        None \<Rightarrow> None
      | Some ph \<Rightarrow> if in_load vaddr ph then Some (u64 (p_offset ph + (vaddr - p_vaddr ph))) else None)"

definition FileOffset :: "string \<Rightarrow> string \<Rightarrow> nat \<Rightarrow> nat option" where
  "FileOffset elf ehdr vaddr =
     (case find (\<lambda>i. file_offset_at elf ehdr vaddr i \<noteq> None) [0..<e_phnum ehdr] of
        None \<Rightarrow> None
      | Some i \<Rightarrow> file_offset_at elf ehdr vaddr i)"

text \<open>\<^verbatim>\<open>substr\<close> past the end of the image throws and nothing catches it.\<close>

datatype stub_search = Stub nat | NoStub | OutOfRange

fun find_reloc_start :: "string \<Rightarrow> nat \<Rightarrow> nat list \<Rightarrow> stub_search" where
  "find_reloc_start elf strtab [] = NoStub"
| "find_reloc_start elf strtab (off # offs) =
     (case Image_Read Sym_size elf off of
        None \<Rightarrow> NoStub
      | Some sy \<Rightarrow>
          if CString elf (u64 (strtab + st_name sy)) = ''__reloc_start'' then Stub (st_value sy)
          else find_reloc_start elf strtab offs)"

definition exported_stub :: "string \<Rightarrow> elf_section list \<Rightarrow> stub_search" where
  "exported_stub elf sections =
     (case dynsym_table sections of
        None \<Rightarrow> NoStub
      | Some (sec, strtab) \<Rightarrow> find_reloc_start elf strtab (table_offsets elf sec (sec_entsize sec)))"

definition FindRelocStart :: "string \<Rightarrow> string \<Rightarrow> elf_section list \<Rightarrow> stub_search" where
  "FindRelocStart elf ehdr sections =
     (if kRelocStubHeader \<le> e_entry ehdr
      then (case FileOffset elf ehdr (e_entry ehdr - kRelocStubHeader) of
              None \<Rightarrow> exported_stub elf sections
            | Some off \<Rightarrow>
                if length elf < off then OutOfRange
                else if substr elf off (length kRelocStubMagic) = kRelocStubMagic then Stub (e_entry ehdr)
                else exported_stub elf sections)
      else exported_stub elf sections)"

definition set_p_type :: "nat \<Rightarrow> string \<Rightarrow> string" where
  "set_p_type ty ph = str_replace ph 0 4 (le_bytes 4 ty)"

definition set_e_entry :: "nat \<Rightarrow> string \<Rightarrow> string" where
  "set_e_entry entry eh = str_replace eh 24 8 (le_bytes 8 entry)"

definition hide_interp :: "string \<Rightarrow> nat \<Rightarrow> string \<Rightarrow> nat \<Rightarrow> string \<Rightarrow> fixup \<Rightarrow> fixup" where
  "hide_interp ehdr ph_off phdr stub neu f =
     (let elf1 = snd (Image_Write (f_img f) ph_off (set_p_type PT_NULL phdr));
          elf2 = snd (Image_Write elf1 0 (set_e_entry stub ehdr))
      in log_add (''INTERP '' @ neu @ '' (PT_NULL, entry=__reloc_start)'') (f\<lparr>f_img := elf2, f_dirty := True\<rparr>))"

fun fix_interps :: "fixup_host \<Rightarrow> fixup_ctx \<Rightarrow> string \<Rightarrow> string \<Rightarrow> nat option \<Rightarrow> nat list \<Rightarrow> fixup \<Rightarrow> bool \<times> fixup" where
  "fix_interps h ctx path ehdr stub [] f = (True, f)"
| "fix_interps h ctx path ehdr stub (i # is) f =
     (let ph_off = phdr_offset ehdr i in
      case Image_Read Phdr_size (f_img f) ph_off of
        None \<Rightarrow> (True, f)
      | Some phdr \<Rightarrow>
          if p_type phdr \<noteq> PT_INTERP then fix_interps h ctx path ehdr stub is f
          else
            (let old = CString (f_img f) (p_offset phdr) in
             case stub of
               None \<Rightarrow> fix_interps h ctx path ehdr stub is (log_add (''INTERP '' @ old @ '' kept (no stub)'') f)
             | Some entry \<Rightarrow>
                 if IsStorePath (h_store h) old
                 then (let neu = RelativeTo (Final ctx (parent_path path)) old [] in
                       case WritePadded (f_img f) (p_offset phdr) (p_filesz phdr) neu of
                         (False, _) \<Rightarrow> (False, complain (path @ '': interp does not fit: '' @ neu) f)
                       | (True, elf) \<Rightarrow>
                           fix_interps h ctx path ehdr stub is
                             (hide_interp ehdr ph_off phdr entry neu (f\<lparr>f_img := elf\<rparr>)))
                 else fix_interps h ctx path ehdr stub is (hide_interp ehdr ph_off phdr entry old f)))"

text \<open>\<^term>\<open>None\<close>: the search for the stub threw.\<close>

definition FixInterp :: "fixup_host \<Rightarrow> fixup_ctx \<Rightarrow> string \<Rightarrow> string \<Rightarrow> elf_section list \<Rightarrow> fixup \<Rightarrow> (bool \<times> fixup) option" where
  "FixInterp h ctx path ehdr sections f =
     (case FindRelocStart (f_img f) ehdr sections of
        OutOfRange \<Rightarrow> None
      | NoStub \<Rightarrow> Some (fix_interps h ctx path ehdr None [0..<e_phnum ehdr] f)
      | Stub entry \<Rightarrow> Some (fix_interps h ctx path ehdr (Some entry) [0..<e_phnum ehdr] f))"

section \<open>One file\<close>

definition kLeakContext :: nat where
  "kLeakContext = 100"

definition ELFMAG :: string where
  "ELFMAG = char_of (127 :: nat) # ''ELF''"

definition IsElf64LittleEndian :: "string \<Rightarrow> bool" where
  "IsElf64LittleEndian bytes \<longleftrightarrow>
     starts_with bytes ELFMAG \<and> 5 < length bytes \<and> bytes ! 4 = char_of (2 :: nat) \<and> bytes ! 5 = char_of (1 :: nat)"

definition warn_leak :: "fixup_host \<Rightarrow> fixup_ctx \<Rightarrow> string \<Rightarrow> fixup \<Rightarrow> fixup" where
  "warn_leak h ctx path f =
     (case str_find (f_img f) (store_dir (h_store h) @ ''/'') 0 of
        None \<Rightarrow> f
      | Some leak \<Rightarrow>
          out_line (''  WARN absolute store ref in '' @ h_relative h path (fx_prefix ctx) @ '' @0x'' @ to_base 16 leak
            @ '': '' @ substr (CString (f_img f) leak) 0 kLeakContext) f)"

definition write_elf :: "fixup_host \<Rightarrow> fixup_ctx \<Rightarrow> string \<Rightarrow> fixup \<Rightarrow> bool \<times> fixup" where
  "write_elf h ctx path f =
     (if f_dirty f
      then (case WriteBack h path (f_img f) f of
              (False, f1) \<Rightarrow> (False, count_error f1)
            | (True, f1) \<Rightarrow> (True, warn_leak h ctx path (out_line (Join (f_log f1) ''  '') f1)))
      else (True, warn_leak h ctx path f))"

definition FixElf :: "fixup_host \<Rightarrow> fixup_ctx \<Rightarrow> string \<Rightarrow> fixup \<Rightarrow> (bool \<times> fixup) option" where
  "FixElf h ctx path f =
     (if \<not> IsElf64LittleEndian (f_img f) then Some (False, f)
      else case Image_Read Ehdr_size (f_img f) 0 of
        None \<Rightarrow> Some (True, f)
      | Some ehdr \<Rightarrow>
          if e_type ehdr \<noteq> ET_EXEC \<and> e_type ehdr \<noteq> ET_DYN then Some (True, f)
          else
            (let sections = ReadSections (f_img f) ehdr in
             case FixRunpath h ctx path sections (f\<lparr>f_log := [h_relative h path (fx_prefix ctx)], f_dirty := False\<rparr>) of
               (False, f1) \<Rightarrow> Some (True, f1)
             | (True, f1) \<Rightarrow>
                 (case FixInterp h ctx path ehdr sections f1 of
                    None \<Rightarrow> None
                  | Some (False, f2) \<Rightarrow> Some (True, f2)
                  | Some (True, f2) \<Rightarrow> Some (write_elf h ctx path f2))))"

section \<open>The loops over a section end\<close>

lemma entry_offsets_up:
  assumes "step < 2 ^ 63" "0 < step" "fin < 2 ^ 63" "fin - off \<le> m"
  shows "entry_offsets (m + k) off fin step = entry_offsets m off fin step"
  using assms
proof (induction m arbitrary: off)
  case 0
  then show ?case by (cases k) auto
next
  case (Suc m)
  show ?case
  proof (cases "off < fin")
    case True
    then have "u64 (off + step) = off + step"
      using Suc.prems by (simp add: u64_def)
    moreover have "fin - (off + step) \<le> m"
      using Suc.prems by simp
    ultimately show ?thesis
      using Suc True by simp
  qed simp
qed

lemma entry_offsets_down:
  assumes "2 ^ 63 \<le> step" "step < 2 ^ 64" "fin < 2 ^ 63" "off < fin \<Longrightarrow> off < m"
  shows "entry_offsets (m + k) off fin step = entry_offsets m off fin step"
  using assms
proof (induction m arbitrary: off)
  case 0
  then show ?case by (cases k) auto
next
  case (Suc m)
  show ?case
  proof (cases "off < fin")
    case True
    have "u64 (off + step) < m" if "u64 (off + step) < fin"
    proof (cases "off + step < 2 ^ 64")
      case True
      then have "u64 (off + step) = off + step" by (simp add: u64_def)
      with that Suc.prems show ?thesis by simp
    next
      case False
      then have "u64 (off + step) = off + step - 2 ^ 64"
        using Suc.prems True by (simp add: u64_def mod_if)
      with False Suc.prems True show ?thesis by simp
    qed
    then show ?thesis
      using Suc True by simp
  qed simp
qed

lemma SectionEnd_le: "SectionEnd elf sec \<le> length elf"
  by (auto simp: SectionEnd_def min_def)

text \<open>The loops over the entries of a section end by their own condition, whatever offset, size and entry
  size a corrupt header gives: no more rounds than the image has bytes are made, so that more fuel changes
  nothing.  An image is shorter than the largest string, and the entry size is not zero.\<close>

lemma entry_loops_end:
  assumes "length elf < 2 ^ 63" "0 < step" "step < 2 ^ 64"
  shows "entry_offsets (length elf + k) (sec_offset sec) (SectionEnd elf sec) step = table_offsets elf sec step"
proof (cases "step < 2 ^ 63")
  case True
  have "SectionEnd elf sec - sec_offset sec \<le> length elf"
    using SectionEnd_le [of elf sec] by simp
  with True show ?thesis
    unfolding table_offsets_def using assms SectionEnd_le [of elf sec] by (intro entry_offsets_up) auto
next
  case False
  then show ?thesis
    unfolding table_offsets_def using assms SectionEnd_le [of elf sec] by (intro entry_offsets_down) auto
qed

definition wrapping_section :: elf_section where
  "wrapping_section = \<lparr>sec_type = SHT_DYNSYM, sec_offset = 2, sec_size = 18446744073709551615, sec_link = 0,
     sec_entsize = 18446744073709551614\<rparr>"

theorem entry_loops_end_witness:
  "entry_offsets (length ''abcd'' + 7) (sec_offset wrapping_section) (SectionEnd ''abcd'' wrapping_section) 18446744073709551614
   = [2, 0]"
proof -
  have "entry_offsets (length ''abcd'' + 7) (sec_offset wrapping_section) (SectionEnd ''abcd'' wrapping_section)
      18446744073709551614
    = table_offsets ''abcd'' wrapping_section 18446744073709551614"
    by (rule entry_loops_end) simp_all
  also have "\<dots> = [2, 0]"
    by (simp add: table_offsets_def wrapping_section_def SectionEnd_def u64_def)
  finally show ?thesis .
qed

section \<open>The rewritten RUNPATH\<close>

text \<open>Names of NEEDED come out of the string table, so they have no NUL; the fields lie in the image.\<close>

definition field_regions :: "needed list \<Rightarrow> (nat \<times> nat) list" where
  "field_regions libs = concat (map (\<lambda>lib. (nd_val_offset lib, 8) # map (\<lambda>off. (off, 4)) (nd_vn_files lib)) libs)"

definition lib_ok :: "string \<Rightarrow> needed \<Rightarrow> bool" where
  "lib_ok elf lib \<longleftrightarrow> nul \<notin> set (nd_name lib) \<and> nd_val_offset lib + 8 \<le> length elf
     \<and> (\<forall>off \<in> set (nd_vn_files lib). off + 4 \<le> length elf)"

definition needed_ok :: "string \<Rightarrow> needed list \<Rightarrow> bool" where
  "needed_ok elf libs \<longleftrightarrow> (\<forall>lib \<in> set libs. lib_ok elf lib)"

lemma field_regions_simps [simp]:
  "field_regions [] = []"
  "field_regions (lib # libs) = (nd_val_offset lib, 8) # map (\<lambda>off. (off, 4)) (nd_vn_files lib) @ field_regions libs"
  "field_regions (xs @ ys) = field_regions xs @ field_regions ys"
  by (simp_all add: field_regions_def)

lemma Image_Read_bound: "Image_Read n elf off = Some v \<Longrightarrow> off + n \<le> length elf"
  using image.get_ok [of n elf off] by simp

lemma dyn_loop_ok:
  assumes "needed_ok elf (di_needed info)" "length elf < 2 ^ 64"
  shows "needed_ok elf (di_needed (dyn_loop elf dynstr offs info))"
  using assms(1)
proof (induction offs arbitrary: info)
  case (Cons off offs)
  show ?case
  proof (cases "Image_Read Dyn_size elf off")
    case (Some dyn)
    then have "off + 16 \<le> length elf"
      by (auto simp: Dyn_size_def dest: Image_Read_bound)
    with Cons.prems assms(2) have
      "needed_ok elf (di_needed info @ [\<lparr>nd_name = CString elf str, nd_val_offset = u64 (off + d_un_offset), nd_vn_files = []\<rparr>])"
      for str
      by (auto simp: needed_ok_def lib_ok_def CString_no_nul u64_def d_un_offset_def)
    with Some Cons show ?thesis
      by (simp add: Let_def)
  qed (use Cons in simp)
qed simp

lemma add_vn_file_ok:
  assumes "needed_ok elf libs" "off + 16 \<le> length elf"
  shows "needed_ok elf (map (add_vn_file name (off + vn_file_offset)) libs)"
proof -
  have "lib_ok elf (add_vn_file name (off + vn_file_offset) lib)" if "lib_ok elf lib" for lib
    using that assms(2) by (auto simp: lib_ok_def add_vn_file_def vn_file_offset_def)
  with assms(1) show ?thesis
    by (simp add: needed_ok_def)
qed

lemma verneed_loop_ok: "needed_ok elf libs \<Longrightarrow> needed_ok elf (verneed_loop elf dynstr off libs)"
proof (induction elf dynstr off libs rule: verneed_loop.induct)
  case (1 elf dynstr off libs)
  show ?case
  proof (cases "off = 0 \<or> Image_Read Verneed_size elf off = None")
    case True
    then show ?thesis
      using "1.prems" by (auto simp: verneed_loop.simps [of elf dynstr off libs])
  next
    case False
    then obtain ent where ent: "off \<noteq> 0" "Image_Read Verneed_size elf off = Some ent" by auto
    then have "needed_ok elf (map (add_vn_file name (off + vn_file_offset)) libs)" for name
      using "1.prems" by (intro add_vn_file_ok) (auto simp: Verneed_size_def dest: Image_Read_bound)
    then show ?thesis
      using "1.IH" [OF ent] ent by (simp add: verneed_loop.simps [of elf dynstr off libs] Let_def)
  qed
qed

lemma ReadDynamic_ok: "length elf < 2 ^ 64 \<Longrightarrow> needed_ok elf (di_needed (ReadDynamic elf sections))"
proof -
  assume "length elf < 2 ^ 64"
  moreover have "needed_ok elf (di_needed (no_dynamic\<lparr>di_dynstr := k\<rparr>))" "needed_ok elf (di_needed no_dynamic)" for k
    by (simp_all add: no_dynamic_def needed_ok_def)
  ultimately show ?thesis
    by (simp add: ReadDynamic_def Let_def verneed_loop_ok dyn_loop_ok split: option.split)
qed

section \<open>Placing the NEEDED\<close>

lemma find_index_less: "find_index P xs = Some i \<Longrightarrow> i < length xs"
  by (induction xs arbitrary: i) (auto split: if_splits)

lemma set_keep_entries [simp]: "map rp_entry (set_keep b i runpath) = map rp_entry runpath"
  by (cases "i < length runpath") (simp_all add: set_keep_def map_update list_update_same_conv list_update_beyond)

lemma place_one_shape:
  assumes "place_one h ctx path old lib (runpath0, direct0, f) = (runpath, direct, f')"
  shows "map rp_entry runpath = map rp_entry runpath0" "f_img f' = f_img f" "f_dirty f' = f_dirty f"
    "direct = direct0 \<or> (\<exists>i < length runpath0. direct = direct0 @ [(lib, i)])"
  using assms
  by (auto simp: place_one_def complain_def count_error_def err_line_def dest: find_index_less split: if_splits option.splits)

lemma place_needed_shape:
  assumes "place_needed h ctx path old libs (runpath0, direct0, f) = (runpath, direct, f')"
  shows "map rp_entry runpath = map rp_entry runpath0 \<and> f_img f' = f_img f \<and> f_dirty f' = f_dirty f \<and>
    (\<exists>new. direct = direct0 @ new \<and> subseq (map fst new) libs \<and> (\<forall>dep \<in> set new. snd dep < length runpath0))"
  using assms
proof (induction libs arbitrary: runpath0 direct0 f)
  case (Cons lib libs)
  obtain r1 d1 f1 where st: "place_one h ctx path old lib (runpath0, direct0, f) = (r1, d1, f1)"
    by (metis prod_cases3)
  note one = place_one_shape [OF st]
  have len: "length r1 = length runpath0"
    using one(1) by (metis length_map)
  obtain new where new: "direct = d1 @ new" "subseq (map fst new) libs" "\<forall>dep \<in> set new. snd dep < length r1"
      "map rp_entry runpath = map rp_entry r1" "f_img f' = f_img f1" "f_dirty f' = f_dirty f1"
    using Cons.IH [of r1 d1 f1] Cons.prems st by (auto simp: place_needed_def)
  from one(4) show ?case
  proof
    assume "d1 = direct0"
    with new one len show ?thesis
      by (intro conjI exI [of _ new]) (auto intro: list_emb_Cons)
  next
    assume "\<exists>i < length runpath0. d1 = direct0 @ [(lib, i)]"
    then obtain i where "i < length runpath0" "d1 = direct0 @ [(lib, i)]" by blast
    with new one len show ?thesis
      by (intro conjI exI [of _ "(lib, i) # new"]) auto
  qed
qed (simp add: place_needed_def)

section \<open>The fields that name the new strings\<close>

fun direct_writes :: "runpath_dir list \<Rightarrow> direct \<Rightarrow> nat \<Rightarrow> (nat \<times> string) list" where
  "direct_writes runpath [] str = []"
| "direct_writes runpath (dep # deps) str =
     (nd_val_offset (fst dep), le_bytes 8 str) # map (\<lambda>off. (off, le_bytes 4 str)) (nd_vn_files (fst dep))
     @ direct_writes runpath deps (u64 (str + length (direct_target runpath dep) + 1))"

lemma put_all_append: "image.put_all (ws @ vs) s = image.put_all vs (image.put_all ws s)"
  by (simp add: image.put_all_def)

lemma write_vn_files_puts: "write_vn_files str offs elf = image.put_all (map (\<lambda>off. (off, le_bytes 4 str)) offs) elf"
  by (simp add: write_vn_files_def image.put_all_def fold_map o_def)

lemma write_direct_puts: "write_direct runpath deps str elf = image.put_all (direct_writes runpath deps str) elf"
  by (induction deps arbitrary: str elf) (simp_all add: write_vn_files_puts put_all_append)

lemma direct_writes_regions:
  "map (\<lambda>w. (fst w, length (snd w))) (direct_writes runpath deps str) = field_regions (map fst deps)"
  by (induction deps arbitrary: str) (simp_all add: o_def)

definition nul_strings :: "string list \<Rightarrow> string" where
  "nul_strings ts = concat (map (\<lambda>t. t @ [nul]) ts)"

lemma blob_nul_strings: "runpath_blob neu ts @ [nul] = neu @ nul # nul_strings ts"
  by (induction ts arbitrary: neu) (simp_all add: runpath_blob_def nul_strings_def)

text \<open>Each direct dependency has its fields written with the offset of its string.\<close>

lemma direct_writes_name:
  assumes "drop (dynstr + str) elf = nul_strings (map (direct_target runpath) deps) @ r"
    and "str + length (nul_strings (map (direct_target runpath) deps)) \<le> bound" "bound < 2 ^ 64"
    and "dep \<in> set deps"
  shows "\<exists>v r'. (nd_val_offset (fst dep), le_bytes 8 v) \<in> set (direct_writes runpath deps str) \<and>
    (\<forall>off \<in> set (nd_vn_files (fst dep)). (off, le_bytes 4 v) \<in> set (direct_writes runpath deps str)) \<and>
    str \<le> v \<and> v + length (direct_target runpath dep) < bound \<and> drop (dynstr + v) elf = direct_target runpath dep @ nul # r'"
  using assms
proof (induction deps arbitrary: str)
  case (Cons d deps)
  let ?n = "length (direct_target runpath d) + 1"
  show ?case
  proof (cases "dep = d")
    case True
    then show ?thesis
      using Cons.prems(1,2) by (intro exI [of _ str]) (auto simp: nul_strings_def)
  next
    case False
    have u: "u64 (str + length (direct_target runpath d) + 1) = str + ?n"
      using Cons.prems(2,3) by (simp add: u64_def nul_strings_def)
    have "drop (dynstr + (str + ?n)) elf = drop ?n (drop (dynstr + str) elf)"
      by (simp add: ac_simps)
    also have "\<dots> = nul_strings (map (direct_target runpath) deps) @ r"
      unfolding Cons.prems(1) by (simp add: nul_strings_def)
    finally have d: "drop (dynstr + (str + ?n)) elf = nul_strings (map (direct_target runpath) deps) @ r" .
    have "str + ?n + length (nul_strings (map (direct_target runpath) deps)) \<le> bound"
      using Cons.prems(2) by (simp add: nul_strings_def)
    from Cons.IH [OF d this Cons.prems(3)] False Cons.prems(4) obtain v r' where
      "(nd_val_offset (fst dep), le_bytes 8 v) \<in> set (direct_writes runpath deps (str + ?n))"
      "\<forall>off \<in> set (nd_vn_files (fst dep)). (off, le_bytes 4 v) \<in> set (direct_writes runpath deps (str + ?n))"
      "str + ?n \<le> v" "v + length (direct_target runpath dep) < bound"
      "drop (dynstr + v) elf = direct_target runpath dep @ nul # r'"
      by auto
    with u show ?thesis
      by (intro exI [of _ v] exI [of _ r']) auto
  qed
qed simp

lemma Image_Read_le_at: "Image_Read k elf off = Some (le_bytes k v) \<Longrightarrow> le_at k elf off = v mod 256 ^ k"
  by (auto simp: Image_Read_def le_at_def split: if_splits)

lemma Image_Read_nth:
  assumes "Image_Read n s off = Image_Read n t off" "length s = length t" "off + n \<le> length s" "off \<le> i" "i < off + n"
  shows "s ! i = t ! i"
proof -
  have "substr s off n = substr t off n"
    using assms(1-3) by (simp add: Image_Read_def split: if_splits)
  then show ?thesis
    using assms(2-) by (simp add: substr_eq_iff)
qed

definition fields_apart :: "(nat \<times> nat) list \<Rightarrow> nat \<Rightarrow> nat \<Rightarrow> bool" where
  "fields_apart regions off n \<longleftrightarrow>
     sorted_wrt (\<lambda>r q. apart (fst r) (snd r) (fst q) (snd q)) regions \<and> (\<forall>r \<in> set regions. apart (fst r) (snd r) off n)"

lemma subseq_regions: "subseq xs ys \<Longrightarrow> subseq (field_regions xs) (field_regions ys)"
  by (induction rule: list_emb.induct) (auto intro!: list_emb_append_mono intro: list_emb_Cons list_emb_append2)

lemma subseq_in: "subseq xs ys \<Longrightarrow> x \<in> set xs \<Longrightarrow> x \<in> set ys"
  by (erule list_emb_set) auto

lemma sorted_wrt_subseq: "subseq xs ys \<Longrightarrow> sorted_wrt P ys \<Longrightarrow> sorted_wrt P xs"
  by (induction rule: list_emb.induct) (auto dest: subseq_in)

lemma fields_apart_subseq: "subseq xs ys \<Longrightarrow> fields_apart ys off n \<Longrightarrow> fields_apart xs off n"
  using sorted_wrt_subseq [of xs ys] subseq_in [of xs ys] by (auto simp: fields_apart_def)

lemma direct_writes_apart:
  assumes "fields_apart (field_regions (map fst deps)) off n"
  shows "image.spread (direct_writes runpath deps str)"
    and "\<forall>w \<in> set (direct_writes runpath deps str). apart (fst w) (length (snd w)) off n"
proof -
  let ?f = "\<lambda>w. (fst w, length (snd w))"
  have r: "map ?f (direct_writes runpath deps str) = field_regions (map fst deps)"
    by (rule direct_writes_regions)
  show "image.spread (direct_writes runpath deps str)"
    using assms unfolding fields_apart_def r [symmetric] by (simp add: image.spread_def sorted_wrt_map)
  have "\<forall>r \<in> set (map ?f (direct_writes runpath deps str)). apart (fst r) (snd r) off n"
    using assms unfolding fields_apart_def r [symmetric] by blast
  then show "\<forall>w \<in> set (direct_writes runpath deps str). apart (fst w) (length (snd w)) off n"
    by simp
qed

lemma field_regions_bound:
  "needed_ok elf libs \<Longrightarrow> r \<in> set (field_regions libs) \<Longrightarrow> fst r + snd r \<le> length elf"
  by (induction libs) (auto simp: needed_ok_def lib_ok_def)

text \<open>A string in the slot is read from an image that agrees on the slot.\<close>

lemma slot_string:
  assumes "drop p s = str @ nul # r" "nul \<notin> set str" "off \<le> p" "p + length str < off + n" "off + n \<le> length s"
    and "length t = length s" "Image_Read n t off = Image_Read n s off"
  shows "CString t p = str"
proof -
  have c: "CString s p = str"
    using assms(1,2) by (rule CString_at)
  have "CString t p = CString s p"
  proof (rule CString_cong)
    show "p + length (CString s p) < length s"
      using assms(4,5) by (simp add: c)
    show "t ! i = s ! i" if "p \<le> i" "i \<le> p + length (CString s p)" for i
      using that assms(3-7) by (intro Image_Read_nth [of n t off s]) (simp_all add: c)
  qed (simp add: assms(6))
  with c show ?thesis by simp
qed

lemma put_all_nth:
  assumes "\<forall>w \<in> set ws. \<not> (fst w \<le> i \<and> i < fst w + length (snd w))" "i < length s"
  shows "image.put_all ws s ! i = s ! i"
proof (rule Image_Read_nth [of 1 _ i])
  show "Image_Read 1 (image.put_all ws s) i = Image_Read 1 s i"
    using assms(1) by (intro image.put_all_apart) (auto simp: apart_def)
qed (use assms(2) in auto)

text \<open>The slot after the new strings are written into it.\<close>

lemma slot_layout:
  assumes "Image_Write elf off (blob @ replicate (n - length blob) nul) = (True, elf1)" "length blob < n"
    and "blob = runpath_blob neu ts"
  shows "off + n \<le> length elf" "length elf1 = length elf" "length neu + 1 + length (nul_strings ts) \<le> n"
    and "\<exists>r. drop off elf1 = neu @ nul # nul_strings ts @ r"
    and "i < length elf \<Longrightarrow> \<not> (off \<le> i \<and> i < off + n) \<Longrightarrow> elf1 ! i = elf ! i"
proof -
  let ?v = "blob @ replicate (n - length blob) nul"
  have lv: "length ?v = n"
    using assms(2) by simp
  have e1: "elf1 = snd (Image_Write elf off ?v)"
    using assms(1) by simp
  then show "length elf1 = length elf"
    by simp
  show fits: "off + n \<le> length elf"
    using image.put_ok [of elf off ?v] assms(1) lv by simp
  show "length neu + 1 + length (nul_strings ts) \<le> n"
    using arg_cong [OF blob_nul_strings [of neu ts], of length] assms(2,3) by simp
  have "substr elf1 off n = ?v"
    using image.get_put [of off ?v elf] fits lv by (simp add: e1 [symmetric] Image_Read_def split: if_splits)
  then have "drop off elf1 = ?v @ drop (off + n) elf1"
    unfolding substr_def by (metis append_take_drop_id drop_drop add.commute)
  moreover have "replicate (n - length blob) nul = nul # replicate (n - length blob - 1) nul"
    using assms(2) by (cases "n - length blob") auto
  ultimately show "\<exists>r. drop off elf1 = neu @ nul # nul_strings ts @ r"
    using blob_nul_strings [of neu ts] assms(3) by (metis append_Cons append_Nil append_assoc)
  show "elf1 ! i = elf ! i" if "i < length elf" "\<not> (off \<le> i \<and> i < off + n)"
    unfolding e1 using that fits lv by (auto simp: Image_Write_nth)
qed

lemma direct_fields_read:
  assumes "fields_apart (field_regions (map fst direct)) off n" "needed_ok elf (map fst direct)"
    and "w \<in> set (direct_writes runpath direct str)"
  shows "Image_Read (length (snd w)) (write_direct runpath direct str elf) (fst w) = Some (snd w)"
proof -
  have "(fst w, length (snd w)) \<in> set (field_regions (map fst direct))"
    unfolding direct_writes_regions [of runpath direct str, symmetric] using assms(3) by simp
  then have "fst w + length (snd w) \<le> length elf"
    using field_regions_bound [OF assms(2)] by fastforce
  then show ?thesis
    unfolding write_direct_puts using assms(3) direct_writes_apart(1) [OF assms(1)] by (intro image.put_all_get)
qed

text \<open>After the fields are written each names the string of its dependency.\<close>

lemma direct_field_values:
  assumes "drop (dynstr + str) elf = nul_strings (map (direct_target runpath) direct) @ r"
    and "str + length (nul_strings (map (direct_target runpath) direct)) \<le> bound" "bound < 2 ^ 32"
    and fields: "fields_apart (field_regions (map fst direct)) off n" "needed_ok elf (map fst direct)"
    and "dep \<in> set direct"
  defines "elf2 \<equiv> write_direct runpath direct str elf"
  obtains v r' where "le_at 8 elf2 (nd_val_offset (fst dep)) = v" "\<forall>vn \<in> set (nd_vn_files (fst dep)). le_at 4 elf2 vn = v"
    "str \<le> v" "v + length (direct_target runpath dep) < bound" "drop (dynstr + v) elf = direct_target runpath dep @ nul # r'"
proof -
  obtain v r' where v: "(nd_val_offset (fst dep), le_bytes 8 v) \<in> set (direct_writes runpath direct str)"
      "\<forall>vn \<in> set (nd_vn_files (fst dep)). (vn, le_bytes 4 v) \<in> set (direct_writes runpath direct str)"
      "str \<le> v" "v + length (direct_target runpath dep) < bound"
      "drop (dynstr + v) elf = direct_target runpath dep @ nul # r'"
    using direct_writes_name [OF assms(1,2) _ assms(6)] assms(3) by auto
  note read = direct_fields_read [OF fields, of _ runpath str, folded elf2_def]
  have "le_at 8 elf2 (nd_val_offset (fst dep)) = v"
    using Image_Read_le_at [of 8 elf2 _ v] read [OF v(1)] v(4) assms(3) by simp
  moreover have "le_at 4 elf2 vn = v" if "vn \<in> set (nd_vn_files (fst dep))" for vn
    using Image_Read_le_at [of 4 elf2 vn v] read [OF v(2) [rule_format, OF that]] v(4) assms(3) by simp
  ultimately show thesis
    using v that by blast
qed

lemma write_direct_keeps:
  assumes "i < length elf" "\<forall>r \<in> set (field_regions (map fst direct)). \<not> (fst r \<le> i \<and> i < fst r + snd r)"
  shows "write_direct runpath direct str elf ! i = elf ! i"
  using assms unfolding direct_writes_regions [of runpath direct str, symmetric] write_direct_puts
  by (intro put_all_nth) auto

text \<open>The image with the new strings in the slot and the fields naming them.\<close>

lemma write_direct_read_back:
  assumes img: "Image_Write elf off (blob @ replicate (n - length blob) nul) = (True, elf1)" "length blob < n"
      "blob = runpath_blob neu (map (direct_target runpath) direct)"
    and no_nul: "nul \<notin> set neu" "\<forall>dep \<in> set direct. nul \<notin> set (direct_target runpath dep)"
    and fields: "fields_apart (field_regions (map fst direct)) off n" "needed_ok elf (map fst direct)"
    and dynstr: "dynstr \<le> off" "off + n - dynstr < 2 ^ 32"
  defines "elf2 \<equiv> write_direct runpath direct (off + length neu + 1 - dynstr) elf1"
  shows "length elf2 = length elf" "CString elf2 off = neu"
    and "dep \<in> set direct \<Longrightarrow> CString elf2 (dynstr + le_at 8 elf2 (nd_val_offset (fst dep))) = direct_target runpath dep \<and>
      (\<forall>vn \<in> set (nd_vn_files (fst dep)). le_at 4 elf2 vn = le_at 8 elf2 (nd_val_offset (fst dep)))"
proof -
  let ?ts = "map (direct_target runpath) direct" and ?str = "off + length neu + 1 - dynstr"
  note layout = slot_layout [OF img]
  obtain r where d1: "drop off elf1 = neu @ nul # nul_strings ?ts @ r"
    using layout(4) by blast
  show len2: "length elf2 = length elf"
    by (simp add: elf2_def write_direct_puts layout(2))
  have slot: "Image_Read n elf2 off = Image_Read n elf1 off"
    unfolding elf2_def write_direct_puts using direct_writes_apart(2) [OF fields(1)] by (intro image.put_all_apart)
  show "CString elf2 off = neu"
    using d1 no_nul(1) _ _ _ _ slot by (rule slot_string) (use layout len2 in auto)
  have dstr: "dynstr + ?str = off + length neu + 1"
    using dynstr(1) by simp
  have "drop (dynstr + ?str) elf1 = drop (length neu + 1) (drop off elf1)"
    unfolding dstr by (simp add: ac_simps)
  then have d2: "drop (dynstr + ?str) elf1 = nul_strings ?ts @ r"
    by (simp add: d1)
  have bound: "?str + length (nul_strings ?ts) \<le> off + n - dynstr" and ok1: "needed_ok elf1 (map fst direct)"
    using layout(2,3) dynstr fields(2) by (simp_all add: needed_ok_def lib_ok_def)
  show "CString elf2 (dynstr + le_at 8 elf2 (nd_val_offset (fst dep))) = direct_target runpath dep \<and>
      (\<forall>vn \<in> set (nd_vn_files (fst dep)). le_at 4 elf2 vn = le_at 8 elf2 (nd_val_offset (fst dep)))" if dep: "dep \<in> set direct"
  proof -
    obtain v r' where v: "le_at 8 elf2 (nd_val_offset (fst dep)) = v" "\<forall>vn \<in> set (nd_vn_files (fst dep)). le_at 4 elf2 vn = v"
        "?str \<le> v" "v + length (direct_target runpath dep) < off + n - dynstr"
        "drop (dynstr + v) elf1 = direct_target runpath dep @ nul # r'"
      using direct_field_values [OF d2 bound dynstr(2) fields(1) ok1 dep] unfolding elf2_def by blast
    have "CString elf2 (dynstr + v) = direct_target runpath dep"
      using v(5) no_nul(2) [rule_format, OF dep] _ _ _ _ slot
      by (rule slot_string) (use v dynstr layout len2 in auto)
    with v show ?thesis by simp
  qed
qed

section \<open>Properties\<close>

lemma Join_chars: "set (Join ps sep) \<subseteq> \<Union> (set ` set ps) \<union> set sep"
proof -
  have "set (foldl (\<lambda>out part. (if out \<noteq> [] then out @ sep else out) @ part) acc ps)
      \<subseteq> set acc \<union> \<Union> (set ` set ps) \<union> set sep" for acc
  proof (induction ps arbitrary: acc)
    case (Cons p ps)
    show ?case
      using Cons.IH [of "(if acc \<noteq> [] then acc @ sep else acc) @ p"] by (auto split: if_splits)
  qed simp
  from this [of "[]"] show ?thesis
    by (simp add: Join_def)
qed

lemma render_entries: "set (foldl render_entry kept dirs) \<subseteq> set kept \<union> rp_entry ` set dirs"
proof (induction dirs arbitrary: kept)
  case (Cons d dirs)
  show ?case
    using Cons.IH [of "render_entry kept d"] by (auto simp: render_entry_def split: if_splits)
qed simp

definition entries_ok :: "runpath_dir list \<Rightarrow> bool" where
  "entries_ok dirs \<longleftrightarrow> (\<forall>dir \<in> set dirs. nul \<notin> set (rp_entry dir))"

lemma entries_ok_map: "map rp_entry dirs = map rp_entry dirs' \<Longrightarrow> entries_ok dirs \<longleftrightarrow> entries_ok dirs'"
proof -
  have "entries_ok ds \<longleftrightarrow> (\<forall>e \<in> set (map rp_entry ds). nul \<notin> set e)" for ds
    by (simp add: entries_ok_def)
  then show "map rp_entry dirs = map rp_entry dirs' \<Longrightarrow> entries_ok dirs \<longleftrightarrow> entries_ok dirs'"
    by metis
qed

lemma RenderRunpath_no_nul:
  assumes "entries_ok dirs"
  shows "nul \<notin> set (RenderRunpath dirs)"
proof -
  have "nul \<noteq> CHR '':''"
    by (simp add: nul_def)
  then show ?thesis
    using assms Join_chars [of "foldl render_entry [] dirs" "'':''"] render_entries [of "[]" dirs]
    by (auto simp: RenderRunpath_def entries_ok_def)
qed

lemma direct_target_no_nul:
  "entries_ok dirs \<Longrightarrow> snd dep < length dirs \<Longrightarrow> nul \<notin> set (nd_name (fst dep)) \<Longrightarrow> nul \<notin> set (direct_target dirs dep)"
  by (simp add: direct_target_def entries_ok_def nul_def)

lemma keep_all_entries: "map rp_entry (fold (\<lambda>dep. set_keep b (snd dep)) deps dirs) = map rp_entry dirs"
  by (induction deps arbitrary: dirs) simp_all

lemma runpath_plan_shape:
  assumes "runpath_plan old runpath0 direct0 = (runpath, direct, neu, blob)"
  shows "map rp_entry runpath = map rp_entry runpath0" "direct = direct0 \<or> direct = []" "neu = RenderRunpath runpath"
    "blob = runpath_blob neu (map (direct_target runpath) direct)"
  using assms by (auto simp: runpath_plan_def Let_def keep_all_entries runpath_blob_def split: if_splits)

lemma f_img_log_runpath [simp]: "f_img (log_runpath runpath direct neu f) = f_img f"
proof -
  have "f_img (fold (\<lambda>dep. log_add (g dep)) deps f) = f_img f" for deps :: direct and g and f :: fixup
    by (induction deps arbitrary: f) (simp_all add: log_add_def)
  then show ?thesis
    by (simp add: log_runpath_def log_add_def)
qed

lemma FixRunpath_image:
  assumes "FixRunpath h ctx path sections f = (True, f')"
    and "di_runpath (ReadDynamic (f_img f) sections) = Some off" "CString (f_img f) off = old"
    and "place_needed h ctx path old (di_needed (ReadDynamic (f_img f) sections))
      (RelativizeRunpath h ctx old (parent_path path), [], f) = (runpath0, direct0, f1)"
    and "runpath_plan old runpath0 direct0 = (runpath, direct, neu, blob)"
  shows "blob = old \<and> f_img f' = f_img f \<or> blob \<noteq> old \<and>
    (\<exists>elf. WritePadded (f_img f) off (length old + 1) blob = (True, elf) \<and>
      f_img f' = write_direct runpath direct (u64 (off + length neu + 1
        + (2 ^ 64 - di_dynstr (ReadDynamic (f_img f) sections)))) elf)"
  using assms place_needed_shape [OF assms(4)]
  by (auto simp: FixRunpath_def Let_def split: if_splits option.splits prod.splits bool.splits)

lemma planned_runpath:
  assumes placed: "place_needed h ctx path old libs (dirs, [], f) = (runpath0, direct0, f1)"
    and plan: "runpath_plan old runpath0 direct0 = (runpath, direct, neu, blob)"
    and "entries_ok dirs" "needed_ok elf libs"
  shows "blob = runpath_blob neu (map (direct_target runpath) direct)" "nul \<notin> set neu"
    "\<forall>dep \<in> set direct. nul \<notin> set (direct_target runpath dep)" "subseq (map fst direct) libs" "needed_ok elf (map fst direct)"
proof -
  note shape = place_needed_shape [OF placed] runpath_plan_shape [OF plan]
  show "blob = runpath_blob neu (map (direct_target runpath) direct)"
    by (rule shape(5))
  have entries: "entries_ok runpath" and len: "length runpath = length dirs"
    using assms(3) shape by (metis entries_ok_map, metis length_map)
  then show "nul \<notin> set neu"
    using shape(4) by (simp add: RenderRunpath_no_nul)
  show sub: "subseq (map fst direct) libs"
    using shape by auto
  have idx: "\<forall>dep \<in> set direct. snd dep < length runpath"
    using shape by (auto simp: len)
  show okd: "needed_ok elf (map fst direct)"
    using assms(4) subseq_in [OF sub] by (auto simp: needed_ok_def)
  show "\<forall>dep \<in> set direct. nul \<notin> set (direct_target runpath dep)"
    using idx okd by (intro ballI direct_target_no_nul [OF entries]) (auto simp: needed_ok_def lib_ok_def)
qed

text \<open>C6. Rewriting the RUNPATH of a file keeps its size, and afterwards the file says what was planned: its RUNPATH
  reads back as the new one, every dependency that was made direct is found under its path from the dynamic
  section and from the version table alike, and no byte outside the old RUNPATH string and those fields changed.
  The fields lie apart from each other and from the string, and the string table is shorter than four gigabytes.\<close>

theorem fix_runpath_reads_back:
  assumes run: "FixRunpath h ctx path sections f = (True, f')"
    and dyn: "ReadDynamic (f_img f) sections = dyn" "di_runpath dyn = Some off" "CString (f_img f) off = old"
    and placed: "place_needed h ctx path old (di_needed dyn) (RelativizeRunpath h ctx old (parent_path path), [], f)
      = (runpath0, direct0, f1)"
    and plan: "runpath_plan old runpath0 direct0 = (runpath, direct, neu, blob)"
    and names: "entries_ok (RelativizeRunpath h ctx old (parent_path path))"
    and fields: "fields_apart (field_regions (di_needed dyn)) off (length old + 1)"
    and sizes: "length (f_img f) < 2 ^ 63" "di_dynstr dyn \<le> off" "off + length old + 1 - di_dynstr dyn < 2 ^ 32"
  shows "length (f_img f') = length (f_img f) \<and> CString (f_img f') off = neu \<and>
    (\<forall>dep \<in> set direct.
       CString (f_img f') (di_dynstr dyn + le_at 8 (f_img f') (nd_val_offset (fst dep))) = direct_target runpath dep \<and>
       (\<forall>vn \<in> set (nd_vn_files (fst dep)). le_at 4 (f_img f') vn = le_at 8 (f_img f') (nd_val_offset (fst dep)))) \<and>
    (\<forall>i < length (f_img f). \<not> (off \<le> i \<and> i < off + length old + 1) \<longrightarrow>
       (\<forall>r \<in> set (field_regions (map fst direct)). \<not> (fst r \<le> i \<and> i < fst r + snd r)) \<longrightarrow> f_img f' ! i = f_img f ! i)"
proof -
  have ok: "needed_ok (f_img f) (di_needed dyn)"
    using ReadDynamic_ok [of "f_img f" sections] sizes(1) dyn(1) by simp
  note planned = planned_runpath [OF placed plan names ok]
  from FixRunpath_image [OF run _ dyn(3) _ plan, unfolded dyn(1), OF dyn(2) placed] show ?thesis
  proof (elim disjE conjE exE)
    assume same: "blob = old" "f_img f' = f_img f"
    then have "nul \<notin> set blob"
      using CString_no_nul [of "f_img f" off] dyn(3) by simp
    then have "direct = []"
      using planned(1) by (cases direct) (auto simp: runpath_blob_def)
    with same planned(1) dyn(3) show ?thesis
      by (simp add: runpath_blob_def)
  next
    fix elf
    assume w: "WritePadded (f_img f) off (length old + 1) blob = (True, elf)"
      "f_img f' = write_direct runpath direct (u64 (off + length neu + 1 + (2 ^ 64 - di_dynstr dyn))) elf"
    then have lt: "length blob < length old + 1" and fits: "off + (length old + 1) \<le> length (f_img f)"
      using WritePadded_ok [of "f_img f" off "length old + 1" blob] by auto
    have wr: "Image_Write (f_img f) off (blob @ replicate (length old + 1 - length blob) nul) = (True, elf)"
      using w(1) lt by (simp add: WritePadded_Write)
    have "length neu \<le> length blob"
      using planned(1) by (simp add: runpath_blob_def)
    then have "off + length neu + 1 + (2 ^ 64 - di_dynstr dyn) = off + length neu + 1 - di_dynstr dyn + 2 ^ 64"
      "off + length neu + 1 - di_dynstr dyn < 2 ^ 64"
      using sizes lt fits by simp_all
    then have "u64 (off + length neu + 1 + (2 ^ 64 - di_dynstr dyn)) = off + length neu + 1 - di_dynstr dyn"
      by (simp only: u64_def mod_add_self2 mod_less)
    then have img: "f_img f' = write_direct runpath direct (off + length neu + 1 - di_dynstr dyn) elf"
      by (simp add: w(2))
    have ap: "fields_apart (field_regions (map fst direct)) off (length old + 1)"
      using subseq_regions [OF planned(4)] fields by (rule fields_apart_subseq)
    have small: "off + (length old + 1) - di_dynstr dyn < 2 ^ 32"
      using sizes(3) by simp
    note written = write_direct_read_back [OF wr lt planned(1-3) ap planned(5) sizes(2) small, folded img]
    show ?thesis
      using written slot_layout(2,5) [OF wr lt planned(1)] write_direct_keeps [of _ elf direct runpath]
      by (auto simp: img)
  qed
qed

definition example_strings :: string where
  "example_strings = [nul] @ ''l'' @ [nul] @ ''/s/b:/pppppppppp'' @ [nul]"

definition example_elf :: string where
  "example_elf = le_bytes 8 1 @ le_bytes 8 1 @ le_bytes 8 29 @ le_bytes 8 3 @ replicate 16 nul
     @ le_bytes 4 1 @ le_bytes 4 1 @ replicate 8 nul @ example_strings"

definition example_sections :: "elf_section list" where
  "example_sections =
     [\<lparr>sec_type = 6, sec_offset = 0, sec_size = 48, sec_link = 1, sec_entsize = 16\<rparr>,
      \<lparr>sec_type = 3, sec_offset = 64, sec_size = 30, sec_link = 0, sec_entsize = 0\<rparr>,
      \<lparr>sec_type = 1879048190, sec_offset = 48, sec_size = 16, sec_link = 1, sec_entsize = 0\<rparr>]"

definition example_fix_host :: fixup_host where
  "example_fix_host = \<lparr>h_store = \<lparr>store_dir = ''/s'', by_content = False, out_path = [], out_hash = [],
       masked_to_real = [], known_ids = (\<lambda>_. None)\<rparr>, h_exists = (\<lambda>p. p = ''/s/b/l''), h_relative = (\<lambda>p b. p),
     h_write = (\<lambda>_. \<lparr>opened = True, accepted = None, renamed = True\<rparr>), h_pid = 1, h_errno = [], h_new_mode = 420\<rparr>"

definition example_ctx :: fixup_ctx where
  "example_ctx = \<lparr>fx_prefix = ''/s/a'', fx_dest = ''/s/a'', own_lib_dirs = [], denied = [], sdk = []\<rparr>"

definition example_fixup :: fixup where
  "example_fixup = \<lparr>f_errors = 0, f_disk = (\<lambda>_. None), f_mode = (\<lambda>_. None), f_err = [], f_out = [], f_img = example_elf,
     f_log = [], f_dirty = False\<rparr>"

definition example_needed :: needed where
  "example_needed = \<lparr>nd_name = ''l'', nd_val_offset = 8, nd_vn_files = [52]\<rparr>"

lemma example_reads:
  "Image_Read Dyn_size example_elf 0 = Some (le_bytes 8 1 @ le_bytes 8 1)"
  "Image_Read Dyn_size example_elf 16 = Some (le_bytes 8 29 @ le_bytes 8 3)"
  "Image_Read Dyn_size example_elf 32 = Some (replicate 16 nul)"
  "Image_Read Verneed_size example_elf 48 = Some (le_bytes 4 1 @ le_bytes 4 1 @ replicate 8 nul)"
  by (simp_all add: Image_Read_def substr_def example_elf_def Dyn_size_def Verneed_size_def example_strings_def)

lemma example_cstrings: "CString example_elf 65 = ''l''" "CString example_elf 67 = ''/s/b:/pppppppppp''"
  by (simp_all add: CString_takeWhile example_elf_def example_strings_def nul_def)

lemma entry_offsets_numeral:
  "entry_offsets (numeral v) off fin step =
     (if off < fin then off # entry_offsets (pred_numeral v) (u64 (off + step)) fin step else [])"
  by (simp add: numeral_eq_Suc)

lemma example_table: "table_offsets example_elf (hd example_sections) 16 = [0, 16, 32]"
  by (simp add: table_offsets_def SectionEnd_def example_sections_def example_elf_def example_strings_def
      entry_offsets_numeral u64_def)

lemma le_value_zeros [simp]: "le_value (replicate n nul) = 0"
  by (induction n) (simp_all add: nul_def)

lemma example_dyn_loop:
  "dyn_loop example_elf 64 [0, 16, 32] (no_dynamic\<lparr>di_dynstr := 64\<rparr>)
   = \<lparr>di_needed = [example_needed\<lparr>nd_vn_files := []\<rparr>], di_dynstr = 64, di_runpath = Some 67\<rparr>"
  by (simp add: example_reads example_cstrings d_tag_def d_val_def le_at_def substr_def DT_NULL_def DT_NEEDED_def DT_RUNPATH_def
      DT_RPATH_def no_dynamic_def u64_def d_un_offset_def example_needed_def Let_def)

lemma example_verneed:
  "verneed_loop example_elf 64 48 [example_needed\<lparr>nd_vn_files := []\<rparr>] = [example_needed]"
  by (simp add: verneed_loop.simps example_reads example_cstrings vn_file_def vn_next_def le_at_def substr_def
      add_vn_file_def example_needed_def u64_def vn_file_offset_def)

lemma example_dynamic:
  "ReadDynamic example_elf example_sections = \<lparr>di_needed = [example_needed], di_dynstr = 64, di_runpath = Some 67\<rparr>"
  using example_table example_dyn_loop example_verneed
  by (simp add: ReadDynamic_def find_section_def example_sections_def SHT_DYNAMIC_def SHT_NOBITS_def SHT_GNU_verneed_def
      Dyn_size_def)

lemma example_runpath: "RelativizeRunpath example_fix_host example_ctx ''/s/b:/pppppppppp'' ''/s/a''
   = [\<lparr>rp_entry = ''$ORIGIN/../b'', rp_dir = ''/s/b'', rp_keep = True\<rparr>]"
  by code_simp

lemma example_parent: "parent_path ''/s/a/f'' = ''/s/a''"
  by code_simp

definition example_dirs :: "bool \<Rightarrow> runpath_dir list" where
  "example_dirs b = [\<lparr>rp_entry = ''$ORIGIN/../b'', rp_dir = ''/s/b'', rp_keep = b\<rparr>]"

lemma example_placed:
  "place_needed example_fix_host example_ctx ''/s/a/f'' ''/s/b:/pppppppppp'' [example_needed] (example_dirs True, [], example_fixup)
   = (example_dirs False, [(example_needed, 0)], example_fixup)"
  by (simp add: place_needed_def place_one_def example_dirs_def example_needed_def loader_name_def str_contains_def
      starts_with_def example_fix_host_def path_append_def is_absolute_def IsLibc_def set_keep_def)

lemma example_plan:
  "runpath_plan ''/s/b:/pppppppppp'' (example_dirs False) [(example_needed, 0)]
   = (example_dirs False, [(example_needed, 0)], [], nul # ''$ORIGIN/../b/l'')"
  by (simp add: runpath_plan_def RenderRunpath_def render_entry_def example_dirs_def runpath_blob_def direct_target_def
      example_needed_def)

lemma example_fix: "\<exists>f'. FixRunpath example_fix_host example_ctx ''/s/a/f'' example_sections example_fixup = (True, f')"
proof -
  have img: "f_img example_fixup = example_elf"
    by (simp add: example_fixup_def)
  obtain elf where wr: "WritePadded example_elf 67 (length ''/s/b:/pppppppppp'' + 1) (nul # ''$ORIGIN/../b/l'') = (True, elf)"
    by (simp add: WritePadded_def example_elf_def example_strings_def)
  have sy: "SymbolInside example_elf example_sections k l = None" for k l
    by (simp add: SymbolInside_def dynsym_table_def find_section_def example_sections_def SHT_DYNSYM_def)
  have runs: "RelativizeRunpath example_fix_host example_ctx ''/s/b:/pppppppppp'' (parent_path ''/s/a/f'') = example_dirs True"
    unfolding example_parent example_runpath example_dirs_def ..
  show ?thesis
    unfolding FixRunpath_def img example_dynamic example_cstrings Let_def
    by (simp add: wr [simplified] example_cstrings runs [simplified] example_placed [simplified] example_plan [simplified] sy)
qed

theorem fix_runpath_reads_back_witness:
  "\<exists>f'. FixRunpath example_fix_host example_ctx ''/s/a/f'' example_sections example_fixup = (True, f') \<and>
     CString (f_img f') 67 = [] \<and> CString (f_img f') (64 + le_at 8 (f_img f') 8) = ''$ORIGIN/../b/l'' \<and>
     le_at 4 (f_img f') 52 = le_at 8 (f_img f') 8"
proof -
  obtain f' where f': "FixRunpath example_fix_host example_ctx ''/s/a/f'' example_sections example_fixup = (True, f')"
    using example_fix by blast
  have img: "f_img example_fixup = example_elf"
    by (simp add: example_fixup_def)
  have runs: "RelativizeRunpath example_fix_host example_ctx ''/s/b:/pppppppppp'' (parent_path ''/s/a/f'') = example_dirs True"
    unfolding example_parent example_runpath example_dirs_def ..
  let ?dyn = "\<lparr>di_needed = [example_needed], di_dynstr = 64, di_runpath = Some 67\<rparr>"
  have dyn: "di_runpath ?dyn = Some 67" "di_dynstr ?dyn \<le> 67" "67 + length ''/s/b:/pppppppppp'' + 1 - di_dynstr ?dyn < 2 ^ 32"
    by simp_all
  have placed: "place_needed example_fix_host example_ctx ''/s/a/f'' ''/s/b:/pppppppppp'' (di_needed ?dyn)
      (example_dirs True, [], example_fixup) = (example_dirs False, [(example_needed, 0)], example_fixup)"
    using example_placed by simp
  have names: "entries_ok (example_dirs True)"
    by (simp add: entries_ok_def example_dirs_def nul_def)
  have fields: "fields_apart (field_regions (di_needed ?dyn)) 67 (length ''/s/b:/pppppppppp'' + 1)"
    by (simp add: fields_apart_def example_needed_def apart_def)
  have len: "length example_elf < 2 ^ 63"
    by (simp add: example_elf_def example_strings_def)
  from fix_runpath_reads_back [OF f', unfolded img, OF example_dynamic dyn(1) example_cstrings(2), unfolded runs,
      OF placed example_plan names fields len dyn(2,3)] f'
  show ?thesis
    by (intro exI [of _ f']) (simp add: example_needed_def direct_target_def example_dirs_def)
qed

end
