(* ===== verification/Macho_Fixup.thy ===== *)
theory Macho_Fixup
  imports Bin_Image
begin

text \<open>
  \<^verbatim>\<open>pkgs/ji/jig/src/macho_fixup.cc\<close>: the load commands of a Mach-O file respelled relative to the file, and
  its ad-hoc signature recomputed.  Structs are their bytes.  Arithmetic on 32 bit values wraps (\<open>u32\<close>).
\<close>

unbundle bit_operations_syntax

section \<open>Load commands\<close>

definition u32 :: "nat \<Rightarrow> nat" where
  "u32 n = n mod 2 ^ 32"

definition kMagic64 :: nat where "kMagic64 = 0xfeedfacf"
definition kReqDyld :: nat where "kReqDyld = 0x80000000"
definition kLoadDylib :: nat where "kLoadDylib = 0xc"
definition kIdDylib :: nat where "kIdDylib = 0xd"
definition kLoadWeakDylib :: nat where "kLoadWeakDylib = 0x18 OR kReqDyld"
definition kRpath :: nat where "kRpath = 0x1c OR kReqDyld"
definition kReexportDylib :: nat where "kReexportDylib = 0x1f OR kReqDyld"
definition kLoadUpwardDylib :: nat where "kLoadUpwardDylib = 0x23 OR kReqDyld"
definition kCodeSignature :: nat where "kCodeSignature = 0x1d"
definition kSegment64 :: nat where "kSegment64 = 0x19"
definition kSha256Size :: nat where "kSha256Size = 32"

definition MachHeader_size :: nat where "MachHeader_size = 32"
definition LoadCommand_size :: nat where "LoadCommand_size = 8"
definition mh_magic :: "string \<Rightarrow> nat" where "mh_magic hdr = le_at 4 hdr 0"
definition mh_ncmds :: "string \<Rightarrow> nat" where "mh_ncmds hdr = le_at 4 hdr 16"
definition sizeofcmds_offset :: nat where "sizeofcmds_offset = 20"
definition lc_cmd :: "string \<Rightarrow> nat" where "lc_cmd lc = le_at 4 lc 0"
definition lc_cmdsize :: "string \<Rightarrow> nat" where "lc_cmdsize lc = le_at 4 lc 4"

record command =
  c_cmd :: nat
  c_bytes :: string
  c_path_off :: nat

definition Command_Path :: "command \<Rightarrow> string" where
  "Command_Path c = (if c_path_off c = 0 then [] else CString (c_bytes c) (c_path_off c))"

definition SetPath :: "string \<Rightarrow> command \<Rightarrow> command" where
  "SetPath path c =
     (let b1 = str_resize (c_bytes c) (c_path_off c) nul @ path;
          b2 = str_resize b1 ((length b1 + 8) div 8 * 8) nul
      in c\<lparr>c_bytes := snd (Image_Write b2 4 (le_bytes 4 (length b2)))\<rparr>)"

definition IsPathCommand :: "nat \<Rightarrow> bool" where
  "IsPathCommand cmd \<longleftrightarrow> cmd = kLoadDylib \<or> cmd = kLoadWeakDylib \<or> cmd = kReexportDylib \<or> cmd = kLoadUpwardDylib
     \<or> cmd = kIdDylib \<or> cmd = kRpath"

record load_commands =
  lcs_commands :: "command list"
  lcs_room :: nat

text \<open>\<^verbatim>\<open>Read<T>(offset).value_or(0)\<close> of an integer.\<close>

definition read_or_0 :: "nat \<Rightarrow> string \<Rightarrow> nat \<Rightarrow> nat" where
  "read_or_0 k img off = (case Image_Read k img off of None \<Rightarrow> 0 | Some b \<Rightarrow> le_value b)"

definition sect_room :: "string \<Rightarrow> nat \<Rightarrow> nat \<Rightarrow> nat \<Rightarrow> nat" where
  "sect_room img off sect room =
     (let sect_off = read_or_0 4 img (off + 72 + sect * 80 + 48) in
      if sect_off \<noteq> 0 then min room (u64 (sect_off + (2 ^ 64 - MachHeader_size))) else room)"

definition segment_room :: "string \<Rightarrow> nat \<Rightarrow> nat \<Rightarrow> nat" where
  "segment_room img off room =
     (let fileoff = read_or_0 8 img (off + 40); filesize = read_or_0 8 img (off + 48) in
      if filesize \<noteq> 0 \<and> fileoff = 0 then fold (sect_room img off) [0..<read_or_0 4 img (off + 64)] room
      else if filesize \<noteq> 0 then min room (u64 (fileoff + (2 ^ 64 - MachHeader_size)))
      else room)"

definition read_command :: "string \<Rightarrow> nat \<Rightarrow> string \<Rightarrow> command" where
  "read_command img off load =
     \<lparr>c_cmd = lc_cmd load, c_bytes = substr img off (lc_cmdsize load),
      c_path_off =
        (if IsPathCommand (lc_cmd load)
         then (let path_off = read_or_0 4 img (off + LoadCommand_size) in
               if path_off < lc_cmdsize load then path_off else 0)
         else 0)\<rparr>"

fun load_loop :: "string \<Rightarrow> nat \<Rightarrow> nat \<Rightarrow> load_commands \<Rightarrow> load_commands" where
  "load_loop img 0 off out = out"
| "load_loop img (Suc n) off out =
     (case Image_Read LoadCommand_size img off of
        None \<Rightarrow> out
      | Some load \<Rightarrow>
          if lc_cmdsize load < LoadCommand_size \<or> length img < off + lc_cmdsize load then out
          else load_loop img n (off + lc_cmdsize load)
                 (out\<lparr>lcs_commands := lcs_commands out @ [read_command img off load],
                      lcs_room := (if lc_cmd load = kSegment64 then segment_room img off (lcs_room out) else lcs_room out)\<rparr>))"

definition ReadLoadCommands :: "string \<Rightarrow> string \<Rightarrow> load_commands" where
  "ReadLoadCommands img header =
     load_loop img (mh_ncmds header) MachHeader_size
       \<lparr>lcs_commands = [], lcs_room = length img - MachHeader_size\<rparr>"

section \<open>Signature\<close>

definition Big32 :: "string \<Rightarrow> nat \<Rightarrow> nat option" where
  "Big32 img off = map_option (\<lambda>b. le_value (rev b)) (Image_Read 4 img off)"

definition big_or_0 :: "string \<Rightarrow> nat \<Rightarrow> nat" where
  "big_or_0 img off = (case Big32 img off of None \<Rightarrow> 0 | Some v \<Rightarrow> v)"

text \<open>How signing ends: the image and whether it succeeded with what was printed, or undefined behaviour, a
  \<^verbatim>\<open>substr\<close> past the end or a shift past the width.\<close>

datatype resigned = Resigned string | Refused string string | Undefined

fun find_signature :: "string \<Rightarrow> nat \<Rightarrow> nat \<Rightarrow> nat option \<Rightarrow> nat option" where
  "find_signature img 0 off sig = sig"
| "find_signature img (Suc n) off sig =
     (case Image_Read LoadCommand_size img off of
        None \<Rightarrow> sig
      | Some load \<Rightarrow>
          if lc_cmdsize load < LoadCommand_size then sig
          else find_signature img n (u64 (off + lc_cmdsize load))
                 (if lc_cmd load = kCodeSignature
                  then map_option le_value (Image_Read 4 img (u64 (off + LoadCommand_size))) else sig))"

fun sign_slots :: "nat \<Rightarrow> nat \<Rightarrow> nat \<Rightarrow> string \<Rightarrow> nat list \<Rightarrow> string \<Rightarrow> resigned" where
  "sign_slots hashes page limit shown [] img = Resigned img"
| "sign_slots hashes page limit shown (slot # slots) img =
     (let start = u64 (slot * page); fin = min (u64 (start + page)) limit in
      if length img < start then Undefined
      else (let digest = Sha256 (substr img start (u64 (fin + (2 ^ 64 - start)))) in
            case Overwrite img (hashes + slot * kSha256Size) digest of
              (False, _) \<Rightarrow> Refused img (''reloc-fixup: '' @ shown @ '': code signature slot '' @ to_decimal slot
                              @ '' lies outside the file'')
            | (True, img1) \<Rightarrow> sign_slots hashes page limit shown slots img1))"

definition sign_directory :: "nat \<Rightarrow> string \<Rightarrow> string \<Rightarrow> resigned" where
  "sign_directory dir shown img =
     (let hash_off = big_or_0 img (dir + 16); slots = big_or_0 img (dir + 28); limit = big_or_0 img (dir + 32);
          hash_size = read_or_0 1 img (dir + 36); hash_type = read_or_0 1 img (dir + 37);
          shift = read_or_0 1 img (dir + 39)
      in if 64 \<le> shift then Undefined
         else if hash_type \<noteq> 2 \<or> hash_size \<noteq> kSha256Size
         then Refused img (''reloc-fixup: '' @ shown @ '': code signature hash type '' @ to_decimal hash_type @ '' is not SHA-256'')
         else sign_slots (dir + hash_off) (2 ^ shift) limit shown [0..<slots] img)"

fun sign_blobs :: "nat \<Rightarrow> string \<Rightarrow> nat list \<Rightarrow> string \<Rightarrow> resigned" where
  "sign_blobs sig_off shown [] img = Resigned img"
| "sign_blobs sig_off shown (i # is) img =
     (let dir = u32 (sig_off + big_or_0 img (u32 (sig_off + 12) + i * 8 + 4)) in
      if Big32 img dir \<noteq> Some 0xfade0c02 then sign_blobs sig_off shown is img
      else case sign_directory dir shown img of
        Resigned img1 \<Rightarrow> sign_blobs sig_off shown is img1
      | r \<Rightarrow> r)"

definition Resign :: "string \<Rightarrow> string \<Rightarrow> resigned" where
  "Resign shown img =
     (case (case Image_Read MachHeader_size img 0 of
              None \<Rightarrow> None
            | Some header \<Rightarrow> find_signature img (mh_ncmds header) MachHeader_size None) of
        None \<Rightarrow> Resigned img
      | Some sig_off \<Rightarrow>
          if Big32 img sig_off \<noteq> Some 0xfade0cc0
          then Refused img (''reloc-fixup: '' @ shown @ '': LC_CODE_SIGNATURE is no embedded signature blob'')
          else sign_blobs sig_off shown [0..<big_or_0 img (u32 (sig_off + 8))] img)"

section \<open>Spelling\<close>

definition IsSystemPath :: "string \<Rightarrow> bool" where
  "IsSystemPath path \<longleftrightarrow> starts_with path ''/usr/lib/'' \<or> starts_with path ''/System/''"

definition same_path :: "string \<Rightarrow> string \<Rightarrow> bool" where
  "same_path a b \<longleftrightarrow> path_elems a = path_elems b"

definition Macho_Resolve :: "fixup_host \<Rightarrow> fixup_ctx \<Rightarrow> string \<Rightarrow> string \<Rightarrow> string option" where
  "Macho_Resolve h ctx here path =
     (if IsSystemPath path
      then (let stem = (if ends_with path ''.dylib'' then substr path 0 (length path - 6) else path) in
            if sdk ctx = [] \<or> h_exists h (path_append (sdk ctx) (drop 1 stem @ ''.tbd'')) then Some path else None)
      else
        (let target =
               (if starts_with path ''@rpath/''
                then map_option (\<lambda>dir. Final ctx (path_append dir (drop 7 path)))
                       (find (\<lambda>dir. h_exists h (path_append dir (drop 7 path))) (own_lib_dirs ctx))
                else if starts_with path ''@loader_path/''
                then Some (lexically_normal (path_append here (drop 13 path)))
                else if IsStorePath (h_store h) (Final ctx path) then Some (Final ctx path)
                else None)
         in case target of
              None \<Rightarrow> None
            | Some t \<Rightarrow> if \<not> same_path (OnDisk ctx t) t \<and> \<not> h_exists h (OnDisk ctx t) then None else Some t))"

definition NewSpelling :: "fixup_host \<Rightarrow> fixup_ctx \<Rightarrow> string \<Rightarrow> command \<Rightarrow> string \<Rightarrow> fixup \<Rightarrow> string option \<times> fixup" where
  "NewSpelling h ctx self c shown f =
     (let path = Command_Path c; here = parent_path self in
      if c_cmd c = kIdDylib then (Some self, f)
      else if c_cmd c = kRpath
      then (let target = Final ctx path in
            (if IsStorePath (h_store h) target then Some (RelativeTo here target ''@loader_path'') else None, f))
      else case Macho_Resolve h ctx here path of
        None \<Rightarrow> (None, complain (''reloc-fixup: '' @ shown @ '': links '' @ path
                   @ '', which neither the package, a dependency nor the SDK has'') f)
      | Some target \<Rightarrow> (Some (if IsSystemPath path then path else RelativeTo here target ''@loader_path''), f))"

definition respell :: "fixup_host \<Rightarrow> fixup_ctx \<Rightarrow> string \<Rightarrow> string \<Rightarrow> command \<Rightarrow> fixup \<Rightarrow> command \<times> fixup" where
  "respell h ctx self shown c f =
     (if c_path_off c = 0 then (c, f)
      else case NewSpelling h ctx self c shown f of
        (None, f1) \<Rightarrow> (c, f1)
      | (Some str, f1) \<Rightarrow> if str \<noteq> Command_Path c then (SetPath str c, log_add str f1) else (c, f1))"

fun respell_all :: "fixup_host \<Rightarrow> fixup_ctx \<Rightarrow> string \<Rightarrow> string \<Rightarrow> command list \<Rightarrow> fixup \<Rightarrow> command list \<times> fixup" where
  "respell_all h ctx self shown [] f = ([], f)"
| "respell_all h ctx self shown (c # cs) f =
     (case respell h ctx self shown c f of
        (c1, f1) \<Rightarrow> (case respell_all h ctx self shown cs f1 of (cs1, f2) \<Rightarrow> (c1 # cs1, f2)))"

definition write_commands :: "string \<Rightarrow> nat \<Rightarrow> command list \<Rightarrow> string" where
  "write_commands img room commands =
     (let cmds = concat (map c_bytes commands);
          img1 = snd (Image_Write img sizeofcmds_offset (le_bytes 4 (length cmds)))
      in snd (Overwrite img1 MachHeader_size (str_resize cmds room nul)))"

text \<open>\<^term>\<open>None\<close>: undefined behaviour while signing.\<close>

definition store_macho :: "fixup_host \<Rightarrow> string \<Rightarrow> string \<Rightarrow> load_commands \<Rightarrow> command list \<Rightarrow> fixup \<Rightarrow> (bool \<times> fixup) option" where
  "store_macho h path shown table commands f =
     (let need = length (concat (map c_bytes commands)) in
      if lcs_room table < need
      then Some (True, complain (''reloc-fixup: '' @ shown @ '': load commands need '' @ to_decimal need
             @ '' bytes, the header has room for '' @ to_decimal (lcs_room table) @ '' (-headerpad)'') f)
      else case Resign shown (write_commands (f_img f) (lcs_room table) commands) of
        Undefined \<Rightarrow> None
      | Refused img line \<Rightarrow> Some (True, complain line (f\<lparr>f_img := img\<rparr>))
      | Resigned img \<Rightarrow>
          (case WriteBack h path img (f\<lparr>f_img := img\<rparr>) of
             (False, f1) \<Rightarrow> Some (True, count_error f1)
           | (True, f1) \<Rightarrow> Some (True, out_line (Join (f_log f1) ''  '') f1)))"

definition FixMachO :: "fixup_host \<Rightarrow> fixup_ctx \<Rightarrow> string \<Rightarrow> fixup \<Rightarrow> (bool \<times> fixup) option" where
  "FixMachO h ctx path f =
     (case Image_Read MachHeader_size (f_img f) 0 of
        None \<Rightarrow> Some (False, f)
      | Some header \<Rightarrow>
          if mh_magic header \<noteq> kMagic64 then Some (False, f)
          else
            (let self = Final ctx path; shown = h_relative h path (fx_prefix ctx);
                 table = ReadLoadCommands (f_img f) header
             in case respell_all h ctx self shown (lcs_commands table) (f\<lparr>f_log := [shown]\<rparr>) of
                  (commands, f1) \<Rightarrow>
                    if length (f_log f1) = 1 then Some (True, f1) else store_macho h path shown table commands f1))"

section \<open>A command with a new path\<close>

definition command_ok :: "command \<Rightarrow> bool" where
  "command_ok c \<longleftrightarrow>
     (let b = c_bytes c in
      LoadCommand_size \<le> length b \<and> length b < 2 ^ 32 \<and> lc_cmd b = c_cmd c \<and> lc_cmdsize b = length b \<and>
      (if IsPathCommand (c_cmd c) then c_path_off c = le_at 4 b 8 \<and> 12 \<le> c_path_off c \<and> c_path_off c < length b
       else c_path_off c = 0))"

lemma le_at_append: "off + k \<le> length a \<Longrightarrow> le_at k (a @ b) off = le_at k a off"
  by (simp add: le_at_def substr_def)

lemma le_at_write_apart: "apart off (length v) a k \<Longrightarrow> a + k \<le> length s \<Longrightarrow> le_at k (snd (Image_Write s off v)) a = le_at k s a"
  using image.get_apart [of off v a k s] by (simp add: le_at_def Image_Read_def split: if_splits)

lemma le_at_write: "off + k \<le> length s \<Longrightarrow> le_at k (snd (Image_Write s off (le_bytes k v))) off = v mod 256 ^ k"
  using image.get_put [of off "le_bytes k v" s] by (simp add: le_at_def Image_Read_def split: if_splits)

lemma str_resize_grow: "str_resize s (length s + n) c = s @ replicate n c"
  by (simp add: str_resize_def)

lemma SetPath_bytes:
  assumes "command_ok c" "IsPathCommand (c_cmd c)"
  obtains n where "c_bytes (SetPath path c) = snd (Image_Write (take (c_path_off c) (c_bytes c) @ path @ replicate (Suc n) nul) 4
      (le_bytes 4 (c_path_off c + length path + Suc n)))"
    "c_path_off c + length path + Suc n = length (c_bytes (SetPath path c))"
proof -
  let ?p = "c_path_off c" and ?b1 = "take (c_path_off c) (c_bytes c) @ path"
  have p: "?p < length (c_bytes c)"
    using assms by (simp add: command_ok_def Let_def)
  have "length ?b1 < (length ?b1 + 8) div 8 * 8"
    by presburger
  then obtain n where n: "(length ?b1 + 8) div 8 * 8 = length ?b1 + Suc n"
    by (metis less_imp_Suc_add add_Suc_right)
  then have "str_resize ?b1 ((length ?b1 + 8) div 8 * 8) nul = ?b1 @ replicate (Suc n) nul"
    by (simp only: str_resize_grow)
  moreover have "str_resize (c_bytes c) ?p nul = take ?p (c_bytes c)"
    using p by (simp add: str_resize_def)
  ultimately show thesis
    using that [of n] p by (simp add: SetPath_def Let_def ac_simps)
qed

lemma SetPath_ok:
  assumes c: "command_ok c" "IsPathCommand (c_cmd c)" and "nul \<notin> set path" "length (c_bytes (SetPath path c)) < 2 ^ 32"
  shows "command_ok (SetPath path c)" "Command_Path (SetPath path c) = path" "c_cmd (SetPath path c) = c_cmd c"
proof -
  let ?p = "c_path_off c" and ?b = "c_bytes (SetPath path c)"
  obtain n where b: "?b = snd (Image_Write (take ?p (c_bytes c) @ path @ replicate (Suc n) nul) 4
      (le_bytes 4 (?p + length path + Suc n)))" and len: "?p + length path + Suc n = length ?b"
    using SetPath_bytes [OF c] by blast
  have p: "12 \<le> ?p" "?p < length (c_bytes c)" "le_at 4 (c_bytes c) 8 = ?p" "lc_cmd (c_bytes c) = c_cmd c"
    using c by (simp_all add: command_ok_def Let_def)
  show cmd: "c_cmd (SetPath path c) = c_cmd c"
    by (simp add: SetPath_def Let_def)
  have off: "c_path_off (SetPath path c) = ?p"
    by (simp add: SetPath_def Let_def)
  have keep: "le_at 4 ?b k = le_at 4 (c_bytes c) k" if "k = 0 \<or> k = 8" for k
  proof -
    have "le_at 4 ?b k = le_at 4 (take ?p (c_bytes c) @ path @ replicate (Suc n) nul) k"
      unfolding b using that p by (intro le_at_write_apart) (auto simp: apart_def)
    also have "\<dots> = le_at 4 (c_bytes c) k"
      using that p by (auto simp: le_at_def substr_def drop_take min_def)
    finally show ?thesis .
  qed
  have sz: "le_at 4 ?b 4 = length ?b"
    using le_at_write [of 4 4 "take ?p (c_bytes c) @ path @ replicate (Suc n) nul" "?p + length path + Suc n", folded b]
      p assms(4) len by simp
  show "command_ok (SetPath path c)"
    using keep [of 0] keep [of 8] sz p c(2) assms(4) len
    by (simp add: command_ok_def cmd off lc_cmd_def lc_cmdsize_def LoadCommand_size_def)
  have "drop ?p ?b = path @ nul # replicate n nul"
    unfolding b using p by (simp add: Image_Write_def str_replace_def)
  then have "CString ?b ?p = path"
    using assms(3) by (rule CString_at)
  then show "Command_Path (SetPath path c) = path"
    using p by (simp add: Command_Path_def off)
qed

section \<open>The table read back\<close>

lemma Image_Read_append: "k \<le> length b \<Longrightarrow> Image_Read k (a @ b @ r) (length a) = Some (take k b)"
  by (simp add: Image_Read_def substr_def)

lemma command_okD:
  assumes "command_ok c"
  shows "LoadCommand_size \<le> length (c_bytes c)" "lc_cmd (c_bytes c) = c_cmd c" "lc_cmdsize (c_bytes c) = length (c_bytes c)"
  using assms unfolding command_ok_def Let_def by blast+

lemma read_command_append:
  assumes "command_ok c"
  shows "read_command (a @ c_bytes c @ r) (length a) (take LoadCommand_size (c_bytes c)) = c"
proof -
  let ?b = "c_bytes c"
  have ok: "LoadCommand_size \<le> length ?b" "lc_cmd ?b = c_cmd c" "lc_cmdsize ?b = length ?b"
    using command_okD [OF assms] by simp_all
  have "lc_cmd (take LoadCommand_size ?b) = lc_cmd ?b" "lc_cmdsize (take LoadCommand_size ?b) = lc_cmdsize ?b"
    by (simp_all add: lc_cmd_def lc_cmdsize_def LoadCommand_size_def le_at_def substr_def drop_take min_def)
  moreover have "read_or_0 4 (a @ ?b @ r) (length a + LoadCommand_size) = le_at 4 ?b 8" if "IsPathCommand (c_cmd c)"
  proof -
    have "12 \<le> length ?b"
      using that assms by (simp add: command_ok_def Let_def)
    then show ?thesis
      by (simp add: read_or_0_def Image_Read_def substr_def le_at_def LoadCommand_size_def)
  qed
  ultimately show ?thesis
    using ok assms by (auto simp: read_command_def substr_def command_ok_def Let_def)
qed

lemma load_loop_append:
  "\<forall>c \<in> set cs. command_ok c \<Longrightarrow> off = length a \<Longrightarrow>
   lcs_commands (load_loop (a @ concat (map c_bytes cs) @ r) (length cs) off out) = lcs_commands out @ cs"
proof (induction cs arbitrary: a off out)
  case (Cons c cs)
  let ?img = "a @ concat (map c_bytes (c # cs)) @ r" and ?lc = "take LoadCommand_size (c_bytes c)"
  have img: "?img = a @ c_bytes c @ concat (map c_bytes cs) @ r" "?img = (a @ c_bytes c) @ concat (map c_bytes cs) @ r"
    by simp_all
  have ok: "command_ok c" "LoadCommand_size \<le> length (c_bytes c)" "lc_cmdsize (c_bytes c) = length (c_bytes c)"
    using Cons.prems(1) command_okD [of c] by simp_all
  have lc: "lc_cmdsize ?lc = length (c_bytes c)"
    using ok(3) by (simp add: lc_cmdsize_def LoadCommand_size_def le_at_def substr_def drop_take min_def)
  have rd: "Image_Read LoadCommand_size ?img off = Some ?lc"
    unfolding img(1) Cons.prems(2) using ok(2) by (rule Image_Read_append)
  have cmd: "read_command ?img off ?lc = c"
    unfolding img(1) Cons.prems(2) using ok(1) by (rule read_command_append)
  have fits: "\<not> (length (c_bytes c) < LoadCommand_size \<or> length ?img < off + length (c_bytes c))"
    using ok(2) Cons.prems(2) by simp
  have ih: "lcs_commands (load_loop ?img (length cs) (off + length (c_bytes c)) out') = lcs_commands out' @ cs" for out'
    unfolding img(2) using Cons.prems by (intro Cons.IH) simp_all
  show ?case
    unfolding list.size(4) add_Suc_right add_0_right load_loop.simps rd option.case lc if_not_P [OF fits] cmd ih by simp
qed simp

lemma length_write_commands [simp]: "length (write_commands img room cs) = length img"
  by (simp add: write_commands_def Overwrite_Write Let_def)

lemma write_commands_split:
  assumes "MachHeader_size + room \<le> length img" "length (concat (map c_bytes cs)) \<le> room"
  shows "\<exists>a r. write_commands img room cs = a @ concat (map c_bytes cs) @ r \<and> length a = MachHeader_size \<and>
    mh_ncmds a = mh_ncmds (take MachHeader_size img) \<and> mh_magic a = mh_magic (take MachHeader_size img)"
proof -
  let ?cmds = "concat (map c_bytes cs)"
  let ?img1 = "snd (Image_Write img sizeofcmds_offset (le_bytes 4 (length ?cmds)))"
  have "write_commands img room cs = take MachHeader_size ?img1 @ ?cmds @ replicate (room - length ?cmds) nul
      @ drop (MachHeader_size + room) ?img1"
    using assms by (simp add: write_commands_def Let_def Overwrite_Write Image_Write_def [of "snd _"] str_replace_def str_resize_def)
  moreover have "le_at 4 (take MachHeader_size ?img1) k = le_at 4 (take MachHeader_size img) k" if "k = 0 \<or> k = 16" for k
  proof -
    have "le_at 4 (take MachHeader_size s) k = le_at 4 s k" for s
      using that by (auto simp: le_at_def substr_def MachHeader_size_def drop_take min_def)
    moreover have "le_at 4 ?img1 k = le_at 4 img k"
      using that assms(1) by (intro le_at_write_apart) (auto simp: apart_def sizeofcmds_offset_def MachHeader_size_def)
    ultimately show ?thesis by simp
  qed
  ultimately show ?thesis
    using assms(1)
    by (intro exI [of _ "take MachHeader_size ?img1"]
          exI [of _ "replicate (room - length ?cmds) nul @ drop (MachHeader_size + room) ?img1"])
       (simp add: mh_ncmds_def mh_magic_def)
qed

lemma write_commands_keeps:
  assumes "MachHeader_size + room \<le> i" "i < length img" "length (concat (map c_bytes cs)) \<le> room"
  shows "write_commands img room cs ! i = img ! i"
proof -
  let ?img1 = "snd (Image_Write img sizeofcmds_offset (le_bytes 4 (length (concat (map c_bytes cs)))))"
  have "write_commands img room cs ! i = ?img1 ! i"
    using assms by (simp add: write_commands_def Let_def Overwrite_Write Image_Write_nth str_resize_def)
  also have "\<dots> = img ! i"
    using assms by (simp add: Image_Write_nth sizeofcmds_offset_def MachHeader_size_def)
  finally show ?thesis .
qed

section \<open>Room\<close>

lemma sect_room_le: "fold (sect_room img off) ss room \<le> room"
proof (induction ss arbitrary: room)
  case (Cons s ss)
  have "sect_room img off s room \<le> room"
    by (simp add: sect_room_def Let_def)
  with Cons [of "sect_room img off s room"] show ?case by simp
qed simp

lemma segment_room_le: "segment_room img off room \<le> room"
  by (simp add: segment_room_def Let_def sect_room_le)

lemma load_loop_room: "lcs_room (load_loop img n off out) \<le> lcs_room out"
proof (induction n arbitrary: off out)
  case (Suc n)
  have "lcs_room (load_loop img n o' (out\<lparr>lcs_commands := cs, lcs_room := segment_room img off (lcs_room out)\<rparr>)) \<le> lcs_room out"
    for o' cs
    by (rule order_trans [OF Suc]) (simp add: segment_room_le)
  moreover have "lcs_room (load_loop img n o' (out\<lparr>lcs_commands := cs\<rparr>)) \<le> lcs_room out" for o' cs
    by (rule order_trans [OF Suc]) simp
  ultimately show ?case
    by (auto split: option.split)
qed simp

lemma ReadLoadCommands_room: "lcs_room (ReadLoadCommands img header) \<le> length img - MachHeader_size"
  unfolding ReadLoadCommands_def by (rule order_trans [OF load_loop_room]) simp

section \<open>Properties\<close>

definition new_path :: "fixup_host \<Rightarrow> fixup_ctx \<Rightarrow> string \<Rightarrow> fixup \<Rightarrow> command \<Rightarrow> string" where
  "new_path h ctx self f c = (case fst (NewSpelling h ctx self c [] f) of None \<Rightarrow> Command_Path c | Some str \<Rightarrow> str)"

lemma NewSpelling_state: "fst (NewSpelling h ctx self c shown f) = fst (NewSpelling h ctx self c [] g)"
  by (simp add: NewSpelling_def Let_def split: option.split)

lemma respell_command:
  assumes "respell h ctx self shown c f = (c', f')" "command_ok c" "nul \<notin> set (new_path h ctx self g c)"
    and "length (c_bytes c') < 2 ^ 32"
  shows "command_ok c'" "c_cmd c' = c_cmd c" "c_path_off c \<noteq> 0 \<Longrightarrow> Command_Path c' = new_path h ctx self g c"
proof -
  have path: "IsPathCommand (c_cmd c)" if "c_path_off c \<noteq> 0"
    using that assms(2) by (auto simp: command_ok_def Let_def split: if_splits)
  obtain sp f1 where sp: "NewSpelling h ctx self c shown f = (sp, f1)" by fastforce
  then have new: "new_path h ctx self g c = (case sp of None \<Rightarrow> Command_Path c | Some str \<Rightarrow> str)"
    using NewSpelling_state [of h ctx self c shown f g] by (simp add: new_path_def)
  have "c' = c \<and> (c_path_off c \<noteq> 0 \<longrightarrow> new_path h ctx self g c = Command_Path c)
      \<or> c_path_off c \<noteq> 0 \<and> c' = SetPath (new_path h ctx self g c) c"
    using assms(1) sp new by (auto simp: respell_def split: if_splits option.splits)
  then show "command_ok c'" "c_cmd c' = c_cmd c" "c_path_off c \<noteq> 0 \<Longrightarrow> Command_Path c' = new_path h ctx self g c"
    using assms(2-4) path SetPath_ok [of c "new_path h ctx self g c"] by auto
qed

lemma respell_all_commands:
  assumes "respell_all h ctx self shown cs f = (cs', f')" "\<forall>c \<in> set cs. command_ok c \<and> nul \<notin> set (new_path h ctx self g c)"
    and "length (concat (map c_bytes cs')) < 2 ^ 32"
  shows "list_all2 (\<lambda>c c'. command_ok c' \<and> c_cmd c' = c_cmd c \<and>
    (c_path_off c \<noteq> 0 \<longrightarrow> Command_Path c' = new_path h ctx self g c)) cs cs'"
  using assms
proof (induction cs arbitrary: cs' f f')
  case (Cons c cs)
  obtain c1 f1 where c1: "respell h ctx self shown c f = (c1, f1)" by fastforce
  obtain cs1 f2 where cs1: "respell_all h ctx self shown cs f1 = (cs1, f2)" by fastforce
  have cs': "cs' = c1 # cs1"
    using Cons.prems(1) c1 cs1 by simp
  have "command_ok c" "nul \<notin> set (new_path h ctx self g c)" "length (c_bytes c1) < 2 ^ 32"
    using Cons.prems by (simp_all add: cs')
  note one = respell_command [OF c1 this]
  have "list_all2 (\<lambda>c c'. command_ok c' \<and> c_cmd c' = c_cmd c \<and>
      (c_path_off c \<noteq> 0 \<longrightarrow> Command_Path c' = new_path h ctx self g c)) cs cs1"
    using Cons.prems by (intro Cons.IH [OF cs1]) (simp_all add: cs')
  then show ?case
    using one by (simp add: cs')
qed simp


definition example_rpath :: command where
  "example_rpath = \<lparr>c_cmd = kRpath, c_bytes = le_bytes 4 kRpath @ le_bytes 4 24 @ le_bytes 4 12 @ ''/s/b'' @ replicate 8 nul,
     c_path_off = 12\<rparr>"

definition example_header :: string where
  "example_header = le_bytes 4 kMagic64 @ replicate 12 nul @ le_bytes 4 1 @ le_bytes 4 24 @ replicate 8 nul"

definition example_macho :: string where
  "example_macho = example_header @ c_bytes example_rpath @ replicate 24 nul"

definition example_macho_host :: fixup_host where
  "example_macho_host = \<lparr>h_store = \<lparr>store_dir = ''/s'', by_content = False, out_path = [], out_hash = [],
       masked_to_real = [], known_ids = (\<lambda>_. None)\<rparr>, h_exists = (\<lambda>p. True), h_relative = (\<lambda>p b. p),
     h_write = (\<lambda>_. \<lparr>opened = True, accepted = None, renamed = True\<rparr>), h_pid = 1, h_errno = [], h_new_mode = 420\<rparr>"

definition example_macho_ctx :: fixup_ctx where
  "example_macho_ctx = \<lparr>fx_prefix = ''/s/a'', fx_dest = ''/s/a'', own_lib_dirs = [], denied = [], sdk = []\<rparr>"

definition example_macho_state :: fixup where
  "example_macho_state = \<lparr>f_errors = 0, f_disk = (\<lambda>_. None), f_mode = (\<lambda>_. None), f_err = [], f_out = [],
     f_img = example_macho, f_log = [], f_dirty = False\<rparr>"

lemma path_commands [simp]: "IsPathCommand kRpath" "kRpath \<noteq> kIdDylib" "kRpath \<noteq> kSegment64" "kRpath mod 4294967296 = kRpath"
  by (simp_all add: IsPathCommand_def kRpath_def kReqDyld_def kIdDylib_def kSegment64_def)

lemma example_rpath_ok: "command_ok example_rpath"
  by (simp add: command_ok_def example_rpath_def LoadCommand_size_def lc_cmd_def lc_cmdsize_def le_at_def substr_def Let_def)

lemma example_rpath_path: "Command_Path example_rpath = ''/s/b''"
  by (simp add: Command_Path_def CString_takeWhile example_rpath_def nul_def)

lemma example_spelling:
  "Final example_macho_ctx ''/s/b'' = ''/s/b''" "RelativeTo ''/s/a'' ''/s/b'' ''@loader_path'' = ''@loader_path/../b''"
  "IsStorePath (h_store example_macho_host) ''/s/b''" "parent_path ''/s/a/x'' = ''/s/a''"
  by code_simp+

lemma example_new_path: "new_path example_macho_host example_macho_ctx ''/s/a/x'' example_macho_state example_rpath = ''@loader_path/../b''"
  using example_spelling
  by (simp add: new_path_def NewSpelling_def Let_def example_rpath_path) (simp add: example_rpath_def)

lemma example_commands:
  "ReadLoadCommands example_macho example_header = \<lparr>lcs_commands = [example_rpath], lcs_room = 48\<rparr>"
proof -
  have "mh_ncmds example_header = Suc 0"
    by (simp add: mh_ncmds_def example_header_def le_at_def substr_def)
  moreover have "Image_Read LoadCommand_size example_macho 32 = Some (take 8 (c_bytes example_rpath))"
    by (simp add: Image_Read_def substr_def example_macho_def example_header_def LoadCommand_size_def example_rpath_def)
  moreover have "lc_cmd (take 8 (c_bytes example_rpath)) = kRpath" "lc_cmdsize (take 8 (c_bytes example_rpath)) = 24"
    by (simp_all add: example_rpath_def lc_cmd_def lc_cmdsize_def le_at_def substr_def)
  moreover have "read_command example_macho 32 (take 8 (c_bytes example_rpath)) = example_rpath"
    using read_command_append [OF example_rpath_ok, of example_header "replicate 24 nul"]
    by (simp add: example_macho_def LoadCommand_size_def) (simp add: example_header_def)
  moreover have "length example_macho = 80"
    by (simp add: example_macho_def example_header_def example_rpath_def)
  ultimately show ?thesis
    by (simp add: ReadLoadCommands_def MachHeader_size_def LoadCommand_size_def)
qed

lemma example_respell: "\<exists>f1. respell_all example_macho_host example_macho_ctx ''/s/a/x'' [] [example_rpath] example_macho_state
    = ([SetPath ''@loader_path/../b'' example_rpath], f1)"
proof -
  have "c_path_off example_rpath \<noteq> 0"
    by (simp add: example_rpath_def)
  moreover have "fst (NewSpelling example_macho_host example_macho_ctx ''/s/a/x'' example_rpath [] example_macho_state)
      = Some ''@loader_path/../b''"
    using example_spelling
    by (simp add: NewSpelling_def Let_def example_rpath_path) (simp add: example_rpath_def)
  then obtain f1 where "NewSpelling example_macho_host example_macho_ctx ''/s/a/x'' example_rpath [] example_macho_state
      = (Some ''@loader_path/../b'', f1)"
    by (metis fst_conv surj_pair)
  ultimately show ?thesis
    by (simp add: respell_def example_rpath_path)
qed


end
