(* ===== verification/Fixup_Mode.thy ===== *)
theory Fixup_Mode
  imports Elf_Fixup Macho_Fixup "HOL-Library.List_Lexorder" "HOL-Library.Char_ord"
begin

text \<open>
  \<^verbatim>\<open>pkgs/ji/jig/src/fixup_mode.cc\<close>: the \<^verbatim>\<open>reloc-fixup\<close> mode over a tree of files.  The directory walk is the
  list of its entries: path, whether it is a symbolic link and whether it is a regular file.
\<close>

section \<open>Model\<close>

definition iscntrl :: "char \<Rightarrow> bool" where
  "iscntrl c \<longleftrightarrow> (of_char c :: nat) < 32 \<or> (of_char c :: nat) = 127"

definition check_denied :: "fixup_host \<Rightarrow> fixup_ctx \<Rightarrow> string \<Rightarrow> string \<Rightarrow> string \<Rightarrow> fixup \<Rightarrow> fixup" where
  "check_denied h ctx path data hash f =
     (case str_find data hash 0 of
        None \<Rightarrow> f
      | Some pos \<Rightarrow>
          complain (''reloc-fixup: '' @ h_relative h path (fx_prefix ctx) @ '' refers to build-platform ''
            @ takeWhile (\<lambda>c. \<not> iscntrl c) (substr data pos kLeakContext)) f)"

definition CheckDenied :: "fixup_host \<Rightarrow> fixup_ctx \<Rightarrow> string \<Rightarrow> string \<Rightarrow> fixup \<Rightarrow> fixup" where
  "CheckDenied h ctx path data f = fold (check_denied h ctx path data) (denied ctx) f"

definition checked_file :: "fixup_host \<Rightarrow> fixup_ctx \<Rightarrow> string \<Rightarrow> bool" where
  "checked_file h ctx path \<longleftrightarrow>
     (let rel = h_relative h path (fx_prefix ctx) in
      \<not> same_path rel ''etc/jig.json'' \<and> \<not> same_path rel ''etc/roots'')"

text \<open>\<^term>\<open>None\<close>: the program aborted on a corrupt file.\<close>

definition FixOne :: "fixup_host \<Rightarrow> fixup_ctx \<Rightarrow> string \<Rightarrow> fixup \<Rightarrow> fixup option" where
  "FixOne h ctx path f =
     (if path_extension path = ''.debug'' then Some f
      else case f_disk f path of
        None \<Rightarrow> Some f
      | Some data \<Rightarrow>
          (let f1 = (if checked_file h ctx path then CheckDenied h ctx path data f else f);
               f2 = f1\<lparr>f_img := data\<rparr>
           in case FixElf h ctx path f2 of
                None \<Rightarrow> None
              | Some (True, f3) \<Rightarrow> Some f3
              | Some (False, f3) \<Rightarrow> map_option snd (FixMachO h ctx path f3)))"

fun fix_files :: "fixup_host \<Rightarrow> fixup_ctx \<Rightarrow> string list \<Rightarrow> fixup \<Rightarrow> fixup option" where
  "fix_files h ctx [] f = Some f"
| "fix_files h ctx (path # paths) f =
     (case FixOne h ctx path f of None \<Rightarrow> None | Some f1 \<Rightarrow> fix_files h ctx paths f1)"

fun fixup_options :: "string list \<Rightarrow> fixup_ctx \<Rightarrow> string + fixup_ctx" where
  "fixup_options (opt # arg # args) ctx =
     (if opt = ''--dest'' then fixup_options args (ctx\<lparr>fx_dest := lexically_normal arg\<rparr>)
      else if opt = ''--sdk'' then fixup_options args (ctx\<lparr>sdk := arg\<rparr>)
      else if opt = ''--deny''
      then fixup_options args (ctx\<lparr>denied := denied ctx @ [substr (path_filename arg) 0 kStoreHashLength]\<rparr>)
      else Inl (''reloc-fixup: unknown argument '' @ opt))"
| "fixup_options args ctx = Inr ctx"

type_synonym dir_entry = "string \<times> bool \<times> bool"

definition walked_files :: "dir_entry list \<Rightarrow> string list" where
  "walked_files entries = map fst (filter (\<lambda>(path, link, regular). \<not> link \<and> regular) entries)"

definition has_library :: "string \<Rightarrow> bool" where
  "has_library path \<longleftrightarrow>
     (str_contains (path_filename path) ''.so'' \<or> ends_with (path_filename path) ''.dylib'')
     \<and> \<not> str_contains (parent_path path) ''/debug''"

text \<open>A \<^verbatim>\<open>std::set\<close> of paths: ordered by their elements, without duplicates.\<close>

definition lib_dir_set :: "string list \<Rightarrow> string list" where
  "lib_dir_set files = sort_key path_elems (remdups (map parent_path (filter has_library files)))"

definition RunFixupMode :: "fixup_host \<Rightarrow> (string \<Rightarrow> dir_entry list) \<Rightarrow> string list \<Rightarrow> fixup \<Rightarrow> (nat \<times> fixup) option" where
  "RunFixupMode h entries_of args f =
     (case args of
        [] \<Rightarrow> Some (2, err_line ''usage: reloc-fixup <prefix> [--dest <store path>] [--sdk <dir>] [--deny <store path>]...'' f)
      | root # opts \<Rightarrow>
          (let pre = lexically_normal root;
               ctx0 = \<lparr>fx_prefix = pre, fx_dest = pre, own_lib_dirs = [], denied = [], sdk = []\<rparr>
           in case fixup_options opts ctx0 of
                Inl line \<Rightarrow> Some (2, err_line line f)
              | Inr ctx1 \<Rightarrow>
                  if \<not> IsStorePath (h_store h) (fx_dest ctx1)
                  then Some (2, err_line (''reloc-fixup: '' @ fx_dest ctx1 @ '' is not under '' @ store_dir (h_store h)) f)
                  else
                    (let files = walked_files (entries_of pre)
                     in map_option (\<lambda>f1. (if f_errors f1 = 0 then 0 else 1, f1))
                          (fix_files h (ctx1\<lparr>own_lib_dirs := lib_dir_set files\<rparr>) files (f\<lparr>f_errors := 0\<rparr>)))))"

section \<open>What one file can change\<close>

text \<open>Fixing a file only counts errors up, and touches no other file on the disk.\<close>

definition touches :: "fixup_host \<Rightarrow> string \<Rightarrow> fixup \<Rightarrow> fixup \<Rightarrow> bool" where
  "touches h path f f' \<longleftrightarrow> f_errors f \<le> f_errors f' \<and>
     (\<forall>q. q \<noteq> path \<longrightarrow> q \<noteq> tmp_name (h_pid h) path \<longrightarrow> f_disk f' q = f_disk f q)"

lemma touches_refl [simp]: "touches h path f f"
  by (simp add: touches_def)

lemma touches_trans [trans]: "touches h path f g \<Longrightarrow> touches h path g k \<Longrightarrow> touches h path f k"
  by (auto simp: touches_def)

lemma touches_steps [simp]:
  "touches h path f (err_line l g) \<longleftrightarrow> touches h path f g" "touches h path f (out_line l g) \<longleftrightarrow> touches h path f g"
  "touches h path f (log_add l g) \<longleftrightarrow> touches h path f g" "touches h path f (g\<lparr>f_img := b\<rparr>) \<longleftrightarrow> touches h path f g"
  "touches h path f (g\<lparr>f_img := b, f_dirty := t\<rparr>) \<longleftrightarrow> touches h path f g"
  "touches h path (f\<lparr>f_log := ls\<rparr>) g \<longleftrightarrow> touches h path f g" "touches h path (f\<lparr>f_img := b\<rparr>) g \<longleftrightarrow> touches h path f g"
  "touches h path (f\<lparr>f_log := ls, f_dirty := t\<rparr>) g \<longleftrightarrow> touches h path f g"
  by (simp_all add: touches_def err_line_def out_line_def log_add_def)

lemma touches_errors [simp]: "touches h path f g \<Longrightarrow> touches h path f (count_error g)" "touches h path f g \<Longrightarrow> touches h path f (complain l g)"
  by (simp_all add: touches_def count_error_def complain_def err_line_def)

lemma touches_WriteBack: "WriteBack h path bytes f = (ok, f') \<Longrightarrow> touches h path f f'"
  by (auto simp: WriteBack_def Let_def touches_def chmod_def err_line_def WriteFile_def split: option.splits prod.splits if_splits)

lemma touches_place_one: "place_one h ctx path old lib (r, d, f) = (r', d', f') \<Longrightarrow> touches h path f f'"
  by (auto simp: place_one_def split: if_splits option.splits)

lemma touches_place_needed: "place_needed h ctx path old libs (r, d, f) = (r', d', f') \<Longrightarrow> touches h path f f'"
proof (induction libs arbitrary: r d f)
  case (Cons lib libs)
  obtain r1 d1 f1 where one: "place_one h ctx path old lib (r, d, f) = (r1, d1, f1)"
    by (metis prod_cases3)
  with Cons have "touches h path f1 f'"
    by (simp add: place_needed_def)
  with touches_place_one [OF one] show ?case
    by (rule touches_trans)
qed (simp add: place_needed_def)

lemma touches_log_runpath [simp]: "touches h path f (log_runpath runpath direct neu g) \<longleftrightarrow> touches h path f g"
proof -
  have "touches h path f (fold (\<lambda>dep. log_add (l dep)) deps g) \<longleftrightarrow> touches h path f g" for deps :: direct and l and g :: fixup
    by (induction deps arbitrary: g) simp_all
  then show ?thesis
    by (simp add: log_runpath_def)
qed

lemma touches_FixRunpath: "FixRunpath h ctx path sections f = (ok, f') \<Longrightarrow> touches h path f f'"
  by (auto simp: FixRunpath_def Let_def dest!: touches_place_needed split: option.splits prod.splits if_splits bool.splits)

lemma touches_fix_interps: "touches h path f (snd (fix_interps h ctx path ehdr stub is f))"
proof (induction "is" arbitrary: f)
  case (Cons i "is")
  have "touches h path f (snd (fix_interps h ctx path ehdr stub is g))" if "touches h path f g" for g
    using that Cons by (rule touches_trans)
  then show ?case
    by (auto simp: Let_def hide_interp_def split: option.split prod.split bool.split)
qed simp

lemma touches_FixInterp: "FixInterp h ctx path ehdr sections f = Some (ok, f') \<Longrightarrow> touches h path f f'"
  using touches_fix_interps [of h path f ctx ehdr] by (auto simp: FixInterp_def split: stub_search.splits dest!: arg_cong [of _ _ snd])

lemma touches_write_elf: "write_elf h ctx path f = (ok, f') \<Longrightarrow> touches h path f f'"
  by (auto simp: write_elf_def warn_leak_def dest!: touches_WriteBack split: if_splits prod.splits bool.splits option.splits)

lemma touches_FixElf:
  assumes "FixElf h ctx path f = Some (ok, f')"
  shows "touches h path f f'"
proof (cases "f' = f")
  case False
  let ?f = "f\<lparr>f_log := [h_relative h path (fx_prefix ctx)], f_dirty := False\<rparr>"
  obtain ehdr where ehdr: "Image_Read Ehdr_size (f_img f) 0 = Some ehdr"
    using assms False by (auto simp: FixElf_def split: if_splits option.splits)
  obtain ok1 f1 where f1: "FixRunpath h ctx path (ReadSections (f_img f) ehdr) ?f = (ok1, f1)" by fastforce
  then have t1: "touches h path f f1"
    using touches_FixRunpath by fastforce
  have "f' = f1 \<or> (\<exists>ok2 f2. FixInterp h ctx path ehdr (ReadSections (f_img f) ehdr) f1 = Some (ok2, f2) \<and>
      (f' = f2 \<or> write_elf h ctx path f2 = (ok, f')))"
    using assms False ehdr f1 by (auto simp: FixElf_def Let_def split: if_splits bool.splits option.splits)
  then show ?thesis
    using t1 by (auto dest!: touches_FixInterp touches_write_elf intro: touches_trans)
qed simp

lemma touches_respell_all: "respell_all h ctx self shown cs f = (cs', f') \<Longrightarrow> touches h path f f'"
proof (induction cs arbitrary: f cs')
  case (Cons c cs)
  have "touches h path f (snd (respell h ctx self shown c f))"
    by (simp add: respell_def NewSpelling_def Let_def split: option.split prod.split)
  with Cons show ?case
    by (fastforce split: prod.splits intro: touches_trans)
qed simp

lemma touches_store_macho: "store_macho h path shown table cs f = Some (ok, f') \<Longrightarrow> touches h path f f'"
  by (auto simp: store_macho_def Let_def dest!: touches_WriteBack split: if_splits resigned.splits prod.splits bool.splits)

lemma touches_FixMachO:
  assumes "FixMachO h ctx path f = Some (ok, f')"
  shows "touches h path f f'"
proof (cases "f' = f")
  case False
  let ?shown = "h_relative h path (fx_prefix ctx)"
  obtain header where header: "Image_Read MachHeader_size (f_img f) 0 = Some header" "mh_magic header = kMagic64"
    using assms False by (auto simp: FixMachO_def split: if_splits option.splits)
  obtain cs f1 where f1: "respell_all h ctx (Final ctx path) ?shown (lcs_commands (ReadLoadCommands (f_img f) header))
      (f\<lparr>f_log := [?shown]\<rparr>) = (cs, f1)"
    by fastforce
  have "f' = f1 \<or> store_macho h path ?shown (ReadLoadCommands (f_img f) header) cs f1 = Some (ok, f')"
    using assms header f1 by (auto simp: FixMachO_def Let_def split: if_splits)
  then show ?thesis
    using touches_respell_all [OF f1, of path] by (auto dest!: touches_store_macho intro: touches_trans)
qed simp

section \<open>Properties\<close>

lemma CheckDenied_errors:
  "f_errors (CheckDenied h ctx path data f) = f_errors f + length (filter (str_contains data) (denied ctx))"
proof -
  have "f_errors (fold (check_denied h ctx path data) hs f) = f_errors f + length (filter (str_contains data) hs)" for hs
    by (induction hs arbitrary: f)
       (auto simp: check_denied_def str_find_0 str_contains_def complain_def count_error_def err_line_def split: option.split)
  then show ?thesis
    by (simp add: CheckDenied_def)
qed

lemma CheckDenied_disk: "f_disk (CheckDenied h ctx path data f) = f_disk f"
proof -
  have "f_disk (fold (check_denied h ctx path data) hs f) = f_disk f" for hs
    by (induction hs arbitrary: f)
       (auto simp: check_denied_def complain_def count_error_def err_line_def split: option.split)
  then show ?thesis
    by (simp add: CheckDenied_def)
qed

lemma touches_CheckDenied: "touches h path f (CheckDenied h ctx path data f)"
  by (simp add: touches_def CheckDenied_errors CheckDenied_disk)

lemma FixOne_touches:
  assumes "FixOne h ctx path f = Some f'"
  shows "touches h path f f'"
    and "f_disk f path = Some data \<Longrightarrow> path_extension path \<noteq> ''.debug'' \<Longrightarrow> checked_file h ctx path \<Longrightarrow>
      touches h path (CheckDenied h ctx path data f) f'"
proof -
  have rest: "touches h path g f'" if "(case FixElf h ctx path (g\<lparr>f_img := d\<rparr>) of None \<Rightarrow> None | Some (True, f3) \<Rightarrow> Some f3
      | Some (False, f3) \<Rightarrow> map_option snd (FixMachO h ctx path f3)) = Some f'" for g d
    using that by (auto dest!: touches_FixElf touches_FixMachO split: option.splits bool.splits intro: touches_trans)
  show "touches h path f f'"
  proof (cases "path_extension path = ''.debug'' \<or> f_disk f path = None")
    case True
    with assms show ?thesis
      by (auto simp: FixOne_def split: if_splits)
  next
    case False
    then obtain d where d: "f_disk f path = Some d" by blast
    let ?g = "if checked_file h ctx path then CheckDenied h ctx path d f else f"
    have "touches h path f ?g"
      by (simp add: touches_CheckDenied)
    also have "touches h path ?g f'"
      using assms False d by (intro rest [of d ?g]) (simp add: FixOne_def Let_def)
    finally show ?thesis .
  qed
  show "touches h path (CheckDenied h ctx path data f) f'"
    if "f_disk f path = Some data" "path_extension path \<noteq> ''.debug''" "checked_file h ctx path"
    using assms that rest by (simp add: FixOne_def Let_def)
qed

lemma fix_files_errors: "fix_files h ctx paths f = Some f' \<Longrightarrow> f_errors f \<le> f_errors f'"
  by (induction paths arbitrary: f) (fastforce dest: FixOne_touches(1) simp: touches_def split: option.splits)+

lemma fix_files_denies:
  assumes "fix_files h ctx paths f = Some f'" "f_errors f' = 0" "distinct paths" "\<forall>p \<in> set paths. tmp_name (h_pid h) p \<notin> set paths"
    and "path \<in> set paths" "f_disk f path = Some data" "path_extension path \<noteq> ''.debug''" "checked_file h ctx path"
  shows "\<forall>hash \<in> set (denied ctx). \<not> str_contains data hash"
  using assms
proof (induction paths arbitrary: f)
  case (Cons p paths)
  then obtain f1 where f1: "FixOne h ctx p f = Some f1" "fix_files h ctx paths f1 = Some f'"
    by (auto split: option.splits)
  show ?case
  proof (cases "path = p")
    case True
    have "f_errors (CheckDenied h ctx p data f) \<le> f_errors f1"
      using FixOne_touches(2) [OF f1(1)] Cons.prems True by (auto simp: touches_def)
    then have "filter (str_contains data) (denied ctx) = []"
      using fix_files_errors [OF f1(2)] Cons.prems(2) by (simp add: CheckDenied_errors)
    then show ?thesis
      by (simp add: filter_empty_conv)
  next
    case False
    then have "f_disk f1 path = Some data"
      using FixOne_touches(1) [OF f1(1)] Cons.prems by (auto simp: touches_def)
    then show ?thesis
      using Cons.IH [OF f1(2)] Cons.prems False by auto
  qed
qed simp


definition deny_fixup :: fixup where
  "deny_fixup = \<lparr>f_errors = 0, f_disk = [''/s/a/f'' \<mapsto> ''hello''], f_mode = (\<lambda>_. None), f_err = [], f_out = [], f_img = [],
     f_log = [], f_dirty = False\<rparr>"

definition deny_entries :: "string \<Rightarrow> dir_entry list" where
  "deny_entries root = [(''/s/a/f'', False, True), (''/s/a/l'', True, True)]"

lemma deny_run: "\<exists>f'. RunFixupMode example_fix_host deny_entries [''/s/a'', ''--deny'', ''/s/zzz-x''] deny_fixup = Some (0, f')"
proof -
  have "map_option fst (RunFixupMode example_fix_host deny_entries [''/s/a'', ''--deny'', ''/s/zzz-x''] deny_fixup) = Some 0"
    by code_simp
  then show ?thesis
    by auto
qed

lemma deny_facts:
  "lexically_normal ''/s/a'' = ''/s/a''" "substr (path_filename ''/s/zzz-x'') 0 kStoreHashLength = ''zzz-x''"
  "tmp_name 1 ''/s/a/f'' \<noteq> ''/s/a/f''" "path_extension ''/s/a/f'' \<noteq> ''.debug''"
  by code_simp+


end
