(* ===== verification/Jig_Process.thy ===== *)
theory Jig_Process
  imports Jig_Driver
begin

text \<open>
  Child processes and job slots, \<^verbatim>\<open>pkgs/ji/jig/src/process.{h,cc}\<close>.  What the kernel and the child do is
  a record \<open>child\<close>: whether the pipe and the fork work, what each \<^verbatim>\<open>read\<close> of the pipe gives (nothing at
  the end of file and on an error), what each \<^verbatim>\<open>waitpid\<close> gives, and what the child writes to the
  descriptors it inherits.  The state of a run of the tool is a record \<open>world\<close>; what is not of this
  repository (hash, compression, JSON, the compilers, the file system queries) is a record \<open>host\<close> of
  functions.
\<close>

section \<open>Model\<close>

definition kExecFailedStatus :: nat where "kExecFailedStatus = 127"
definition kSignalStatusBase :: nat where "kSignalStatusBase = 128"

datatype wait_answer = WInterrupted | WFailed | WExited nat | WSignaled nat

record child =
  ch_pipe :: bool
  ch_fork :: bool
  ch_reads :: "string list"
  ch_waits :: "wait_answer list"
  ch_out :: string
  ch_err :: string

record run_result =
  run_status :: nat
  stderr_text :: string

type_synonym env = "string \<Rightarrow> string option"

record host =
  h_b3 :: "string \<Rightarrow> string"
  h_zc :: "string \<Rightarrow> string option"
  h_zd :: "string \<Rightarrow> nat \<Rightarrow> string option"
  h_json :: "string \<Rightarrow> json"
  h_self :: "string option"
  h_canonical :: "string \<Rightarrow> string option"
  h_exists :: "disk \<Rightarrow> string \<Rightarrow> bool"
  h_entries :: "string \<Rightarrow> (string \<times> bool) list"
  h_cwd :: string
  h_tmpdir :: string
  h_pid :: nat
  h_write :: "string \<Rightarrow> write_io"
  h_errno :: string
  h_exec :: "string list \<Rightarrow> env \<Rightarrow> stderr_mode \<Rightarrow> disk \<Rightarrow> child \<times> disk"
  h_sun_path :: nat
  h_socket :: "string \<Rightarrow> bool \<times> bool"

record world =
  w_disk :: disk
  w_executable :: "string list"
  w_env :: env
  w_store :: store
  w_cache :: client
  w_out :: string
  w_err :: string
  w_log :: "(string \<times> outcome \<times> string) list"

fun read_pipe :: "string list \<Rightarrow> string \<Rightarrow> string" where
  "read_pipe [] acc = acc"
| "read_pipe (got # reads) acc = (if got = [] then acc else read_pipe reads (acc @ got))"

text \<open>The status stays at its initial 1 when the wait fails.\<close>

fun wait_child :: "wait_answer list \<Rightarrow> nat" where
  "wait_child [] = 1"
| "wait_child (WInterrupted # waits) = wait_child waits"
| "wait_child (WFailed # waits) = 1"
| "wait_child (WExited code # waits) = code"
| "wait_child (WSignaled sig # waits) = kSignalStatusBase + sig"

definition run_child :: "stderr_mode \<Rightarrow> child \<Rightarrow> run_result" where
  "run_child mode ch =
     (let capture_stderr = (mode \<noteq> kInherit \<and> ch_pipe ch) in
      if \<not> ch_fork ch then \<lparr>run_status = kExecFailedStatus, stderr_text = ''jig: fork failed'' @ [newline]\<rparr>
      else \<lparr>run_status = wait_child (ch_waits ch),
            stderr_text = (if capture_stderr then read_pipe (ch_reads ch) [] else [])\<rparr>)"

definition Run :: "host \<Rightarrow> string \<Rightarrow> string list \<Rightarrow> stderr_mode \<Rightarrow> world \<Rightarrow> run_result \<times> world" where
  "Run h program args mode w =
     (case h_exec h (program # args) (w_env w) mode (w_disk w) of (ch, d) \<Rightarrow>
        if \<not> ch_fork ch then (run_child mode ch, w)
        else (run_child mode ch, w\<lparr>w_disk := d, w_out := w_out w @ ch_out ch, w_err := w_err w @ ch_err ch\<rparr>))"

definition Deterministic :: "run_result \<Rightarrow> bool" where
  "Deterministic run \<longleftrightarrow> run_status run < kSignalStatusBase
     \<and> \<not> str_contains (stderr_text run) ''unable to execute command''
     \<and> \<not> str_contains (stderr_text run) ''PLEASE submit a bug report''"

definition kSlotEnv :: string where "kSlotEnv = ''JIG_SLOT''"

text \<open>A slot is the build name it was acquired for, if it was.\<close>

definition Slot :: "host \<Rightarrow> string \<Rightarrow> world \<Rightarrow> string option \<times> world" where
  "Slot h socket_path w =
     (if Env (w_env w) kSlotEnv [] \<noteq> [] then (None, w)
      else case (if valid_fd (w_cache w) then (True, w_cache w)
                 else case h_socket h socket_path of (sock, refused) \<Rightarrow>
                        Connect (h_sun_path h) sock refused socket_path (w_cache w)) of
        (False, c) \<Rightarrow> (None, w\<lparr>w_cache := c\<rparr>)
      | (True, c) \<Rightarrow>
          (let build = Env (w_env w) ''NIX_BUILD_TOP'' ''-'' in
           case AcquireSlot build c of
             (False, c1) \<Rightarrow> (None, w\<lparr>w_cache := c1\<rparr>)
           | (True, c1) \<Rightarrow> (Some build, w\<lparr>w_cache := c1, w_env := (w_env w)(kSlotEnv \<mapsto> ''1'')\<rparr>)))"

definition Slot_destroy :: "string option \<Rightarrow> world \<Rightarrow> world" where
  "Slot_destroy slot w =
     (case slot of
        None \<Rightarrow> w
      | Some build \<Rightarrow> w\<lparr>w_cache := ReleaseSlot build (w_cache w), w_env := (w_env w)(kSlotEnv := None)\<rparr>)"

text \<open>\<^verbatim>\<open>LogOutcome\<close> of \<^verbatim>\<open>base.cc\<close>, without the elapsed time.\<close>

definition LogOutcome :: "string \<Rightarrow> outcome \<Rightarrow> string \<Rightarrow> world \<Rightarrow> world" where
  "LogOutcome t outcome subject w =
     (if Env (w_env w) ''JIG_LOG'' [] = [] then w else w\<lparr>w_log := w_log w @ [(t, outcome, subject)]\<rparr>)"

section \<open>What a run tells\<close>

lemma read_pipe_chunks: "read_pipe reads acc = acc @ concat (takeWhile (\<lambda>got. got \<noteq> []) reads)"
  by (induction reads acc rule: read_pipe.induct) auto

lemma wait_child_eq:
  "wait_child waits =
     (case dropWhile (\<lambda>a. a = WInterrupted) waits of
        WExited code # _ \<Rightarrow> code | WSignaled sig # _ \<Rightarrow> kSignalStatusBase + sig | _ \<Rightarrow> 1)"
  by (induction waits rule: wait_child.induct) auto

lemma run_child_signal:
  assumes "ch_fork ch" "dropWhile (\<lambda>a. a = WInterrupted) (ch_waits ch) = WSignaled sig # ws"
  shows "\<not> Deterministic (run_child mode ch)"
  using assms by (simp add: Deterministic_def run_child_def Let_def wait_child_eq)

section \<open>Slots are given back\<close>

text \<open>The environment after a slot is what it was before, whatever the run inside it does to the rest of the
  world, unless the run itself touches the slot variable.\<close>

lemma Slot_env:
  assumes "Slot h path w = (slot, w1)"
  shows "w_env w1 = (case slot of None \<Rightarrow> w_env w | Some _ \<Rightarrow> (w_env w)(kSlotEnv \<mapsto> ''1''))"
    and "slot \<noteq> None \<Longrightarrow> Env (w_env w) kSlotEnv [] = []"
    and "w_disk w1 = w_disk w" "w_out w1 = w_out w" "w_err w1 = w_err w" "w_store w1 = w_store w" "w_log w1 = w_log w"
      "w_executable w1 = w_executable w"
  using assms by (auto simp: Slot_def Let_def split: if_splits prod.splits bool.splits)

lemma Run_frame:
  assumes "Run h program args mode w = (r, w1)"
  shows "w_env w1 = w_env w" "w_cache w1 = w_cache w" "w_store w1 = w_store w" "w_log w1 = w_log w" "w_executable w1 = w_executable w"
  using assms by (auto simp: Run_def split: if_splits prod.splits)

end
