(* ===== verification/Jig_Depfile.thy ===== *)
theory Jig_Depfile
  imports Jig_Manifest
begin

text \<open>
  What \<^verbatim>\<open>ParseDepfile\<close> of \<^verbatim>\<open>pkgs/ji/jig/src/manifest.cc\<close> makes of the depfiles compilers write.
\<close>

section \<open>Depfiles as compilers write them\<close>

text \<open>A separator is a run of blanks and line continuations, \<^term>\<open>None\<close> the latter; in a name a space is
  written with a backslash.\<close>

definition sep_text :: "char option list \<Rightarrow> string" where
  "sep_text bs = concat (map (\<lambda>b. case b of Some c \<Rightarrow> [c] | None \<Rightarrow> [backslash, newline]) bs)"

lemma sep_text_simps [simp]:
  "sep_text [] = []" "sep_text (Some c # bs) = c # sep_text bs"
  "sep_text (None # bs) = backslash # newline # sep_text bs"
  by (simp_all add: sep_text_def)

definition sep_ok :: "char option list \<Rightarrow> bool" where
  "sep_ok bs \<longleftrightarrow> (\<forall>b \<in> set bs. b \<in> {None, Some CHR '' '', Some tab}) \<and> (\<exists>b \<in> set bs. b \<noteq> None)"

definition name_text :: "string \<Rightarrow> string" where
  "name_text d = concat (map (\<lambda>c. if c = CHR '' '' then [backslash, c] else [c]) d)"

definition name_ok :: "string \<Rightarrow> bool" where
  "name_ok d \<longleftrightarrow> d \<noteq> [] \<and> (\<forall>c \<in> set d. c \<notin> {newline, tab, backslash})"

lemma dep_loop_target:
  "\<forall>c \<in> set t. c \<notin> {newline, tab, backslash, CHR '' ''} \<Longrightarrow>
   dep_loop (t @ CHR '':'' # r) tok False deps = dep_loop (CHR '':'' # r) (tok @ t) False deps"
proof (induction t arbitrary: tok)
  case (Cons c t)
  then show ?case by (cases t) (auto simp del: dep_loop.simps(2) simp: dep_loop.simps(2) [of c])
qed simp

lemma dep_loop_name:
  "\<forall>c \<in> set d. c \<notin> {newline, tab, backslash} \<Longrightarrow>
   dep_loop (name_text d @ r) tok True deps = dep_loop r (tok @ d) True deps"
  by (induction d arbitrary: tok) (auto simp: name_text_def)

lemma dep_loop_blank:
  "c \<in> {CHR '' '', tab} \<Longrightarrow> dep_loop (c # s) tok True deps = dep_loop s [] True (if tok = [] then deps else deps @ [tok])"
  "dep_loop (backslash # newline # s) tok after_colon deps = dep_loop s tok after_colon deps"
  by (auto simp: dep_flush_def)

lemma dep_loop_skip:
  "\<forall>b \<in> set bs. b \<in> {None, Some CHR '' '', Some tab} \<Longrightarrow>
   dep_loop (sep_text bs @ r) [] True deps = dep_loop r [] True deps"
proof (induction bs)
  case (Cons b bs)
  then have IH: "dep_loop (sep_text bs @ r) [] True deps = dep_loop r [] True deps" by simp
  show ?case
  proof (cases b)
    case None
    then show ?thesis by (simp only: sep_text_simps append.simps dep_loop_blank IH)
  next
    case (Some c)
    then have "c \<in> {CHR '' '', tab}" using Cons.prems by auto
    then show ?thesis by (simp only: Some sep_text_simps append.simps dep_loop_blank(1) IH simp_thms if_True)
  qed
qed simp

lemma dep_loop_sep:
  "sep_ok bs \<Longrightarrow> tok \<noteq> [] \<Longrightarrow> dep_loop (sep_text bs @ r) tok True deps = dep_loop r [] True (deps @ [tok])"
proof (induction bs)
  case (Cons b bs)
  show ?case
  proof (cases b)
    case None
    with Cons.prems have "sep_ok bs" by (auto simp: sep_ok_def)
    with Cons.IH [OF this Cons.prems(2)] None show ?thesis
      by (simp only: sep_text_simps append.simps dep_loop_blank)
  next
    case (Some c)
    with Cons.prems have "\<forall>b \<in> set bs. b \<in> {None, Some CHR '' '', Some tab}" "c \<in> {CHR '' '', tab}"
      by (auto simp: sep_ok_def)
    with Some Cons.prems(2) show ?thesis
      by (simp only: sep_text_simps append.simps dep_loop_blank(1) dep_loop_skip if_False)
  qed
qed (simp add: sep_ok_def)

lemma dep_loop_colon_blank:
  "c \<in> {CHR '' '', newline, backslash} \<Longrightarrow> dep_loop (CHR '':'' # c # s) tok False [] = dep_loop (c # s) [] True []"
  "dep_loop (CHR '':'' # tab # s) tok False [] = dep_loop s [] True []"
  by (subst dep_loop.simps, auto simp: dep_flush_def)+

lemma dep_loop_colon:
  assumes "sep_ok bs"
  shows "dep_loop (CHR '':'' # sep_text bs @ r) tok False [] = dep_loop r [] True []"
proof (cases bs)
  case (Cons b bs')
  have all: "\<forall>b \<in> set bs. b \<in> {None, Some CHR '' '', Some tab}" using assms by (simp add: sep_ok_def)
  then have "b = None \<or> b = Some CHR '' '' \<or> b = Some tab" using Cons by auto
  moreover have "dep_loop (sep_text bs @ r) [] True [] = dep_loop r [] True []"
    "dep_loop (sep_text bs' @ r) [] True [] = dep_loop r [] True []"
    using all Cons by (simp_all add: dep_loop_skip del: dep_loop.simps)
  ultimately show ?thesis
    using Cons dep_loop_colon_blank by (elim disjE) (simp_all del: dep_loop.simps)
qed (use assms in \<open>simp add: sep_ok_def\<close>)

lemma dep_loop_items:
  "\<forall>(bs, d) \<in> set items. sep_ok bs \<and> name_ok d \<Longrightarrow> tok \<noteq> [] \<Longrightarrow>
   dep_loop (concat (map (\<lambda>(bs, d). sep_text bs @ name_text d) items) @ newline # rest) tok True deps
     = deps @ tok # map snd items"
proof (induction items arbitrary: tok deps)
  case Nil
  then show ?case by (simp add: dep_flush_def)
next
  case (Cons x items)
  obtain bs d where x: "x = (bs, d)" by (cases x)
  with Cons.prems have "sep_ok bs" "name_ok d" by auto
  with Cons x show ?case by (simp add: dep_loop_sep dep_loop_name name_ok_def)
qed

text \<open>\<^verbatim>\<open>ParseDepfile\<close> reads the prerequisites of the first rule as compilers write them: names with
  escaped spaces, separated by blanks and line continuations, whatever rules follow.\<close>

lemma parse_depfile_names:
  assumes "\<forall>c \<in> set target. c \<notin> {newline, tab, backslash, CHR '' ''}"
    and "\<forall>(bs, d) \<in> set items. sep_ok bs \<and> name_ok d"
  shows "ParseDepfile (target @ '':'' @ concat (map (\<lambda>(bs, d). sep_text bs @ name_text d) items) @ [newline] @ rest)
    = map snd items"
proof (cases items)
  case Nil
  then show ?thesis
    using dep_loop_target [OF assms(1), of "newline # rest" "[]" "[]"]
    by (simp add: ParseDepfile_def dep_flush_def)
next
  case (Cons x xs)
  obtain bs d where x: "x = (bs, d)" by (cases x)
  let ?r = "concat (map (\<lambda>(bs, d). sep_text bs @ name_text d) xs) @ newline # rest"
  have "sep_ok bs" "name_ok d" "\<forall>(bs, d) \<in> set xs. sep_ok bs \<and> name_ok d" using assms(2) Cons x by auto
  then show ?thesis
    using dep_loop_target [OF assms(1), of "sep_text bs @ name_text d @ ?r" "[]" "[]"]
      dep_loop_colon [of bs "name_text d @ ?r" target] dep_loop_name [of d ?r "[]" "[]"]
      dep_loop_items [of xs d rest "[]"]
    by (simp add: ParseDepfile_def Cons x name_ok_def)
qed

theorem parse_depfile_names_witness:
  "ParseDepfile (''x.o'' @ '':'' @ concat (map (\<lambda>(bs, d). sep_text bs @ name_text d)
      [([Some CHR '' ''], ''a.c''), ([Some CHR '' '', None, Some CHR '' ''], ''my dir/b.h'')]) @ [newline] @ ''b.h:'')
   = [''a.c'', ''my dir/b.h'']"
  using parse_depfile_names [of "''x.o''"
      "[([Some CHR '' ''], ''a.c''), ([Some CHR '' '', None, Some CHR '' ''], ''my dir/b.h'')]" "''b.h:''"]
  by (simp add: sep_ok_def name_ok_def)

text \<open>An input under one of cmake's randomly named scratch directories never validates: its line has the
  masked name, which no store root resolves, and a file of that name does not exist.\<close>

lemma scratch_inputs_never_hold:
  defines "p \<equiv> ''/b/TryCompile-abc123/x.h''"
  shows "fst (ValidateManifest toy_b3 [p \<mapsto> ''int x;''] (\<lambda>q. q = p) ''k1''
      (manifest_text (fst (BuildManifest toy_b3 [p \<mapsto> ''int x;''] (\<lambda>q. q = p) ''k1'' [p] ''a.c'' []
         (example_store, offline)))) (example_store, offline))
    = Inl ''inputs-changed:/b/TryCompile-######/x.h''"
  unfolding p_def by code_simp

end
