(* ===== verification/Cc_Parse.thy ===== *)
theory Cc_Parse
  imports Jig_Files
begin

text \<open>
  The command line of \<^verbatim>\<open>pkgs/ji/jig/src/cc_mode.{h,cc}\<close>: which arguments influence the output and
  what kind of run it is.  The index loop of \<^verbatim>\<open>ParseInvocation\<close> is a recursion on the arguments still
  to read; an option that takes the next argument returns the rest behind it.  The last of
  \<^verbatim>\<open>-c -S -E\<close> is an optional character.
\<close>

section \<open>Model\<close>

record invocation =
  inv_args :: "string list"
  key_args :: "string list"
  inv_source :: string
  inv_inputs :: "string list"
  inv_pch :: "string list"
  inv_output :: string
  compile_only :: bool
  to_stdout :: bool
  link_one :: bool
  inv_link :: bool
  cacheable :: bool
  inv_query :: bool
  wants_depfile :: bool
  inv_depfile :: string
  depfile_target :: string

definition new_invocation :: "string list \<Rightarrow> invocation" where
  "new_invocation args =
     \<lparr>inv_args = args, key_args = [], inv_source = [], inv_inputs = [], inv_pch = [], inv_output = [],
      compile_only = False, to_stdout = False, link_one = False, inv_link = False, cacheable = True,
      inv_query = False, wants_depfile = False, inv_depfile = [], depfile_target = []\<rparr>"

definition HasSuffix :: "string \<Rightarrow> string list \<Rightarrow> bool" where
  "HasSuffix arg exts \<longleftrightarrow> list_ex (\<lambda>ext. length ext < length arg \<and> ends_with arg ext) exts"

definition IsAssembly :: "string \<Rightarrow> bool" where
  "IsAssembly path = HasSuffix path [''.S'', ''.s'', ''.sx'']"

definition IsPlainAssembly :: "string \<Rightarrow> bool" where
  "IsPlainAssembly path = HasSuffix path [''.s'']"

definition IsSourceFile :: "string \<Rightarrow> bool" where
  "IsSourceFile arg \<longleftrightarrow> \<not> starts_with arg ''-''
     \<and> HasSuffix arg [''.c'', ''.cc'', ''.cpp'', ''.cxx'', ''.c++'', ''.C'', ''.S'', ''.s'', ''.sx'', ''.m'']"

definition IsObjectInput :: "string \<Rightarrow> bool" where
  "IsObjectInput arg \<longleftrightarrow> \<not> starts_with arg ''-''
     \<and> (HasSuffix arg [''.o'', ''.os'', ''.lo'', ''.a'', ''.so'', ''.obj''] \<or> str_contains arg ''.so.'')"

definition HasLinkerSideOutput :: "string \<Rightarrow> bool" where
  "HasLinkerSideOutput arg \<longleftrightarrow>
     (starts_with arg ''-Wl,'' \<or> starts_with arg ''-Xlinker'')
     \<and> (list_ex (str_contains arg)
          [''-Map'', ''--print-map'', '',-M,'', ''--dependency-file'', ''--out-implib'',
           ''--trace'', '',-t,'', ''--verbose'', ''--print-gc-sections'', ''--stats'']
        \<or> ends_with arg '',-M'' \<or> ends_with arg '',-t'')"

definition IsNoOutputOption :: "string \<Rightarrow> bool" where
  "IsNoOutputOption arg \<longleftrightarrow>
     arg \<in> set [''-M'', ''-MM'', ''-'', ''-v'', ''-V'', ''--version'', ''-###'', ''-fsyntax-only'']
     \<or> starts_with arg ''-print'' \<or> starts_with arg ''--print'' \<or> starts_with arg ''-dump''"

text \<open>The options below get the argument at hand and those behind it.\<close>

definition TakeDepfileOption :: "string \<Rightarrow> string list \<Rightarrow> invocation \<Rightarrow> (string list \<times> invocation) option" where
  "TakeDepfileOption arg rest iv =
     (let has_next = (rest \<noteq> []) in
      if arg = ''-MF'' \<and> has_next then
        Some (tl rest, iv\<lparr>inv_depfile := hd rest, wants_depfile := True\<rparr>)
      else if (arg = ''-MT'' \<or> arg = ''-MQ'') \<and> has_next then
        Some (tl rest, iv\<lparr>depfile_target := hd rest, wants_depfile := True\<rparr>)
      else if starts_with arg ''-Wp,-MD,'' \<or> starts_with arg ''-Wp,-MMD,'' then
        Some (rest, iv\<lparr>inv_depfile := (case str_find arg '','' 5 of Some i \<Rightarrow> drop (i + 1) arg | None \<Rightarrow> arg),
                         wants_depfile := True\<rparr>)
      else if arg \<noteq> ''-MD'' \<and> arg \<noteq> ''-MMD'' \<and> arg \<noteq> ''-MP'' then None
      else Some (rest, iv\<lparr>wants_depfile := True\<rparr>))"

fun skip_xclang :: "string list \<Rightarrow> invocation \<Rightarrow> string list \<times> invocation" where
  "skip_xclang [] iv = ([], iv)"
| "skip_xclang (arg # rest) iv =
     (if arg = ''-Xclang'' then skip_xclang rest (iv\<lparr>key_args := key_args iv @ [arg]\<rparr>)
      else (arg # rest, iv))"

definition TakePchOption :: "string \<Rightarrow> string list \<Rightarrow> invocation \<Rightarrow> (string list \<times> invocation) option" where
  "TakePchOption arg rest iv =
     (if arg \<noteq> ''-include-pch'' then None
      else case skip_xclang rest (iv\<lparr>key_args := key_args iv @ [arg]\<rparr>) of
        ([], iv') \<Rightarrow> Some ([], iv')
      | (file # rest', iv') \<Rightarrow>
          Some (rest', iv'\<lparr>key_args := key_args iv' @ [file], inv_pch := inv_pch iv' @ [file]\<rparr>))"

text \<open>The local variables of the loop.\<close>

record parse_state =
  ps_inv :: invocation
  ps_objects :: bool
  ps_sources :: nat
  ps_stop :: "char option"

definition other_arg :: "string \<Rightarrow> parse_state \<Rightarrow> parse_state" where
  "other_arg arg ps =
     (let iv = ps_inv ps in
      ps\<lparr>ps_objects := ps_objects ps \<or> arg = ''-shared'' \<or> arg = ''-r'',
         ps_inv := iv\<lparr>cacheable := cacheable iv \<and> \<not> starts_with arg ''@'' \<and> \<not> str_contains arg '',@''
                        \<and> \<not> HasLinkerSideOutput arg \<and> \<not> ends_with arg ''-header'',
                      key_args := key_args iv @ [arg]\<rparr>\<rparr>)"

definition parse_arg :: "string \<Rightarrow> string list \<Rightarrow> parse_state \<Rightarrow> string list \<times> parse_state" where
  "parse_arg arg rest ps =
     (let iv = ps_inv ps in
      case TakeDepfileOption arg rest iv of
        Some (rest', iv') \<Rightarrow> (rest', ps\<lparr>ps_inv := iv'\<rparr>)
      | None \<Rightarrow>
          if arg = ''-c'' \<or> arg = ''-S'' \<or> arg = ''-E'' then
            (rest, ps\<lparr>ps_inv := iv\<lparr>compile_only := True, key_args := key_args iv @ [arg]\<rparr>,
                       ps_stop := Some (arg ! 1)\<rparr>)
          else if arg = ''-o'' \<and> rest \<noteq> [] then
            (tl rest, ps\<lparr>ps_inv := iv\<lparr>inv_output := hd rest\<rparr>\<rparr>)
          else if starts_with arg ''-o'' \<and> 2 < length arg then
            (rest, ps\<lparr>ps_inv := iv\<lparr>inv_output := drop 2 arg\<rparr>\<rparr>)
          else if IsNoOutputOption arg then
            (rest, ps\<lparr>ps_inv := iv\<lparr>cacheable := False, inv_query := True\<rparr>\<rparr>)
          else if IsSourceFile arg then
            (rest, ps\<lparr>ps_inv := iv\<lparr>inv_source := arg\<rparr>, ps_sources := ps_sources ps + 1\<rparr>)
          else case TakePchOption arg rest iv of
            Some (rest', iv') \<Rightarrow> (rest', ps\<lparr>ps_inv := iv'\<rparr>)
          | None \<Rightarrow>
              if IsObjectInput arg then
                (rest, ps\<lparr>ps_objects := True,
                           ps_inv := iv\<lparr>inv_inputs := inv_inputs iv @ [arg], key_args := key_args iv @ [arg]\<rparr>\<rparr>)
              else (rest, other_arg arg ps))"

lemma skip_xclang_length: "length (fst (skip_xclang rest iv)) \<le> length rest"
  by (induction rest iv rule: skip_xclang.induct) auto

lemma TakeDepfileOption_length: "TakeDepfileOption arg rest iv = Some (rest', iv') \<Longrightarrow> length rest' \<le> length rest"
  by (auto simp: TakeDepfileOption_def Let_def split: if_splits)

lemma TakePchOption_length: "TakePchOption arg rest iv = Some (rest', iv') \<Longrightarrow> length rest' \<le> length rest"
  using skip_xclang_length [of rest "iv\<lparr>key_args := key_args iv @ [arg]\<rparr>"]
  by (auto simp: TakePchOption_def split: if_splits prod.splits list.splits)

lemma parse_arg_length: "length (fst (parse_arg arg rest ps)) \<le> length rest"
  by (auto simp: parse_arg_def Let_def
      dest!: TakeDepfileOption_length TakePchOption_length split: option.splits)

function parse_loop :: "string list \<Rightarrow> parse_state \<Rightarrow> parse_state" where
  "parse_loop [] ps = ps"
| "parse_loop (arg # rest) ps =
     (case parse_arg arg rest ps of (rest', ps') \<Rightarrow> parse_loop rest' ps')"
  by pat_completeness auto
termination
proof (relation "measure (\<lambda>(args, ps). length args)", goal_cases)
  case (2 arg rest ps rest' ps')
  then show ?case using parse_arg_length [of arg rest ps] by (metis fst_conv in_measure le_imp_less_Suc length_Cons case_prod_conv)
qed simp

definition Classify :: "(string \<Rightarrow> string option) \<Rightarrow> nat \<Rightarrow> invocation \<Rightarrow> nat \<Rightarrow> bool \<Rightarrow> char option \<Rightarrow> invocation" where
  "Classify env pid iv sources objects stop =
     (let iv1 =
        (if compile_only iv then
           (let iv = iv\<lparr>cacheable := cacheable iv \<and> sources = 1,
                          inv_query := inv_query iv
                            \<or> (stop = Some CHR ''E'' \<and> (sources = 0 \<or> inv_source iv = ''/dev/null''))\<rparr>
            in if stop = Some CHR ''E'' \<and> (inv_output iv = [] \<or> inv_output iv = ''-'') then
                 iv\<lparr>to_stdout := True,
                     inv_output := path_append (Env env ''TMPDIR'' ''/tmp'') (''jig'' @ to_decimal pid @ ''.i'')\<rparr>
               else if inv_output iv = [] then
                 iv\<lparr>inv_output := path_stem (inv_source iv) @ (if stop = Some CHR ''S'' then ''.s'' else ''.o'')\<rparr>
               else iv)
         else
           (let iv = iv\<lparr>link_one := \<not> objects \<and> sources = 1,
                          inv_link := objects \<and> sources = 0 \<and> inv_inputs iv \<noteq> []\<rparr>;
                iv = iv\<lparr>cacheable := cacheable iv \<and> (link_one iv \<or> inv_link iv)\<rparr>;
                iv = (if inv_output iv = [] then iv\<lparr>inv_output := ''a.out''\<rparr> else iv)
            in if inv_link iv then iv\<lparr>inv_source := path_filename (inv_output iv)\<rparr> else iv))
      in if wants_depfile iv1 \<and> inv_depfile iv1 = []
         then iv1\<lparr>inv_depfile := replace_extension (inv_output iv1) ''.d''\<rparr> else iv1)"

definition parse_start :: "string list \<Rightarrow> parse_state" where
  "parse_start args = \<lparr>ps_inv = new_invocation args, ps_objects = False, ps_sources = 0, ps_stop = None\<rparr>"

definition ParseInvocation :: "(string \<Rightarrow> string option) \<Rightarrow> nat \<Rightarrow> string list \<Rightarrow> invocation" where
  "ParseInvocation env pid args =
     (let ps = parse_loop args (parse_start args);
          iv = ps_inv ps;
          iv = iv\<lparr>cacheable := cacheable iv \<and> path_extension (inv_output iv) \<noteq> ''.pch''
                      \<and> path_extension (inv_output iv) \<noteq> ''.gch'' \<and> inv_output iv \<noteq> ''/dev/null''\<rparr>
      in Classify env pid iv (ps_sources ps) (ps_objects ps) (ps_stop ps))"

section \<open>What the loop keeps\<close>

lemma skip_xclang_words:
  "skip_xclang rest iv = (rest', iv') \<Longrightarrow>
   key_args iv' @ rest' = key_args iv @ rest \<and> inv_args iv' = inv_args iv \<and> inv_inputs iv' = inv_inputs iv
     \<and> cacheable iv' = cacheable iv \<and> inv_query iv' = inv_query iv \<and> inv_pch iv' = inv_pch iv"
  by (induction rest iv rule: skip_xclang.induct) (auto split: if_splits)

lemma TakeDepfileOption_cases:
  "TakeDepfileOption arg rest iv = Some (rest', iv') \<Longrightarrow> (rest' = rest \<or> rest' = tl rest)
     \<and> iv' = iv\<lparr>inv_depfile := inv_depfile iv', depfile_target := depfile_target iv', wants_depfile := True\<rparr>"
  unfolding TakeDepfileOption_def Let_def by (cases iv) (simp split: if_split_asm, auto)

lemma TakeDepfileOption_words:
  assumes "TakeDepfileOption arg rest iv = Some (rest', iv')"
  shows "subseq rest' rest \<and> key_args iv' = key_args iv \<and> inv_args iv' = inv_args iv \<and> inv_inputs iv' = inv_inputs iv
     \<and> cacheable iv' = cacheable iv \<and> inv_query iv' = inv_query iv \<and> link_one iv' = link_one iv \<and> inv_link iv' = inv_link iv"
proof -
  have "subseq (tl rest) rest" by (cases rest) auto
  moreover obtain f t where "iv' = iv\<lparr>inv_depfile := f, depfile_target := t, wants_depfile := True\<rparr>"
    using TakeDepfileOption_cases [OF assms, THEN conjunct2] by blast
  ultimately show ?thesis using TakeDepfileOption_cases [OF assms, THEN conjunct1] by auto
qed

lemma TakePchOption_words:
  assumes "TakePchOption arg rest iv = Some (rest', iv')"
  shows "key_args iv' @ rest' = key_args iv @ arg # rest \<and> inv_args iv' = inv_args iv
    \<and> inv_inputs iv' = inv_inputs iv \<and> cacheable iv' = cacheable iv \<and> inv_query iv' = inv_query iv"
proof -
  obtain r i where ri: "skip_xclang rest (iv\<lparr>key_args := key_args iv @ [arg]\<rparr>) = (r, i)" by fastforce
  from skip_xclang_words [OF ri] show ?thesis
    using assms ri by (auto simp: TakePchOption_def split: if_splits list.splits)
qed

text \<open>The key words so far and the words still to read are words of the command line, in order.\<close>

definition parse_inv :: "string list \<Rightarrow> string list \<Rightarrow> parse_state \<Rightarrow> bool" where
  "parse_inv args rest ps \<longleftrightarrow> inv_args (ps_inv ps) = args
     \<and> subseq (key_args (ps_inv ps) @ rest) args
     \<and> (inv_inputs (ps_inv ps) \<noteq> [] \<longrightarrow> ps_objects ps)
     \<and> (inv_query (ps_inv ps) \<longrightarrow> \<not> cacheable (ps_inv ps))
     \<and> \<not> link_one (ps_inv ps) \<and> \<not> inv_link (ps_inv ps)"

lemma subseq_drop_word:
  assumes "subseq (ks @ arg # rest) args" "subseq rest' rest"
  shows "subseq (ks @ rest') args"
proof -
  have "subseq (ks @ rest') (ks @ arg # rest)"
    using assms(2) by (intro list_emb_append_mono list_emb_Cons) auto
  then show ?thesis using assms(1) by (rule subseq_order.trans)
qed

lemma subseq_tl_word: "subseq (ks @ arg # rest) args \<Longrightarrow> subseq (ks @ tl rest) args"
  by (erule subseq_drop_word) (cases rest, auto)

lemma skip_xclang_links:
  "skip_xclang rest iv = (rest', iv') \<Longrightarrow> link_one iv' = link_one iv \<and> inv_link iv' = inv_link iv"
  by (induction rest iv rule: skip_xclang.induct) (auto split: if_splits)

lemma TakePchOption_links:
  assumes "TakePchOption arg rest iv = Some (rest', iv')"
  shows "link_one iv' = link_one iv \<and> inv_link iv' = inv_link iv"
proof -
  obtain r i where ri: "skip_xclang rest (iv\<lparr>key_args := key_args iv @ [arg]\<rparr>) = (r, i)" by fastforce
  from skip_xclang_links [OF ri] show ?thesis
    using assms ri by (auto simp: TakePchOption_def split: if_splits list.splits)
qed

lemma parse_arg_cases:
  assumes "parse_arg arg rest ps = (rest', ps')"
  obtains (depfile) iv' where "TakeDepfileOption arg rest (ps_inv ps) = Some (rest', iv')" "ps' = ps\<lparr>ps_inv := iv'\<rparr>"
    | (stop) "rest' = rest" "ps' = ps\<lparr>ps_inv := (ps_inv ps)\<lparr>compile_only := True, key_args := key_args (ps_inv ps) @ [arg]\<rparr>,
        ps_stop := Some (arg ! 1)\<rparr>"
    | (outfile) f where "rest' = tl rest \<or> rest' = rest" "ps' = ps\<lparr>ps_inv := (ps_inv ps)\<lparr>inv_output := f\<rparr>\<rparr>"
    | (no_output) "rest' = rest" "ps' = ps\<lparr>ps_inv := (ps_inv ps)\<lparr>cacheable := False, inv_query := True\<rparr>\<rparr>"
    | (source) "rest' = rest" "ps' = ps\<lparr>ps_inv := (ps_inv ps)\<lparr>inv_source := arg\<rparr>, ps_sources := ps_sources ps + 1\<rparr>"
    | (pch) iv' where "TakePchOption arg rest (ps_inv ps) = Some (rest', iv')" "ps' = ps\<lparr>ps_inv := iv'\<rparr>"
    | (obj) "rest' = rest" "ps' = ps\<lparr>ps_objects := True, ps_inv := (ps_inv ps)\<lparr>
        inv_inputs := inv_inputs (ps_inv ps) @ [arg], key_args := key_args (ps_inv ps) @ [arg]\<rparr>\<rparr>"
    | (other) "rest' = rest" "ps' = other_arg arg ps"
proof (cases "TakeDepfileOption arg rest (ps_inv ps)")
  case (Some x)
  with assms depfile show ?thesis by (cases x) (simp add: parse_arg_def)
next
  case None
  note d = assms [unfolded parse_arg_def Let_def None option.case]
  show ?thesis
  proof (cases "arg = ''-c'' \<or> arg = ''-S'' \<or> arg = ''-E''")
    case True
    from d have "rest = rest'" "ps\<lparr>ps_inv := (ps_inv ps)\<lparr>compile_only := True, key_args := key_args (ps_inv ps) @ [arg]\<rparr>,
        ps_stop := Some (arg ! 1)\<rparr> = ps'"
      by (simp_all only: if_P [OF True] prod.inject)
    then show ?thesis by (intro stop) simp_all
  next
    case False
    note d = d [unfolded if_not_P [OF False]]
    show ?thesis
    proof (cases "arg = ''-o'' \<and> rest \<noteq> []")
      case True
      from d show ?thesis unfolding if_P [OF True] prod.inject by (intro outfile) auto
    next
      case False
      note d = d [unfolded if_not_P [OF False]]
      show ?thesis
      proof (cases "starts_with arg ''-o'' \<and> 2 < length arg")
        case True
        from d show ?thesis unfolding if_P [OF True] prod.inject by (intro outfile) auto
      next
        case False
        note d = d [unfolded if_not_P [OF False]]
        show ?thesis
        proof (cases "IsNoOutputOption arg")
          case True
          from d show ?thesis unfolding if_P [OF True] prod.inject by (intro no_output) auto
        next
          case False
          note d = d [unfolded if_not_P [OF False]]
          show ?thesis
          proof (cases "IsSourceFile arg")
            case True
            from d show ?thesis unfolding if_P [OF True] prod.inject by (intro source) auto
          next
            case False
            note d = d [unfolded if_not_P [OF False]]
            show ?thesis
            proof (cases "TakePchOption arg rest (ps_inv ps)")
              case (Some x)
              with d pch show ?thesis by (cases x) simp
            next
              case None
              with d obj other show ?thesis by (simp only: option.case split: if_split_asm) simp_all
            qed
          qed
        qed
      qed
    qed
  qed
qed

lemma parse_inv_step:
  assumes inv: "parse_inv args (arg # rest) ps" and step: "parse_arg arg rest ps = (rest', ps')"
  shows "parse_inv args rest' ps'"
proof -
  have s: "subseq (key_args (ps_inv ps) @ arg # rest) args" using inv by (simp add: parse_inv_def)
  note dr = subseq_drop_word [OF s] subseq_tl_word [OF s] subseq_drop_word [OF s, of rest, OF subseq_order.order_refl]
  from step show ?thesis
  proof (cases rule: parse_arg_cases)
    case (depfile iv')
    then show ?thesis
      using inv TakeDepfileOption_words [OF depfile(1)] dr(1) [of rest']
      by (simp add: parse_inv_def)
  next
    case (pch iv')
    then show ?thesis
      using inv s TakePchOption_words [OF pch(1)] TakePchOption_links [OF pch(1)] by (simp add: parse_inv_def)
  qed (use inv s dr in \<open>auto simp: parse_inv_def other_arg_def Let_def\<close>)
qed

lemma parse_inv_loop: "parse_inv args rest ps \<Longrightarrow> parse_inv args [] (parse_loop rest ps)"
proof (induction rest ps rule: parse_loop.induct)
  case (2 arg rest ps)
  then show ?case using parse_inv_step by (auto split: prod.splits)
qed simp

lemma parse_inv_start: "parse_inv args args (parse_start args)"
  by (simp add: parse_inv_def parse_start_def new_invocation_def)

lemma Classify_words [simp]:
  "inv_args (Classify env pid iv n obj stop) = inv_args iv"
  "key_args (Classify env pid iv n obj stop) = key_args iv"
  "inv_inputs (Classify env pid iv n obj stop) = inv_inputs iv"
  "compile_only (Classify env pid iv n obj stop) = compile_only iv"
  by (simp_all add: Classify_def Let_def)

lemma Classify_kinds:
  "cacheable (Classify env pid iv n obj stop) =
     (cacheable iv \<and> (if compile_only iv then n = 1
        else (\<not> obj \<and> n = 1) \<or> (obj \<and> n = 0 \<and> inv_inputs iv \<noteq> [])))"
  "link_one (Classify env pid iv n obj stop) = (if compile_only iv then link_one iv else \<not> obj \<and> n = 1)"
  "inv_link (Classify env pid iv n obj stop) =
     (if compile_only iv then inv_link iv else obj \<and> n = 0 \<and> inv_inputs iv \<noteq> [])"
  by (auto simp: Classify_def Let_def)

lemma parse_result: "parse_inv args [] (parse_loop args (parse_start args))"
  by (rule parse_inv_loop [OF parse_inv_start])

section \<open>Properties\<close>

text \<open>The words that enter the key of a compiler run are words of its command line, in their order,
  and the real compiler gets the command line as it was.\<close>

lemma parse_keeps_words:
  "inv_args (ParseInvocation env pid args) = args \<and> subseq (key_args (ParseInvocation env pid args)) args"
  using parse_result [of args] by (simp add: ParseInvocation_def Let_def parse_inv_def)

text \<open>Only three kinds of run are ever cached: one source to one file without a link, one source
  and no object straight to an executable, or objects only.  Several sources at once, sources mixed with
  objects and queries never are.\<close>

lemma cacheable_kinds:
  fixes env pid args
  defines "iv \<equiv> ParseInvocation env pid args"
    and "n \<equiv> ps_sources (parse_loop args (parse_start args))"
  assumes "cacheable iv"
  shows "\<not> inv_query (ps_inv (parse_loop args (parse_start args)))
    \<and> (if compile_only iv then \<not> link_one iv \<and> \<not> inv_link iv \<and> n = 1
       else if link_one iv then \<not> inv_link iv \<and> n = 1 \<and> inv_inputs iv = []
       else inv_link iv \<and> n = 0 \<and> inv_inputs iv \<noteq> [])"
  using assms(3) parse_result [of args] unfolding iv_def n_def ParseInvocation_def Let_def
  by (auto simp: Classify_kinds parse_inv_def split: if_splits)

definition no_env :: "string \<Rightarrow> string option" where
  "no_env name = None"

theorem cacheable_kinds_witness:
  "inv_link (ParseInvocation no_env 1 [''a.o'', ''b.o'', ''-o'', ''x''])"
proof -
  have c: "cacheable (ParseInvocation no_env 1 [''a.o'', ''b.o'', ''-o'', ''x''])"
    "\<not> compile_only (ParseInvocation no_env 1 [''a.o'', ''b.o'', ''-o'', ''x''])"
    "\<not> link_one (ParseInvocation no_env 1 [''a.o'', ''b.o'', ''-o'', ''x''])" by code_simp+
  from cacheable_kinds [OF c(1)] c(2,3) show ?thesis by simp
qed

end
