(* ===== verification/Cc_Depfile.thy ===== *)
theory Cc_Depfile
  imports Cc_Parse
begin

text \<open>
  Depfile options (\<^verbatim>\<open>-MD -MMD -MP -MF -MT -MQ -Wp,-MD,\<close>) and the parsed command line: what
  \<^verbatim>\<open>ParseInvocation\<close> of \<^verbatim>\<open>pkgs/ji/jig/src/cc_mode.cc\<close> finds does not depend on them, apart from the
  fields that say where a depfile goes.
\<close>

section \<open>Depfile options aside\<close>

text \<open>An invocation without the fields that only say where a depfile goes.\<close>

definition key_view :: "invocation \<Rightarrow> invocation" where
  "key_view iv = iv\<lparr>inv_args := [], wants_depfile := False, inv_depfile := [], depfile_target := []\<rparr>"

abbreviation ps_view :: "parse_state \<Rightarrow> parse_state" where
  "ps_view ps \<equiv> ps\<lparr>ps_inv := key_view (ps_inv ps)\<rparr>"

lemma key_view_idem [simp]: "key_view (key_view iv) = key_view iv"
  by (simp add: key_view_def)

lemma key_view_fields [simp]:
  "key_args (key_view iv) = key_args iv" "inv_source (key_view iv) = inv_source iv"
  "inv_inputs (key_view iv) = inv_inputs iv" "inv_pch (key_view iv) = inv_pch iv"
  "inv_output (key_view iv) = inv_output iv" "compile_only (key_view iv) = compile_only iv"
  "to_stdout (key_view iv) = to_stdout iv" "link_one (key_view iv) = link_one iv"
  "inv_link (key_view iv) = inv_link iv" "cacheable (key_view iv) = cacheable iv" "inv_query (key_view iv) = inv_query iv"
  by (simp_all add: key_view_def)

lemma key_view_updates [simp]:
  "key_view (iv\<lparr>inv_depfile := f\<rparr>) = key_view iv" "key_view (iv\<lparr>depfile_target := f\<rparr>) = key_view iv"
  "key_view (iv\<lparr>wants_depfile := b\<rparr>) = key_view iv" "key_view (iv\<lparr>inv_args := as\<rparr>) = key_view iv"
  "key_view (iv\<lparr>key_args := ks\<rparr>) = (key_view iv)\<lparr>key_args := ks\<rparr>"
  "key_view (iv\<lparr>inv_source := f\<rparr>) = (key_view iv)\<lparr>inv_source := f\<rparr>"
  "key_view (iv\<lparr>inv_inputs := ks\<rparr>) = (key_view iv)\<lparr>inv_inputs := ks\<rparr>"
  "key_view (iv\<lparr>inv_pch := ks\<rparr>) = (key_view iv)\<lparr>inv_pch := ks\<rparr>"
  "key_view (iv\<lparr>inv_output := f\<rparr>) = (key_view iv)\<lparr>inv_output := f\<rparr>"
  "key_view (iv\<lparr>compile_only := b\<rparr>) = (key_view iv)\<lparr>compile_only := b\<rparr>"
  "key_view (iv\<lparr>cacheable := b\<rparr>) = (key_view iv)\<lparr>cacheable := b\<rparr>"
  "key_view (iv\<lparr>inv_query := b\<rparr>) = (key_view iv)\<lparr>inv_query := b\<rparr>"
  "key_view (iv\<lparr>to_stdout := b\<rparr>) = (key_view iv)\<lparr>to_stdout := b\<rparr>"
  "key_view (iv\<lparr>link_one := b\<rparr>) = (key_view iv)\<lparr>link_one := b\<rparr>"
  "key_view (iv\<lparr>inv_link := b\<rparr>) = (key_view iv)\<lparr>inv_link := b\<rparr>"
  by (simp_all add: key_view_def)

lemma TakeDepfileOption_view:
  "map_option (map_prod id key_view) (TakeDepfileOption arg rest (key_view iv))
     = map_option (map_prod id key_view) (TakeDepfileOption arg rest iv)"
  by (simp add: TakeDepfileOption_def Let_def)

lemma skip_xclang_view:
  "skip_xclang rest (key_view iv) = map_prod id key_view (skip_xclang rest iv)"
  by (induction rest iv rule: skip_xclang.induct) (auto simp flip: key_view_updates(5))

lemma TakePchOption_view:
  "TakePchOption arg rest (key_view iv) = map_option (map_prod id key_view) (TakePchOption arg rest iv)"
proof -
  have e: "(key_view iv)\<lparr>key_args := key_args iv @ [arg]\<rparr> = key_view (iv\<lparr>key_args := key_args iv @ [arg]\<rparr>)" by simp
  obtain r i where ri: "skip_xclang rest (iv\<lparr>key_args := key_args iv @ [arg]\<rparr>) = (r, i)" by fastforce
  show ?thesis
    unfolding TakePchOption_def key_view_fields e skip_xclang_view ri
    by (cases r) simp_all
qed

lemma TakeDepfileOption_some_view:
  assumes "TakeDepfileOption arg rest iv = Some (rest', iv')"
  shows "\<exists>iv''. TakeDepfileOption arg rest (key_view iv) = Some (rest', iv'') \<and> key_view iv'' = key_view iv'"
  using TakeDepfileOption_view [of arg rest iv] assms by (auto simp: map_option_eq_Some)

lemma TakeDepfileOption_none_view:
  "TakeDepfileOption arg rest iv = None \<Longrightarrow> TakeDepfileOption arg rest (key_view iv) = None"
  using TakeDepfileOption_view [of arg rest iv] by simp

lemma parse_arg_view:
  "map_prod id ps_view (parse_arg arg rest (ps_view ps)) = map_prod id ps_view (parse_arg arg rest ps)"
proof (cases "TakeDepfileOption arg rest (ps_inv ps)")
  case (Some p)
  obtain rest' iv' where p: "p = (rest', iv')" by (cases p)
  from Some p TakeDepfileOption_some_view obtain iv'' where
    "TakeDepfileOption arg rest (key_view (ps_inv ps)) = Some (rest', iv'')" "key_view iv'' = key_view iv'" by blast
  with Some p show ?thesis by (simp add: parse_arg_def)
next
  case None
  note none = None TakeDepfileOption_none_view [OF None]
  show ?thesis
  proof (cases "TakePchOption arg rest (ps_inv ps)")
    case pch: None
    then show ?thesis
      by (simp add: parse_arg_def Let_def none TakePchOption_view other_arg_def)
  next
    case (Some p)
    then show ?thesis
      by (cases p) (simp add: parse_arg_def Let_def none TakePchOption_view other_arg_def)
  qed
qed

lemma ps_view_idem: "ps_view (ps_view ps) = ps_view ps"
  by simp

lemma parse_arg_view_cong:
  assumes "ps_view ps = ps_view qs"
  shows "map_prod id ps_view (parse_arg arg rest ps) = map_prod id ps_view (parse_arg arg rest qs)"
  using parse_arg_view [of arg rest ps] parse_arg_view [of arg rest qs] assms by simp

text \<open>A command line without its depfile options.\<close>

definition depfile_flag :: "string \<Rightarrow> bool" where
  "depfile_flag arg \<longleftrightarrow> arg \<in> set [''-MD'', ''-MMD'', ''-MP'']
     \<or> starts_with arg ''-Wp,-MD,'' \<or> starts_with arg ''-Wp,-MMD,''"

function without_depfile :: "string list \<Rightarrow> string list" where
  "without_depfile [] = []"
| "without_depfile (arg # rest) =
     (if arg \<in> set [''-MF'', ''-MT'', ''-MQ''] \<and> rest \<noteq> [] then without_depfile (tl rest)
      else if depfile_flag arg then without_depfile rest
      else if arg = ''-o'' \<and> rest \<noteq> [] then arg # hd rest # without_depfile (tl rest)
      else if arg = ''-include-pch'' then
        (let xs = takeWhile (\<lambda>w. w = ''-Xclang'') rest; r = dropWhile (\<lambda>w. w = ''-Xclang'') rest
         in arg # xs @ take 1 r @ without_depfile (drop 1 r))
      else arg # without_depfile rest)"
  by pat_completeness auto
termination
proof (relation "measure length", goal_cases)
  case (5 arg rest x r)
  then show ?case using length_dropWhile_le [of "\<lambda>w. w = ''-Xclang''" rest] by simp
qed auto

lemma TakeDepfileOption_taken:
  assumes "(arg \<in> set [''-MF'', ''-MT'', ''-MQ''] \<and> rest \<noteq> []) \<or> depfile_flag arg"
  shows "map_option (map_prod id key_view) (TakeDepfileOption arg rest iv)
    = Some (if arg \<in> set [''-MF'', ''-MT'', ''-MQ''] \<and> rest \<noteq> [] then tl rest else rest, key_view iv)"
  using assms unfolding TakeDepfileOption_def depfile_flag_def Let_def
  by (simp split: if_split) blast

lemma parse_arg_depfile:
  assumes "(arg \<in> set [''-MF'', ''-MT'', ''-MQ''] \<and> rest \<noteq> []) \<or> depfile_flag arg"
  shows "map_prod id ps_view (parse_arg arg rest ps)
    = (if arg \<in> set [''-MF'', ''-MT'', ''-MQ''] \<and> rest \<noteq> [] then tl rest else rest, ps_view ps)"
    (is "_ = (?r, _)")
proof -
  obtain rest' iv' where t: "TakeDepfileOption arg rest (ps_inv ps) = Some (rest', iv')"
    and k: "key_view iv' = key_view (ps_inv ps)" and r: "rest' = ?r"
    using TakeDepfileOption_taken [OF assms, of "ps_inv ps"]
    by (cases "TakeDepfileOption arg rest (ps_inv ps)") (simp, fastforce simp only: option.map map_prod_def id_apply split_beta prod.inject option.inject fst_conv snd_conv)
  show ?thesis unfolding r [symmetric] using t k by (simp add: parse_arg_def)
qed

lemma skip_xclang_split:
  "skip_xclang rest iv = (dropWhile (\<lambda>w. w = ''-Xclang'') rest,
     iv\<lparr>key_args := key_args iv @ takeWhile (\<lambda>w. w = ''-Xclang'') rest\<rparr>)"
  by (induction rest iv rule: skip_xclang.induct) simp_all

lemma TakeDepfileOption_none_iff:
  "TakeDepfileOption arg rest iv = None \<longleftrightarrow>
     \<not> (arg \<in> set [''-MF'', ''-MT'', ''-MQ''] \<and> rest \<noteq> []) \<and> \<not> depfile_flag arg"
  by (auto simp: TakeDepfileOption_def depfile_flag_def Let_def)

lemma parse_arg_o: "parse_arg ''-o'' (w # rest) ps = (rest, ps\<lparr>ps_inv := (ps_inv ps)\<lparr>inv_output := w\<rparr>\<rparr>)"
proof -
  have "TakeDepfileOption ''-o'' (w # rest) (ps_inv ps) = None"
    by (simp add: TakeDepfileOption_none_iff depfile_flag_def)
  then show ?thesis by (simp add: parse_arg_def)
qed

lemma parse_arg_pch:
  fixes ps and rest rest' :: "string list"
  defines "xs \<equiv> takeWhile (\<lambda>w. w = ''-Xclang'') rest" and "r \<equiv> dropWhile (\<lambda>w. w = ''-Xclang'') rest"
  assumes w: "r = [] \<longrightarrow> rest' = []"
  shows "fst (parse_arg ''-include-pch'' rest ps) = drop 1 r"
    and "parse_arg ''-include-pch'' (xs @ take 1 r @ rest') ps = (rest', snd (parse_arg ''-include-pch'' rest ps))"
proof -
  have none: "TakeDepfileOption ''-include-pch'' q iv = None" for q iv
    by (simp add: TakeDepfileOption_none_iff depfile_flag_def)
  have k: "\<not> IsNoOutputOption ''-include-pch''" "\<not> IsSourceFile ''-include-pch''" by code_simp+
  have xs: "\<forall>w\<in>set xs. w = ''-Xclang''" by (auto simp: xs_def dest: set_takeWhileD)
  then have tw: "takeWhile (\<lambda>w. w = ''-Xclang'') xs = xs" "dropWhile (\<lambda>w. w = ''-Xclang'') xs = []"
    by (simp_all add: takeWhile_eq_all_conv dropWhile_eq_Nil_conv)
  have hd: "r \<noteq> [] \<Longrightarrow> hd r \<noteq> ''-Xclang''" unfolding r_def by (rule hd_dropWhile)
  show "fst (parse_arg ''-include-pch'' rest ps) = drop 1 r"
    by (cases r) (simp_all add: parse_arg_def Let_def none k TakePchOption_def skip_xclang_split flip: r_def xs_def)
  show "parse_arg ''-include-pch'' (xs @ take 1 r @ rest') ps = (rest', snd (parse_arg ''-include-pch'' rest ps))"
    using w xs hd
    by (cases r) (simp_all add: parse_arg_def Let_def none k tw TakePchOption_def skip_xclang_split dropWhile_append2 takeWhile_append2
        flip: r_def xs_def)
qed

lemma parse_arg_plain:
  assumes "\<not> depfile_flag arg" "arg \<noteq> ''-include-pch''"
    and "arg \<in> set [''-MF'', ''-MT'', ''-MQ'', ''-o''] \<Longrightarrow> rest = [] \<and> rest' = []"
  shows "parse_arg arg rest ps = (rest, snd (parse_arg arg rest' ps))"
proof -
  have none: "TakeDepfileOption arg rest (ps_inv ps) = None" "TakeDepfileOption arg rest' (ps_inv ps) = None"
    using assms(1,3) by (auto simp: TakeDepfileOption_none_iff)
  have "TakePchOption arg q iv = None" for q iv using assms(2) by (simp add: TakePchOption_def)
  with none show ?thesis using assms(3) by (cases "arg = ''-o''") (simp_all add: parse_arg_def Let_def)
qed

lemma parse_loop_step:
  "parse_arg arg rest ps = (rest', ps') \<Longrightarrow> parse_loop (arg # rest) ps = parse_loop rest' ps'"
  by simp

lemma parse_loop_without_depfile:
  "ps_view ps = ps_view qs \<Longrightarrow> ps_view (parse_loop args ps) = ps_view (parse_loop (without_depfile args) qs)"
proof (induction args arbitrary: ps qs rule: without_depfile.induct)
  case 1
  then show ?case by simp
next
  case (2 arg rest)
  have cong: "ps_view (snd (parse_arg arg w ps)) = ps_view (snd (parse_arg arg w qs))" for w
    using arg_cong [OF parse_arg_view_cong [OF "2.prems", of arg w], of snd] by simp
  let ?val = "arg \<in> set [''-MF'', ''-MT'', ''-MQ''] \<and> rest \<noteq> []"
  consider (val) ?val | (flag) "\<not> ?val" "depfile_flag arg"
    | (o) "\<not> ?val" "\<not> depfile_flag arg" "arg = ''-o''" "rest \<noteq> []"
    | (pch) "\<not> ?val" "\<not> depfile_flag arg" "\<not> (arg = ''-o'' \<and> rest \<noteq> [])" "arg = ''-include-pch''"
    | (plain) "\<not> ?val" "\<not> depfile_flag arg" "\<not> (arg = ''-o'' \<and> rest \<noteq> [])" "arg \<noteq> ''-include-pch''" by blast
  then show ?case
  proof cases
    case val
    obtain r p where e: "parse_arg arg rest ps = (r, p)" by fastforce
    with parse_arg_depfile [of arg rest ps] val have "r = tl rest" "ps_view p = ps_view ps" by (simp_all only: if_True simp_thms) simp_all
    with "2.IH"(1) [OF val, of p qs] "2.prems" e val show ?thesis by simp
  next
    case flag
    obtain r p where e: "parse_arg arg rest ps = (r, p)" by fastforce
    with parse_arg_depfile [of arg rest ps] flag have "r = rest" "ps_view p = ps_view ps"
      unfolding if_not_P [OF flag(1)] by simp_all
    moreover have "without_depfile (arg # rest) = without_depfile rest"
      unfolding without_depfile.simps if_not_P [OF flag(1)] if_P [OF flag(2)] ..
    ultimately show ?thesis using "2.IH"(2) [OF flag, of p qs] "2.prems" e by simp
  next
    case o
    obtain w rest' where r: "rest = w # rest'" using o by (cases rest) auto
    have "without_depfile (arg # rest) = arg # w # without_depfile rest'"
      unfolding without_depfile.simps if_not_P [OF o(1)] if_not_P [OF o(2)] using o r by simp
    moreover have "ps_view (parse_loop (tl rest) (snd (parse_arg arg rest ps)))
        = ps_view (parse_loop (without_depfile (tl rest)) (snd (parse_arg arg rest qs)))"
      by (rule "2.IH"(3)) (use o cong in simp_all)
    ultimately show ?thesis using o(3) r by (simp add: parse_arg_o)
  next
    case pch
    let ?P = "\<lambda>w. w = ''-Xclang''"
    let ?xs = "takeWhile ?P rest" and ?r = "dropWhile ?P rest"
    let ?w = "without_depfile (drop 1 ?r)"
    have w: "?r = [] \<longrightarrow> ?w = []" by (metis drop_Nil without_depfile.simps(1))
    note e = parse_arg_pch [OF w]
    have e1: "parse_arg arg rest ps = (drop 1 ?r, snd (parse_arg arg rest ps))"
      using e(1) [of ps] unfolding pch(4) by (simp only: prod_eq_iff fst_conv snd_conv simp_thms)
    have e2: "parse_arg arg (?xs @ take 1 ?r @ ?w) qs = (?w, snd (parse_arg arg rest qs))"
      using e(2) [of qs] unfolding pch(4) .
    have "without_depfile (arg # rest) = arg # ?xs @ take 1 ?r @ ?w"
      unfolding without_depfile.simps if_not_P [OF pch(1)] if_not_P [OF pch(2)] if_not_P [OF pch(3)] if_P [OF pch(4)] Let_def ..
    then show ?thesis
      unfolding parse_loop_step [OF e1] by (simp only: parse_loop_step [OF e2]) (rule "2.IH"(4) [OF pch refl refl cong])
  next
    case plain
    let ?w = "without_depfile rest"
    have c: "arg \<in> set [''-MF'', ''-MT'', ''-MQ'', ''-o''] \<Longrightarrow> rest = [] \<and> ?w = []"
      using plain(1,3) by fastforce
    have e1: "parse_arg arg rest ps = (rest, snd (parse_arg arg ?w ps))"
      by (rule parse_arg_plain [OF plain(2,4) c])
    have e2: "parse_arg arg ?w qs = (?w, snd (parse_arg arg ?w qs))"
      by (rule parse_arg_plain [OF plain(2,4)]) (use c in blast)
    have "without_depfile (arg # rest) = arg # ?w"
      unfolding without_depfile.simps if_not_P [OF plain(1)] if_not_P [OF plain(2)] if_not_P [OF plain(3)] if_not_P [OF plain(4)] ..
    then show ?thesis
      unfolding parse_loop_step [OF e1] by (simp only: parse_loop_step [OF e2]) (rule "2.IH"(5) [OF plain cong])
  qed
qed

lemma key_view_default_depfile:
  "key_view (let iv1 = x in if P iv1 then iv1\<lparr>inv_depfile := f iv1\<rparr> else iv1) = key_view x"
  by (simp add: Let_def)

lemma Classify_view:
  "key_view (Classify env pid (key_view iv) n obj stop) = key_view (Classify env pid iv n obj stop)"
  unfolding Classify_def key_view_default_depfile
  by (cases "compile_only iv") (simp_all add: Let_def)

lemma Classify_view_cong:
  "key_view iv = key_view iv' \<Longrightarrow> key_view (Classify env pid iv n obj stop) = key_view (Classify env pid iv' n obj stop)"
  by (metis Classify_view)

lemma ps_view_eqD:
  assumes "ps_view ps = ps_view qs"
  shows "key_view (ps_inv ps) = key_view (ps_inv qs)" "ps_objects ps = ps_objects qs"
    "ps_sources ps = ps_sources qs" "ps_stop ps = ps_stop qs"
  using arg_cong [OF assms, of ps_inv] arg_cong [OF assms, of ps_objects]
    arg_cong [OF assms, of ps_sources] arg_cong [OF assms, of ps_stop] by simp_all

lemma key_view_eqD:
  assumes "key_view iv = key_view iv'"
  shows "key_args iv = key_args iv'" "inv_source iv = inv_source iv'" "inv_inputs iv = inv_inputs iv'"
    "inv_pch iv = inv_pch iv'" "inv_output iv = inv_output iv'" "compile_only iv = compile_only iv'"
    "to_stdout iv = to_stdout iv'" "link_one iv = link_one iv'" "inv_link iv = inv_link iv'"
    "cacheable iv = cacheable iv'" "inv_query iv = inv_query iv'"
  by (metis assms key_view_fields)+

lemma ParseInvocation_without_depfile:
  "key_view (ParseInvocation env pid args) = key_view (ParseInvocation env pid (without_depfile args))"
proof -
  let ?p = "parse_loop args (parse_start args)"
  let ?q = "parse_loop (without_depfile args) (parse_start (without_depfile args))"
  have "ps_view ?p = ps_view ?q"
    by (rule parse_loop_without_depfile) (simp add: parse_start_def new_invocation_def key_view_def)
  note e = ps_view_eqD [OF this]
  show ?thesis
    unfolding ParseInvocation_def Let_def e(2-4) key_view_eqD(5,10) [OF e(1)]
    by (rule Classify_view_cong) (simp add: e(1))
qed

end
