(* ===== verification/Cc_Run.thy ===== *)
theory Cc_Run
  imports Jig_Process Jig_Depfile Cc_Depfile "HOL-Library.List_Lexorder" "HOL-Library.Char_ord" "HOL-Library.Word"
begin

text \<open>
  The cached compiler run of \<^verbatim>\<open>pkgs/ji/jig/src/cc_mode.cc\<close>: the request key, the lookup, the replay of a
  hit, the observed run of the real compiler and what is stored of it, and \<^verbatim>\<open>RunCcMode\<close> around them.
  The steps follow the order of the code on a \<open>world\<close>; the removal of a file succeeds, permission bits are
  a list of the paths made executable.
\<close>

section \<open>Model\<close>

definition ComputeRequestKey :: "host \<Rightarrow> env \<Rightarrow> store \<Rightarrow> string \<Rightarrow> invocation \<Rightarrow> string \<Rightarrow> string" where
  "ComputeRequestKey h env st compiler iv primary =
     (let links = (link_one iv \<or> inv_link iv);
          hs = Hasher_Field [] (''cc='' @ ToolId (h_canonical h) st compiler);
          hs = Hasher_Field hs (''cwd='' @ Key st (h_cwd h));
          hs = (if \<not> inv_link iv then Hasher_Field hs (''src='' @ Key st (MaskOut st (inv_source iv))) else hs);
          mode = (if inv_link iv then ''mode=link'' else if link_one iv then ''mode=link-one'' else ''mode=compile'');
          hs = Hasher_Field hs mode;
          hs = (if links then Hasher_Field hs (''LIBRARY_PATH='' @ MaskForReplay st (Env env ''LIBRARY_PATH'' [])) else hs);
          hs = foldl (\<lambda>hs arg.
                 let embedded = (links \<and> (str_contains arg ''dynamic-linker'' \<or> str_contains arg ''rpath''))
                 in Hasher_Field hs (if embedded then MaskOut st arg else Key st (MaskOut st arg))) hs (key_args iv);
          hs = Hasher_Field hs (MaskOut st primary)
      in RequestKey kCc (Hasher_Finish (h_b3 h) hs))"

definition toolchain_lib :: "string \<Rightarrow> bool" where
  "toolchain_lib name \<longleftrightarrow> starts_with name ''libLLVM'' \<or> starts_with name ''libclang-cpp'' \<or> starts_with name ''liblld''"

definition tool_files :: "host \<Rightarrow> string \<Rightarrow> string list" where
  "tool_files h t =
     (case h_canonical h t of
        None \<Rightarrow> []
      | Some real \<Rightarrow>
          real # map fst (filter (\<lambda>(path, plain). toolchain_lib (path_filename path) \<and> plain)
                            (h_entries h (path_append (parent_path (parent_path real)) ''lib''))))"

definition ToolchainIds :: "host \<Rightarrow> string \<Rightarrow> invocation \<Rightarrow> world \<Rightarrow> string \<times> world" where
  "ToolchainIds h compiler iv w =
     (let ld_path = ''--ld-path='';
          tools = OnPath (w_env w) (h_exists h (w_disk w)) compiler
            # (if link_one iv \<or> inv_link iv
               then map (drop (length ld_path)) (filter (\<lambda>arg. starts_with arg ld_path) (inv_args iv)) else []);
          files = remdups_adj (sort (concat (map (tool_files h) tools)))
      in case PrefetchIdentities files (w_store w, w_cache w) of (st, c) \<Rightarrow>
           (concat (map (\<lambda>file. (case InputId (h_b3 h) st (w_disk w) file of None \<Rightarrow> ''?'' | Some i \<Rightarrow> i) @ '','') files),
            w\<lparr>w_store := st, w_cache := c\<rparr>))"

fun pch_ids :: "host \<Rightarrow> store \<Rightarrow> disk \<Rightarrow> string option \<Rightarrow> string list \<Rightarrow> string option" where
  "pch_ids h st d str [] = str"
| "pch_ids h st d str (pch # pchs) =
     (case (str, InputId (h_b3 h) st d pch) of
        (Some t, Some pch_id) \<Rightarrow> pch_ids h st d (Some (t @ [newline] @ ''pch='' @ pch_id)) pchs
      | _ \<Rightarrow> None)"

fun link_ids :: "host \<Rightarrow> store \<Rightarrow> disk \<Rightarrow> string \<Rightarrow> string list \<Rightarrow> string option" where
  "link_ids h st d ids [] = Some ids"
| "link_ids h st d ids (input # inputs) =
     (case InputId (h_b3 h) st d input of
        None \<Rightarrow> None
      | Some input_id \<Rightarrow> link_ids h st d (ids @ input @ ''='' @ input_id @ [newline]) inputs)"

definition PrimaryIdentity :: "host \<Rightarrow> store \<Rightarrow> disk \<Rightarrow> invocation \<Rightarrow> string option" where
  "PrimaryIdentity h st d iv =
     (if \<not> inv_link iv then pch_ids h st d (d (inv_source iv)) (inv_pch iv)
      else link_ids h st d [] (inv_inputs iv))"

record cached_result =
  cr_status :: int
  cr_object :: "string option"
  cr_depfile :: "string option"
  cr_stderr :: string

text \<open>\<^verbatim>\<open>static_cast<int>\<close> of a 64-bit count.\<close>

definition to_int :: "nat \<Rightarrow> int" where
  "to_int n = sint (word_of_nat n :: 32 word)"

definition replay_result :: "store \<Rightarrow> invocation \<Rightarrow> string option \<Rightarrow> string option \<Rightarrow> string option \<Rightarrow> string option
    \<Rightarrow> string + cached_result" where
  "replay_result st iv status obj dep err =
     (let code = (if \<not> link_one iv \<and> \<not> inv_link iv \<and> status \<noteq> None
                  then to_int (case ParseUint (the status) 10 of None \<Rightarrow> 1 | Some n \<Rightarrow> n) else 0);
          err_text = UnmaskOut st (case err of None \<Rightarrow> [] | Some e \<Rightarrow> e)
      in if code = 0 then
           (if obj = None \<or> wants_depfile iv \<and> dep = None then Inl ''object-gone''
            else Inr \<lparr>cr_status = code, cr_object = map_option (UnmaskOut st) obj,
                      cr_depfile = (if wants_depfile iv then map_option (UnmaskOut st) dep else None), cr_stderr = err_text\<rparr>)
         else Inr \<lparr>cr_status = code, cr_object = None, cr_depfile = None, cr_stderr = err_text\<rparr>)"

definition Lookup :: "host \<Rightarrow> string \<Rightarrow> invocation \<Rightarrow> world \<Rightarrow> (string + cached_result) \<times> world" where
  "Lookup h request_key iv w =
     (case FindResult (h_b3 h) (h_zd h) (w_disk w) (h_exists h (w_disk w)) request_key (w_store w, w_cache w) of
        (Inl why, st, c) \<Rightarrow> (Inl why, w\<lparr>w_store := st, w_cache := c\<rparr>)
      | (Inr rk, st, c) \<Rightarrow>
          (case GetMany (h_zd h) [slot_ExitStatus rk, slot_Object rk, slot_Depfile rk, slot_Stderr rk] c of
             (got, c1) \<Rightarrow>
               (replay_result st iv (got ! 0) (got ! 1) (got ! 2) (got ! 3), w\<lparr>w_store := st, w_cache := c1\<rparr>)))"

definition ForwardStdout :: "invocation \<Rightarrow> string option \<Rightarrow> world \<Rightarrow> world" where
  "ForwardStdout iv str w =
     (if \<not> to_stdout iv then w
      else w\<lparr>w_disk := (w_disk w)(inv_output iv := None), w_out := w_out w @ (case str of None \<Rightarrow> [] | Some s \<Rightarrow> s)\<rparr>)"

definition RetargetDepfile :: "string \<Rightarrow> invocation \<Rightarrow> string" where
  "RetargetDepfile str iv =
     (let target = (if depfile_target iv = [] then inv_output iv else depfile_target iv) in
      case str_find str '': '' 0 of
        None \<Rightarrow> str
      | Some colon \<Rightarrow>
          if (case str_find str [newline] 0 of None \<Rightarrow> True | Some nl \<Rightarrow> colon < nl)
          then str_replace str 0 colon target else str)"

definition write_to :: "host \<Rightarrow> string \<Rightarrow> string \<Rightarrow> world \<Rightarrow> bool \<times> world" where
  "write_to h path data w =
     (case WriteFile (h_write h path) (h_pid h) path data (w_disk w) of
        (ok, ds) \<Rightarrow> (ok, w\<lparr>w_disk := last ds\<rparr>))"

definition cannot_write :: "host \<Rightarrow> string \<Rightarrow> string" where
  "cannot_write h path = ''jig: cannot write '' @ path @ '': '' @ h_errno h @ [newline]"

definition Replay :: "host \<Rightarrow> cached_result \<Rightarrow> invocation \<Rightarrow> world \<Rightarrow> int \<times> world" where
  "Replay h result iv w =
     (let (ok, w1) =
        (if to_stdout iv then (True, ForwardStdout iv (cr_object result) w)
         else case cr_object result of
           None \<Rightarrow> (True, w)
         | Some obj \<Rightarrow>
             (case write_to h (inv_output iv) obj w of
                (False, w1) \<Rightarrow> (False, w1)
              | (True, w1) \<Rightarrow>
                  (True, if link_one iv \<or> inv_link iv then w1\<lparr>w_executable := inv_output iv # w_executable w1\<rparr> else w1)))
      in if \<not> ok then (1, w1\<lparr>w_err := w_err w1 @ cannot_write h (inv_output iv)\<rparr>)
         else let (ok, w2) =
             (case cr_depfile result of
                None \<Rightarrow> (True, w1)
              | Some dep \<Rightarrow> write_to h (inv_depfile iv) (RetargetDepfile (ResolveAll (w_store w1) dep) iv) w1)
           in if \<not> ok then (1, w2\<lparr>w_err := w_err w2 @ cannot_write h (inv_depfile iv)\<rparr>)
              else (cr_status result, w2\<lparr>w_err := w_err w2 @ cr_stderr result\<rparr>))"

record observed =
  ob_run :: run_result
  dep_text :: "string option"
  link_dep_text :: "string option"
  ob_inputs :: "string list"
  ob_absent :: "string list"

definition tmp_base :: "host \<Rightarrow> invocation \<Rightarrow> string" where
  "tmp_base h iv =
     path_append (if parent_path (inv_output iv) \<noteq> [] then parent_path (inv_output iv) else ''.'') (''.jig'' @ to_decimal (h_pid h))"

definition observed_args :: "host \<Rightarrow> invocation \<Rightarrow> string list" where
  "observed_args h iv =
     (let own_depfile = (\<not> wants_depfile iv \<and> \<not> inv_link iv);
          depfile = (if own_depfile then tmp_base h iv @ ''.d'' else inv_depfile iv)
      in inv_args iv
         @ (if own_depfile \<and> \<not> IsPlainAssembly (inv_source iv) then [''-MD'', ''-MF'', depfile]
            else if \<not> own_depfile \<and> \<not> inv_link iv \<and> \<not> IsAssembly (inv_source iv) then [''-Xclang'', ''-sys-header-deps'']
            else [])
         @ (if to_stdout iv then [''-o'', inv_output iv] else [])
         @ (if link_one iv \<or> inv_link iv then [''-Wl,--dependency-file='' @ tmp_base h iv @ ''.link.d''] else []))"

definition driver_temp :: "host \<Rightarrow> string \<Rightarrow> bool" where
  "driver_temp h input \<longleftrightarrow>
     (let tmp = h_tmpdir h @ ''/'' in starts_with input tmp \<and> str_find input ''/'' (length tmp) = None)"

definition RunObserved :: "host \<Rightarrow> string \<Rightarrow> invocation \<Rightarrow> world \<Rightarrow> observed \<times> world" where
  "RunObserved h compiler iv w =
     (let links = (link_one iv \<or> inv_link iv);
          own_depfile = (\<not> wants_depfile iv \<and> \<not> inv_link iv);
          depfile = (if own_depfile then tmp_base h iv @ ''.d'' else inv_depfile iv);
          link_depfile = tmp_base h iv @ ''.link.d'';
          absent_log = tmp_base h iv @ ''.absent'';
          (slot, w1) = Slot h [] w;
          (run, w2) = Run h compiler (observed_args h iv) kCapture (w1\<lparr>w_env := (w_env w1)(''JIG_ABSENT_LOG'' \<mapsto> absent_log)\<rparr>);
          w3 = Slot_destroy slot (w2\<lparr>w_env := (w_env w2)(''JIG_ABSENT_LOG'' := None)\<rparr>);
          w4 = w3\<lparr>w_err := w_err w3 @ stderr_text run\<rparr>;
          d = w_disk w4;
          dep = (if inv_link iv then Some []
                 else if own_depfile \<and> IsPlainAssembly (inv_source iv) then Some (''o: '' @ inv_source iv)
                 else d depfile);
          link_dep = (if links then d link_depfile else None);
          absent = (case d absent_log of None \<Rightarrow> [] | Some t \<Rightarrow> Split t newline False);
          d1 = d(absent_log := None);
          d2 = (if own_depfile then d1(depfile := None) else d1);
          d3 = d2(link_depfile := None);
          inputs = (case dep of None \<Rightarrow> [] | Some t \<Rightarrow> ParseDepfile t)
            @ (case link_dep of None \<Rightarrow> [] | Some t \<Rightarrow> filter (\<lambda>input. \<not> driver_temp h input) (ParseDepfile t))
      in (\<lparr>ob_run = run, dep_text = dep, link_dep_text = link_dep, ob_inputs = inputs, ob_absent = absent\<rparr>,
          w4\<lparr>w_disk := d3\<rparr>))"

definition put_to :: "host \<Rightarrow> string \<Rightarrow> string \<Rightarrow> world \<Rightarrow> world" where
  "put_to h key value w = w\<lparr>w_cache := Put (h_zc h) key value (w_cache w)\<rparr>"

definition get_from :: "host \<Rightarrow> string \<Rightarrow> world \<Rightarrow> string option \<times> world" where
  "get_from h key w = (case Get (h_zd h) key (w_cache w) of (got, c) \<Rightarrow> (got, w\<lparr>w_cache := c\<rparr>))"

definition build_manifest :: "host \<Rightarrow> string \<Rightarrow> observed \<Rightarrow> invocation \<Rightarrow> world \<Rightarrow> manifest \<times> world" where
  "build_manifest h request_key obs iv w =
     (case BuildManifest (h_b3 h) (w_disk w) (h_exists h (w_disk w)) request_key (ob_inputs obs) (inv_source iv) (ob_absent obs)
             (w_store w, w_cache w) of
        (mf, st, c) \<Rightarrow> (mf, w\<lparr>w_store := st, w_cache := c\<rparr>))"

definition CompileAndStore :: "host \<Rightarrow> string \<Rightarrow> string \<Rightarrow> invocation \<Rightarrow> string \<Rightarrow> world \<Rightarrow> int \<times> world" where
  "CompileAndStore h compiler request_key iv why w =
     (let subject = inv_source iv @ '' '' @ why;
          links = (link_one iv \<or> inv_link iv);
          (obs, w1) = RunObserved h compiler iv w;
          run = ob_run obs
      in if run_status run \<noteq> 0 then
           (let w2 = ForwardStdout iv None w1 in
            if dep_text obs = None \<or> links \<or> str_contains (stderr_text run) ''file not found'' \<or> \<not> Deterministic run
            then (int (run_status run), LogOutcome ''cc'' kMissFail subject w2)
            else let (mf, w3) = build_manifest h request_key obs iv w2;
                     w4 = put_to h (slot_Manifest request_key) (manifest_text mf) w3;
                     w5 = put_to h (slot_ExitStatus (result_key mf)) (to_decimal (run_status run)) w4;
                     w6 = put_to h (slot_Stderr (result_key mf)) (MaskOut (w_store w5) (stderr_text run)) w5
                 in (int (run_status run), LogOutcome ''cc'' kMissStoredFail subject w6))
         else
           (let object = w_disk w1 (inv_output iv);
                w2 = ForwardStdout iv object w1
            in if dep_text obs = None \<or> object = None \<or> links \<and> link_dep_text obs = None
               then (0, LogOutcome ''cc'' kMissUnstored subject w2)
               else let (mf, w3) = build_manifest h request_key obs iv w2;
                        w4 = put_to h (slot_Manifest request_key) (manifest_text mf) w3;
                        w5 = put_to h (slot_Object (result_key mf)) (MaskOut (w_store w4) (the object)) w4;
                        w6 = put_to h (slot_Stderr (result_key mf)) (MaskOut (w_store w5) (stderr_text run)) w5;
                        w7 = (if wants_depfile iv
                              then put_to h (slot_Depfile (result_key mf))
                                     (MaskOut (w_store w6) (MaskForReplay (w_store w6) (the (dep_text obs)))) w6
                              else w6)
                    in (0, LogOutcome ''cc'' kMissStored subject w7)))"

definition LogUncached :: "outcome \<Rightarrow> string list \<Rightarrow> world \<Rightarrow> world" where
  "LogUncached outcome user_args w =
     (let path = Env (w_env w) ''JIG_LOG_ARGS'' [] in
      if path = [] \<or> outcome = kPlainQuery then w
      else w\<lparr>w_disk := (w_disk w)(path \<mapsto> value_or_empty (w_disk w path)
               @ OutcomeName outcome @ [tab] @ Join user_args '' '' @ [newline])\<rparr>)"

definition RunUncached :: "host \<Rightarrow> string \<Rightarrow> string \<Rightarrow> invocation \<Rightarrow> bool \<Rightarrow> string list \<Rightarrow> string list \<Rightarrow> world \<Rightarrow> int \<times> world" where
  "RunUncached h socket_path compiler iv has_primary user_args ldflags w =
     (let (slot, w1) = (if inv_source iv \<noteq> [] \<or> inv_inputs iv \<noteq> [] then Slot h socket_path w else (None, w));
          (status, w2) =
            (if ''-print-search-dirs'' \<in> set user_args then
               (case Run h compiler (inv_args iv) kCaptureStdout w1 of (run, w2) \<Rightarrow>
                  (run_status run, w2\<lparr>w_out := w_out w2 @ WithPackageLibDirs (stderr_text run) ldflags\<rparr>))
             else case Run h compiler (inv_args iv) kInherit w1 of (run, w2) \<Rightarrow> (run_status run, w2));
          w3 = Slot_destroy slot w2;
          outcome = (if inv_query iv then kPlainQuery
                     else if \<not> cacheable iv then (if compile_only iv then kPlainCompile else kPlainLink)
                     else if \<not> has_primary then kPlainNoSource
                     else kPlainNoSocket)
      in (int status, LogUncached outcome user_args (LogOutcome ''cc'' outcome (inv_source iv) w3)))"

text \<open>A JSON type error is an exception nothing catches.\<close>

datatype cc_exit = Exit int | Terminated

definition say :: "string \<Rightarrow> world \<Rightarrow> world" where
  "say msg w = w\<lparr>w_err := w_err w @ msg @ [newline]\<rparr>"

fun conf_failure :: "conf_error \<Rightarrow> world \<Rightarrow> cc_exit \<times> world" where
  "conf_failure NotAnObject w = (Exit 2, say ''jig.json: not a JSON object'' w)"
| "conf_failure (BadBinFmt b) w = (Exit 2, say (''jig.json: binfmt '' @ b @ '' is none of elf, macho, coff'') w)"
| "conf_failure JsonType w = (Terminated, w)"

definition language_of :: "string \<Rightarrow> language" where
  "language_of name =
     (if str_contains name ''++'' then kCxx
      else if str_contains name ''fortran'' \<or> str_contains name ''flang'' then kFortran else kC)"

definition driver_invocation :: "host \<Rightarrow> driver_conf \<Rightarrow> language \<Rightarrow> string list \<Rightarrow> world \<Rightarrow> invocation" where
  "driver_invocation h conf lang user_args w =
     (let iv = ParseInvocation (w_env w) (h_pid h) user_args;
          iv = (if (inv_link iv \<or> link_one iv) \<and> dc_binfmt conf \<noteq> kElf \<or> lang = kFortran then iv\<lparr>cacheable := False\<rparr> else iv)
      in if dc_present conf then
           (let args = BuildDriverArgs \<lparr>fs_canonical = h_canonical h, fs_exists = h_exists h (w_disk w)\<rparr> (w_env w) (w_store w)
                         conf lang user_args
            in iv\<lparr>inv_args := args, key_args := key_args iv @ filter (\<lambda>arg. arg \<notin> set user_args) args\<rparr>)
         else iv)"

definition run_cached :: "host \<Rightarrow> string \<Rightarrow> invocation \<Rightarrow> string \<Rightarrow> world \<Rightarrow> int \<times> world" where
  "run_cached h compiler iv primary w =
     (let (ids, w1) = ToolchainIds h compiler iv w;
          request_key = ComputeRequestKey h (w_env w1) (w_store w1) compiler iv (primary @ [newline] @ ''toolchain='' @ ids)
      in case Lookup h request_key iv w1 of
           (Inr hit, w2) \<Rightarrow>
             (case Replay h hit iv w2 of (status, w3) \<Rightarrow>
                (status, LogOutcome ''cc'' (if status = 0 then kHit else kHitFail) (inv_source iv) w3))
         | (Inl why, w2) \<Rightarrow> CompileAndStore h compiler request_key iv why w2)"

definition RunCcMode :: "host \<Rightarrow> string \<Rightarrow> string list \<Rightarrow> string \<Rightarrow> world \<Rightarrow> cc_exit \<times> world" where
  "RunCcMode h argv0 raw_args socket_path w =
     (let user_args = ExpandResponseFiles (w_disk w) raw_args in
      case LoadDriverConf (h_json h) (w_env w) (w_disk w) (h_self h) of
        Inl e \<Rightarrow> conf_failure e w
      | Inr None \<Rightarrow> (Exit 1, say ''jig: no etc/jig.json next to the binary and JIG_CC unset'' w)
      | Inr (Some conf) \<Rightarrow>
          (let name = path_filename argv0; lang = language_of name in
           if lang = kFortran \<and> dc_fc conf = []
           then (Exit 1, say (''jig: '' @ name @ '' called but etc/jig.json names no fc'') w)
           else
             (let compiler = (if lang = kFortran then dc_fc conf else dc_cc conf);
                  iv = driver_invocation h conf lang user_args w;
                  primary = (if cacheable iv then PrimaryIdentity h (w_store w) (w_disk w) iv else None);
                  (connected, w1) =
                    (if cacheable iv \<and> primary \<noteq> None then
                       (case h_socket h socket_path of (sock, refused) \<Rightarrow>
                          (case Connect (h_sun_path h) sock refused socket_path (w_cache w) of
                             (ok, c) \<Rightarrow> (ok, w\<lparr>w_cache := c\<rparr>)))
                     else (False, w))
              in if \<not> connected then
                   (case RunUncached h socket_path compiler iv (primary \<noteq> None) user_args
                           (if dc_present conf then pk_ldflags (dc_package conf) else []) w1 of
                      (status, w2) \<Rightarrow> (Exit status, w2))
                 else
                   (case run_cached h compiler iv (the primary) w1 of (status, w2) \<Rightarrow> (Exit status, w2)))))"

end
