(* ===== verification/Cc_Cache.thy ===== *)
theory Cc_Cache
  imports Cc_Run
begin

text \<open>
  What the compile cache of \<^verbatim>\<open>pkgs/ji/jig/src/cc_mode.cc\<close> promises: what the request key tells apart and
  what it does not, that a hit gives back the run that was stored, that some failures are never stored, and
  what the steps leave of the environment.
\<close>

section \<open>The request key\<close>

definition key_word :: "store \<Rightarrow> bool \<Rightarrow> string \<Rightarrow> string" where
  "key_word st links arg =
     (if links \<and> (str_contains arg ''dynamic-linker'' \<or> str_contains arg ''rpath'') then MaskOut st arg
      else Key st (MaskOut st arg))"

definition key_fields :: "host \<Rightarrow> env \<Rightarrow> store \<Rightarrow> string \<Rightarrow> invocation \<Rightarrow> string \<Rightarrow> string list" where
  "key_fields h env st compiler iv primary =
     [''cc='' @ ToolId (h_canonical h) st compiler, ''cwd='' @ Key st (h_cwd h)]
     @ (if \<not> inv_link iv then [''src='' @ Key st (MaskOut st (inv_source iv))] else [])
     @ [if inv_link iv then ''mode=link'' else if link_one iv then ''mode=link-one'' else ''mode=compile'']
     @ (if link_one iv \<or> inv_link iv then [''LIBRARY_PATH='' @ MaskForReplay st (Env env ''LIBRARY_PATH'' [])] else [])
     @ map (key_word st (link_one iv \<or> inv_link iv)) (key_args iv)
     @ [MaskOut st primary]"

lemma hash_fields_map: "foldl (\<lambda>hs arg. Hasher_Field hs (f arg)) hs xs = hash_fields hs (map f xs)"
  by (induction xs arbitrary: hs) simp_all

lemma ComputeRequestKey_fields:
  "ComputeRequestKey h env st compiler iv primary =
     RequestKey kCc (Hasher_Finish (h_b3 h) (hash_fields [] (key_fields h env st compiler iv primary)))"
proof -
  have kw: "(let embedded = (b \<and> (str_contains arg ''dynamic-linker'' \<or> str_contains arg ''rpath''))
      in Hasher_Field hs (if embedded then MaskOut st arg else Key st (MaskOut st arg))) = Hasher_Field hs (key_word st b arg)"
    for b hs arg by (simp only: Let_def key_word_def)
  show ?thesis
    unfolding ComputeRequestKey_def kw
    by (cases "inv_link iv"; cases "link_one iv") (simp_all add: key_fields_def Let_def hash_fields_map [of "key_word st b" for b])
qed

lemma ComputeRequestKey_view:
  "key_view iv = key_view iv' \<Longrightarrow>
   ComputeRequestKey h env st compiler iv primary = ComputeRequestKey h env st compiler iv' primary"
proof -
  assume "key_view iv = key_view iv'"
  from key_view_eqD [OF this] show ?thesis by (simp only: ComputeRequestKey_fields key_fields_def)
qed

lemma PrimaryIdentity_view: "key_view iv = key_view iv' \<Longrightarrow> PrimaryIdentity h st d iv = PrimaryIdentity h st d iv'"
proof -
  assume "key_view iv = key_view iv'"
  from key_view_eqD [OF this] show ?thesis by (simp only: PrimaryIdentity_def)
qed

text \<open>Depfile options are not part of the key: a command line and the same command line without its
  \<^verbatim>\<open>-MD -MMD -MP -MF -MT -MQ -Wp,-MD,\<close> options are the same request, with the same primary identity, and
  are cacheable alike.\<close>

lemma depfile_options_not_in_key:
  fixes env :: env and pid args
  defines "iv \<equiv> ParseInvocation env pid args" and "iv' \<equiv> ParseInvocation env pid (without_depfile args)"
  shows "ComputeRequestKey h env' st compiler iv primary = ComputeRequestKey h env' st compiler iv' primary
    \<and> PrimaryIdentity h st d iv = PrimaryIdentity h st d iv' \<and> cacheable iv = cacheable iv'"
proof -
  have "key_view iv = key_view iv'" unfolding iv_def iv'_def by (rule ParseInvocation_without_depfile)
  then show ?thesis using ComputeRequestKey_view PrimaryIdentity_view key_view_eqD(10) by blast
qed

lemma mode_fields:
  "''mode=link'' \<noteq> ''src='' @ s" "''mode=link-one'' \<noteq> ''mode=compile''" by simp_all

text \<open>C2. Two runs with the same request key are the same run as far as the compiler can tell: same
  compiler, directory, kind, source, search path, words and primary input, each up to the masking of store
  hashes.  The one thing assumed of the hash is that it tells the two byte strings apart.\<close>

theorem request_key_determines_run:
  fixes h :: host and env env' :: env and st st' :: store and compiler compiler' primary primary' :: string and iv iv' :: invocation
  defines "x \<equiv> foldl Hasher_Field [] (key_fields h env st compiler iv primary)"
    and "y \<equiv> foldl Hasher_Field [] (key_fields h env' st' compiler' iv' primary')"
  assumes "ComputeRequestKey h env st compiler iv primary = ComputeRequestKey h env' st' compiler' iv' primary'"
    and "h_b3 h x = h_b3 h y \<Longrightarrow> x = y"
  shows "ToolId (h_canonical h) st compiler = ToolId (h_canonical h) st' compiler'
    \<and> Key st (h_cwd h) = Key st' (h_cwd h)
    \<and> inv_link iv = inv_link iv' \<and> (\<not> inv_link iv \<longrightarrow> link_one iv = link_one iv')
    \<and> (\<not> inv_link iv \<longrightarrow> Key st (MaskOut st (inv_source iv)) = Key st' (MaskOut st' (inv_source iv')))
    \<and> (link_one iv \<or> inv_link iv \<longrightarrow>
        MaskForReplay st (Env env ''LIBRARY_PATH'' []) = MaskForReplay st' (Env env' ''LIBRARY_PATH'' []))
    \<and> map (key_word st (link_one iv \<or> inv_link iv)) (key_args iv)
      = map (key_word st' (link_one iv \<or> inv_link iv)) (key_args iv')
    \<and> MaskOut st primary = MaskOut st' primary'"
proof -
  have "HexEncode (h_b3 h x) = HexEncode (h_b3 h y)"
    using assms(3) by (simp add: ComputeRequestKey_fields RequestKey_def Hasher_Finish_def x_def y_def)
  then have "x = y" using assms(4) by (simp only: HexEncode_inject)
  then have f: "key_fields h env st compiler iv primary = key_fields h env' st' compiler' iv' primary'"
    by (simp only: x_def y_def fields_inject)
  then have l: "inv_link iv = inv_link iv'"
    by (cases "inv_link iv"; cases "inv_link iv'") (simp_all add: key_fields_def)
  with f have o: "\<not> inv_link iv \<Longrightarrow> link_one iv = link_one iv'"
    by (cases "link_one iv"; cases "link_one iv'") (simp_all add: key_fields_def)
  show ?thesis
    using f l o by (cases "inv_link iv"; cases "link_one iv'") (simp_all add: key_fields_def)
qed

definition example_host :: host where
  "example_host =
     \<lparr>h_b3 = toy_b3, h_zc = store_zc, h_zd = store_zd, h_json = (\<lambda>_. JDiscarded), h_self = None, h_canonical = Some,
      h_exists = (\<lambda>d p. d p \<noteq> None), h_entries = (\<lambda>_. []), h_cwd = ''/b'', h_tmpdir = ''/tmp'', h_pid = 7,
      h_write = (\<lambda>_. \<lparr>opened = True, accepted = None, renamed = True\<rparr>), h_errno = [],
      h_exec = (\<lambda>argv env mode d.
        (\<lparr>ch_pipe = True, ch_fork = True, ch_reads = [''warn'', ''ing''], ch_waits = [WInterrupted, WExited 0], ch_out = [], ch_err = []\<rparr>,
         d(''a.o'' \<mapsto> ''OBJ'', ''./.jig7.d'' \<mapsto> ''a.o: a.c a.h''))),
      h_sun_path = 108, h_socket = (\<lambda>_. (True, False))\<rparr>"

theorem request_key_determines_run_witness:
  "map (key_word example_store False) (key_args (ParseInvocation no_env 1 [''-c'', ''a.c'', ''-O2'', ''-MD'']))
     = map (key_word example_store False) (key_args (ParseInvocation no_env 1 [''-c'', ''a.c'', ''-O2'']))"
proof -
  let ?iv = "ParseInvocation no_env 1 [''-c'', ''a.c'', ''-O2'', ''-MD'']" and ?iv' = "ParseInvocation no_env 1 [''-c'', ''a.c'', ''-O2'']"
  have k: "key_view ?iv = key_view ?iv'" by code_simp
  have nl: "\<not> inv_link ?iv" "\<not> link_one ?iv" by code_simp+
  have f: "key_fields example_host no_env example_store ''cc'' ?iv ''x'' = key_fields example_host no_env example_store ''cc'' ?iv' ''x''"
    by (simp only: key_fields_def key_view_eqD [OF k])
  from request_key_determines_run [of example_host no_env example_store "''cc''" ?iv "''x''" no_env example_store "''cc''" ?iv' "''x''"]
  show ?thesis
    using ComputeRequestKey_view [OF k] by (simp only: f nl) simp
qed

section \<open>What is stored\<close>

text \<open>The text has no placeholder path of its own, so swapping the output hash can be undone.\<close>

definition unmaskable :: "store \<Rightarrow> string \<Rightarrow> bool" where
  "unmaskable st bytes \<longleftrightarrow> out_hash st = []
     \<or> CHR ''-'' \<notin> set (store_dir st) \<and> \<not> str_contains bytes (store_dir st @ ''/'' @ kOutPlaceholder @ ''-'')"

lemma UnmaskOut_MaskOut:
  assumes "unmaskable st bytes" and same: "same_store st st'"
  shows "UnmaskOut st' (MaskOut st bytes) = bytes"
proof -
  have eq: "UnmaskOut st' x = UnmaskOut st x" for x using same by (simp add: UnmaskOut_def SwapOutHash_def same_store_def)
  let ?R = "store_dir st @ ''/'' @ kOutPlaceholder" and ?P = "store_dir st @ ''/'' @ out_hash st"
  show ?thesis
  proof (cases "out_hash st = []")
    case True
    then show ?thesis unfolding eq by (simp add: MaskOut_def UnmaskOut_def SwapOutHash_def)
  next
    case False
    with assms have "CHR ''-'' \<notin> set ?R" "\<not> str_contains bytes (?R @ ''-'')"
      by (auto simp: unmaskable_def kOutPlaceholder_def)
    from subst_mark_back [OF this(1) _ this(2), of "?P @ ''-''"] False show ?thesis
      unfolding eq by (simp add: SwapOutHash_subst)
  qed
qed

definition replayable :: "invocation \<Rightarrow> observed \<Rightarrow> string option \<Rightarrow> bool" where
  "replayable iv obs object \<longleftrightarrow> dep_text obs \<noteq> None
     \<and> (if run_status (ob_run obs) = 0 then object \<noteq> None \<and> (link_one iv \<or> inv_link iv \<longrightarrow> link_dep_text obs \<noteq> None)
        else \<not> (link_one iv \<or> inv_link iv) \<and> \<not> str_contains (stderr_text (ob_run obs)) ''file not found''
          \<and> Deterministic (ob_run obs))"

text \<open>The entries of the cache a stored run makes, in the order they are put.\<close>

definition stored_items :: "string \<Rightarrow> invocation \<Rightarrow> observed \<Rightarrow> string option \<Rightarrow> manifest \<Rightarrow> store \<Rightarrow> (string \<times> string) list" where
  "stored_items request_key iv obs object mf st =
     (slot_Manifest request_key, manifest_text mf)
     # (if run_status (ob_run obs) = 0
        then [(slot_Object (result_key mf), MaskOut st (the object)), (slot_Stderr (result_key mf), MaskOut st (stderr_text (ob_run obs)))]
          @ (if wants_depfile iv then [(slot_Depfile (result_key mf), MaskOut st (MaskForReplay st (the (dep_text obs))))] else [])
        else [(slot_ExitStatus (result_key mf), to_decimal (run_status (ob_run obs))),
              (slot_Stderr (result_key mf), MaskOut st (stderr_text (ob_run obs)))])"

abbreviation put_items :: "host \<Rightarrow> (string \<times> string) list \<Rightarrow> client \<Rightarrow> client" where
  "put_items h items c \<equiv> foldl (\<lambda>c (key, value). Put (h_zc h) key value c) c items"

lemma put_to_fields [simp]:
  "w_cache (put_to h k v w) = Put (h_zc h) k v (w_cache w)" "w_store (put_to h k v w) = w_store w"
  by (simp_all add: put_to_def)

lemma LogOutcome_fields [simp]:
  "w_cache (LogOutcome t oc s w) = w_cache w" "w_store (LogOutcome t oc s w) = w_store w" "w_env (LogOutcome t oc s w) = w_env w"
  by (simp_all add: LogOutcome_def)

lemma ForwardStdout_fields [simp]:
  "w_cache (ForwardStdout iv t w) = w_cache w" "w_store (ForwardStdout iv t w) = w_store w" "w_env (ForwardStdout iv t w) = w_env w"
  by (simp_all add: ForwardStdout_def)

text \<open>The world a run leaves: what goes to standard output is forwarded, of a successful run only.\<close>

definition after_run :: "invocation \<Rightarrow> observed \<Rightarrow> world \<Rightarrow> world" where
  "after_run iv obs w1 = ForwardStdout iv (if run_status (ob_run obs) = 0 then w_disk w1 (inv_output iv) else None) w1"

lemma CompileAndStore_status:
  assumes "RunObserved h compiler iv w = (obs, w1)"
  shows "fst (CompileAndStore h compiler rk iv why w) = int (run_status (ob_run obs))"
  using assms by (simp add: CompileAndStore_def Let_def split: prod.split)

lemma CompileAndStore_unstored:
  assumes "RunObserved h compiler iv w = (obs, w1)" "\<not> replayable iv obs (w_disk w1 (inv_output iv))"
  shows "w_cache (snd (CompileAndStore h compiler rk iv why w)) = w_cache w1"
  using assms by (auto simp: CompileAndStore_def Let_def replayable_def)

lemma CompileAndStore_stored:
  assumes run: "RunObserved h compiler iv w = (obs, w1)" and rep: "replayable iv obs (w_disk w1 (inv_output iv))"
    and mf: "build_manifest h rk obs iv (after_run iv obs w1) = (mf, w2)"
  shows "w_cache (snd (CompileAndStore h compiler rk iv why w))
    = put_items h (stored_items rk iv obs (w_disk w1 (inv_output iv)) mf (w_store w2)) (w_cache w2)"
proof (cases "run_status (ob_run obs) = 0")
  case True
  from True rep have "\<not> (dep_text obs = None \<or> w_disk w1 (inv_output iv) = None
      \<or> (link_one iv \<or> inv_link iv) \<and> link_dep_text obs = None)" by (auto simp: replayable_def)
  with True run mf show ?thesis
    by (auto simp: CompileAndStore_def Let_def after_run_def stored_items_def)
next
  case False
  from False rep have "\<not> (dep_text obs = None \<or> (link_one iv \<or> inv_link iv)
      \<or> str_contains (stderr_text (ob_run obs)) ''file not found'' \<or> \<not> Deterministic (ob_run obs))" by (auto simp: replayable_def)
  with False run mf show ?thesis
    by (auto simp: CompileAndStore_def Let_def after_run_def stored_items_def)
qed

lemma to_int_small: "n < 2 ^ 31 \<Longrightarrow> to_int n = int n"
  unfolding to_int_def by (simp add: signed_of_nat signed_take_bit_int_eq_self)

lemma slots_distinct:
  "slot_Manifest a \<noteq> slot_Object b" "slot_Manifest a \<noteq> slot_Stderr b" "slot_Manifest a \<noteq> slot_Depfile b" "slot_Manifest a \<noteq> slot_ExitStatus b"
  "slot_Object a \<noteq> slot_Stderr b" "slot_Object a \<noteq> slot_Depfile b" "slot_Object a \<noteq> slot_ExitStatus b"
  "slot_Stderr a \<noteq> slot_Depfile b" "slot_Stderr a \<noteq> slot_ExitStatus b" "slot_Depfile a \<noteq> slot_ExitStatus b"
  by (simp_all add: slot_Manifest_def slot_Object_def slot_Stderr_def slot_Depfile_def slot_ExitStatus_def)

text \<open>Everything a hit has to give back of a run.\<close>

definition run_as_result :: "invocation \<Rightarrow> observed \<Rightarrow> string option \<Rightarrow> store \<Rightarrow> cached_result" where
  "run_as_result iv obs object st =
     (if run_status (ob_run obs) = 0
      then \<lparr>cr_status = 0, cr_object = object,
            cr_depfile = (if wants_depfile iv then Some (MaskForReplay st (the (dep_text obs))) else None),
            cr_stderr = stderr_text (ob_run obs)\<rparr>
      else \<lparr>cr_status = int (run_status (ob_run obs)), cr_object = None, cr_depfile = None,
            cr_stderr = stderr_text (ob_run obs)\<rparr>)"

definition unmaskable_run :: "invocation \<Rightarrow> observed \<Rightarrow> string option \<Rightarrow> store \<Rightarrow> bool" where
  "unmaskable_run iv obs object st \<longleftrightarrow> unmaskable st (stderr_text (ob_run obs))
     \<and> (object \<noteq> None \<longrightarrow> unmaskable st (the object))
     \<and> (wants_depfile iv \<longrightarrow> unmaskable st (MaskForReplay st (the (dep_text obs))))"

lemma replay_stored:
  assumes rep: "replayable iv obs object" and un: "unmaskable_run iv obs object st" and same: "same_store st st'"
    and items: "items = stored_items rk iv obs object mf st"
  shows "replay_result st' iv (map_of items (slot_ExitStatus (result_key mf))) (map_of items (slot_Object (result_key mf)))
      (map_of items (slot_Depfile (result_key mf))) (map_of items (slot_Stderr (result_key mf)))
    = Inr (run_as_result iv obs object st)"
proof (cases "run_status (ob_run obs) = 0")
  case True
  from rep True obtain obj where obj: "object = Some obj" by (auto simp: replayable_def)
  with un have u: "UnmaskOut st' (MaskOut st (stderr_text (ob_run obs))) = stderr_text (ob_run obs)"
    "UnmaskOut st' (MaskOut st obj) = obj"
    "wants_depfile iv \<Longrightarrow> UnmaskOut st' (MaskOut st (MaskForReplay st (the (dep_text obs)))) = MaskForReplay st (the (dep_text obs))"
    by (auto simp: unmaskable_run_def intro!: UnmaskOut_MaskOut same)
  show ?thesis
    using True u slots_distinct unfolding items stored_items_def replay_result_def Let_def
    by (auto simp: obj run_as_result_def slots_distinct [symmetric])
next
  case False
  with rep have l: "\<not> link_one iv" "\<not> inv_link iv" "run_status (ob_run obs) < 128"
    by (auto simp: replayable_def Deterministic_def kSignalStatusBase_def)
  have p: "ParseUint (to_decimal (run_status (ob_run obs))) 10 = Some (run_status (ob_run obs))"
    using l(3) by (simp add: ParseUint_to_decimal)
  have i: "to_int (run_status (ob_run obs)) = int (run_status (ob_run obs))"
    by (rule to_int_small) (use l(3) in simp)
  have u: "UnmaskOut st' (MaskOut st (stderr_text (ob_run obs))) = stderr_text (ob_run obs)"
    using un by (auto simp: unmaskable_run_def intro!: UnmaskOut_MaskOut same)
  show ?thesis
    using False l(1,2) p i u slots_distinct unfolding items stored_items_def replay_result_def Let_def
    by (auto simp: run_as_result_def slots_distinct [symmetric])
qed

text \<open>C1. A hit gives back the run that was stored.  When a run of the compiler is stored, its cache entries
  are exactly those of \<open>stored_items\<close>; a later lookup that finds its result key, on a cache that answers
  from these entries, yields the same exit status, the same object bytes, the same messages and the depfile up
  to the masking of store hashes.\<close>

theorem hit_replays_run:
  assumes "RunObserved h compiler iv w = (obs, w1)" and "replayable iv obs (w_disk w1 (inv_output iv))"
    and "build_manifest h rk obs iv (after_run iv obs w1) = (mf, w2)"
    and "unmaskable_run iv obs (w_disk w1 (inv_output iv)) (w_store w2)"
    and "FindResult (h_b3 h) (h_zd h) (w_disk v) (h_exists h (w_disk v)) rk (w_store v, w_cache v) = (Inr (result_key mf), st, c)"
    and "same_store (w_store w2) st"
    and "fst (GetMany (h_zd h) [slot_ExitStatus (result_key mf), slot_Object (result_key mf), slot_Depfile (result_key mf),
           slot_Stderr (result_key mf)] c)
      = map (map_of items) [slot_ExitStatus (result_key mf), slot_Object (result_key mf), slot_Depfile (result_key mf),
           slot_Stderr (result_key mf)]"
    and "items = stored_items rk iv obs (w_disk w1 (inv_output iv)) mf (w_store w2)"
  shows "w_cache (snd (CompileAndStore h compiler rk iv why w)) = foldl (\<lambda>c (key, value). Put (h_zc h) key value c) (w_cache w2) items
    \<and> fst (Lookup h rk iv v) = Inr (run_as_result iv obs (w_disk w1 (inv_output iv)) (w_store w2))
    \<and> fst (CompileAndStore h compiler rk iv why w) = cr_status (run_as_result iv obs (w_disk w1 (inv_output iv)) (w_store w2))"
proof (intro conjI)
  show "w_cache (snd (CompileAndStore h compiler rk iv why w)) = put_items h items (w_cache w2)"
    unfolding assms(8) by (rule CompileAndStore_stored [OF assms(1,2,3)])
  show "fst (Lookup h rk iv v) = Inr (run_as_result iv obs (w_disk w1 (inv_output iv)) (w_store w2))"
    using assms(7) replay_stored [OF assms(2,4,6,8)]
    by (simp add: Lookup_def assms(5) case_prod_unfold numeral_2_eq_2 numeral_3_eq_3)
  show "fst (CompileAndStore h compiler rk iv why w) = cr_status (run_as_result iv obs (w_disk w1 (inv_output iv)) (w_store w2))"
    unfolding CompileAndStore_status [OF assms(1)] by (simp add: run_as_result_def)
qed

definition example_world :: "client \<Rightarrow> world" where
  "example_world c =
     \<lparr>w_disk = [''a.c'' \<mapsto> ''int y;'', ''a.h'' \<mapsto> ''int x;''], w_executable = [], w_env = no_env, w_store = example_store,
      w_cache = c, w_out = [], w_err = [], w_log = []\<rparr>"

definition example_iv :: invocation where
  "example_iv = ParseInvocation no_env 7 [''-c'', ''a.c'']"

definition example_observed :: "observed \<times> world" where
  "example_observed = RunObserved example_host ''cc'' example_iv (example_world offline)"

definition example_built :: "manifest \<times> world" where
  "example_built = build_manifest example_host ''k1'' (fst example_observed) example_iv
     (after_run example_iv (fst example_observed) (snd example_observed))"

definition example_items :: "(string \<times> string) list" where
  "example_items = stored_items ''k1'' example_iv (fst example_observed) (w_disk (snd example_observed) (inv_output example_iv))
     (fst example_built) (w_store (snd example_built))"

definition example_keys4 :: "string list" where
  "example_keys4 = (let rk = result_key (fst example_built) in [slot_ExitStatus rk, slot_Object rk, slot_Depfile rk, slot_Stderr rk])"

definition example_server :: client where
  "example_server = example_client (concat (map (answer store_zc)
     (Some (manifest_text (fst example_built)) # map (map_of example_items) example_keys4))) 400"

lemma Validate_offline:
  assumes "filter (DaemonMayIdentify st) (manifest_paths (ParseManifest st str)) = []"
  shows "ValidateManifest b3 d ex rk str (st, c) = (validate_entries b3 st d ex (Hasher_Field [] rk) (ParseManifest st str), st, c)"
  using assms by (simp add: ValidateManifest_def PrefetchIdentities_def Identities_def Let_def)

lemma example_found:
  "\<exists>c. FindResult toy_b3 store_zd (w_disk (example_world example_server)) (\<lambda>p. w_disk (example_world example_server) p \<noteq> None) ''k1''
      (example_store, example_server) = (Inr (result_key (fst example_built)), example_store, c)
    \<and> fst (GetMany store_zd example_keys4 c) = map (map_of example_items) example_keys4"
proof -
  let ?t = "manifest_text (fst example_built)" and ?vs = "map (map_of example_items) example_keys4"
  have v: "validate_entries toy_b3 example_store (w_disk (example_world offline)) (\<lambda>p. w_disk (example_world offline) p \<noteq> None)
      (Hasher_Field [] ''k1'') (ParseManifest example_store ?t) = Inr (result_key (fst example_built))" by code_simp
  have f: "filter (DaemonMayIdentify example_store) (manifest_paths (ParseManifest example_store ?t)) = []" by code_simp
  have l: "length ?t < 1000" "length (concat (map (\<lambda>key. ''GET '' @ key @ [newline]) example_keys4)) \<le> 300" by code_simp+
  have "list_all (\<lambda>v. case v of None \<Rightarrow> True | Some x \<Rightarrow> length x < 1000) ?vs" by code_simp
  then have ok: "\<forall>v \<in> set ?vs. answer_ok store_zc store_zd v"
    unfolding list_all_iff by (metis (no_types, lifting) answer_ok.elims(3) option.simps(5) storable_example)
  have st: "stream example_server = answer store_zc (Some ?t) @ concat (map (answer store_zc) ?vs) @ []"
    by (simp only: example_server_def stream_example list.map concat.simps append_Nil2)
  have "can_send (length (''GET '' @ slot_Manifest ''k1'' @ [newline]) + 300) example_server"
    unfolding example_server_def by (rule can_send_example) (simp add: slot_Manifest_def)
  from Get_can [OF _ st this, of store_zd] obtain c where c: "Get store_zd (slot_Manifest ''k1'') example_server = (Some ?t, c)"
    "stream c = concat (map (answer store_zc) ?vs) @ []" "can_send 300 c"
    using storable_example [OF l(1)] by auto
  have cs: "can_send (length (concat (map (\<lambda>key. ''GET '' @ key @ [newline]) example_keys4)) + 0) c"
    using c(3) l(2) by (simp add: can_send_def)
  have "fst (GetMany store_zd example_keys4 c) = ?vs"
    using GetMany_can [OF ok c(2) _ cs] by auto
  moreover have "FindResult toy_b3 store_zd (w_disk (example_world example_server)) (\<lambda>p. w_disk (example_world example_server) p \<noteq> None) ''k1''
      (example_store, example_server) = (Inr (result_key (fst example_built)), example_store, c)"
    using v by (simp add: FindResult_def c(1) Validate_offline [OF f] example_world_def)
  ultimately show ?thesis by blast
qed

theorem hit_replays_run_witness:
  "fst (Lookup example_host ''k1'' example_iv (example_world example_server))
    = Inr \<lparr>cr_status = 0, cr_object = Some ''OBJ'', cr_depfile = None, cr_stderr = ''warning''\<rparr>"
proof -
  obtain c where c: "FindResult toy_b3 store_zd (w_disk (example_world example_server)) (\<lambda>p. w_disk (example_world example_server) p \<noteq> None) ''k1''
      (example_store, example_server) = (Inr (result_key (fst example_built)), example_store, c)"
    "fst (GetMany store_zd example_keys4 c) = map (map_of example_items) example_keys4"
    using example_found by blast
  have h: "h_b3 example_host = toy_b3" "h_zd example_host = store_zd" "h_exists example_host = (\<lambda>d p. d p \<noteq> None)"
    by (simp_all add: example_host_def)
  have w: "w_store (example_world example_server) = example_store" "w_cache (example_world example_server) = example_server"
    by (simp_all add: example_world_def)
  have obs: "RunObserved example_host ''cc'' example_iv (example_world offline) = (fst example_observed, snd example_observed)"
    by (simp add: example_observed_def)
  have built: "build_manifest example_host ''k1'' (fst example_observed) example_iv
      (after_run example_iv (fst example_observed) (snd example_observed)) = (fst example_built, snd example_built)"
    by (simp add: example_built_def)
  have rep: "replayable example_iv (fst example_observed) (w_disk (snd example_observed) (inv_output example_iv))" by code_simp
  have un: "unmaskable_run example_iv (fst example_observed) (w_disk (snd example_observed) (inv_output example_iv)) (w_store (snd example_built))"
    by code_simp
  have same: "same_store (w_store (snd example_built)) example_store" by code_simp
  have r: "run_as_result example_iv (fst example_observed) (w_disk (snd example_observed) (inv_output example_iv)) (w_store (snd example_built))
      = \<lparr>cr_status = 0, cr_object = Some ''OBJ'', cr_depfile = None, cr_stderr = ''warning''\<rparr>" by code_simp
  have k: "[slot_ExitStatus (result_key (fst example_built)), slot_Object (result_key (fst example_built)),
     slot_Depfile (result_key (fst example_built)), slot_Stderr (result_key (fst example_built))] = example_keys4"
    by (simp add: example_keys4_def Let_def)
  from hit_replays_run [OF obs rep built un _ same _ example_items_def, of "example_world example_server" c "[]"] c show ?thesis
    unfolding h w k r by simp
qed

section \<open>What is not stored, and what is left\<close>

text \<open>C20. A failure that says nothing about the inputs is never stored: for a failed link, a missing
  header, an unknown input set, or a compiler that was killed or crashed, the cache connection is left as the
  run itself left it, with nothing put, and the caller gets the compiler's status.\<close>

theorem uncertain_failures_not_stored:
  assumes "RunObserved h compiler iv w = (obs, w1)" and "run_status (ob_run obs) \<noteq> 0"
    and "link_one iv \<or> inv_link iv \<or> str_contains (stderr_text (ob_run obs)) ''file not found'' \<or> dep_text obs = None
      \<or> kSignalStatusBase \<le> run_status (ob_run obs) \<or> str_contains (stderr_text (ob_run obs)) ''unable to execute command''
      \<or> str_contains (stderr_text (ob_run obs)) ''PLEASE submit a bug report''"
  shows "w_cache (snd (CompileAndStore h compiler rk iv why w)) = w_cache w1
    \<and> fst (CompileAndStore h compiler rk iv why w) = int (run_status (ob_run obs))"
proof
  have "\<not> replayable iv obs (w_disk w1 (inv_output iv))"
    using assms(2,3) by (auto simp: replayable_def Deterministic_def)
  then show "w_cache (snd (CompileAndStore h compiler rk iv why w)) = w_cache w1"
    by (rule CompileAndStore_unstored [OF assms(1)])
qed (rule CompileAndStore_status [OF assms(1)])

definition killed_host :: host where
  "killed_host = example_host\<lparr>h_exec := (\<lambda>argv env mode d.
     (\<lparr>ch_pipe = True, ch_fork = True, ch_reads = [], ch_waits = [WSignaled 9], ch_out = [], ch_err = []\<rparr>, d))\<rparr>"

theorem uncertain_failures_not_stored_witness:
  "fst (CompileAndStore killed_host ''cc'' ''k1'' example_iv [] (example_world offline)) = 137"
proof -
  let ?o = "RunObserved killed_host ''cc'' example_iv (example_world offline)"
  have s: "run_status (ob_run (fst ?o)) = 137" by code_simp
  from uncertain_failures_not_stored [of killed_host "''cc''" example_iv "example_world offline" "fst ?o" "snd ?o"] s
  show ?thesis by (simp add: kSignalStatusBase_def)
qed

lemma Slot_destroy_fields [simp]:
  "w_disk (Slot_destroy slot w) = w_disk w" "w_store (Slot_destroy slot w) = w_store w"
  "w_env (Slot_destroy slot w) = (case slot of None \<Rightarrow> w_env w | Some _ \<Rightarrow> (w_env w)(kSlotEnv := None))"
  by (simp_all add: Slot_destroy_def split: option.split)

lemma RunObserved_env:
  assumes "RunObserved h compiler iv w = (obs, w')"
  shows "Env (w_env w') name [] = (if name = ''JIG_ABSENT_LOG'' then [] else Env (w_env w) name [])"
proof -
  obtain slot w1 where s: "Slot h [] w = (slot, w1)" by fastforce
  let ?w1 = "w1\<lparr>w_env := (w_env w1)(''JIG_ABSENT_LOG'' \<mapsto> tmp_base h iv @ ''.absent'')\<rparr>"
  obtain run w2 where r: "Run h compiler (observed_args h iv) kCapture ?w1 = (run, w2)" by fastforce
  have e: "w_env w' = (case slot of None \<Rightarrow> (w_env w2)(''JIG_ABSENT_LOG'' := None)
      | Some _ \<Rightarrow> ((w_env w2)(''JIG_ABSENT_LOG'' := None))(kSlotEnv := None))"
    using assms by (cases slot) (auto simp: RunObserved_def Let_def s r)
  show ?thesis
    using Slot_env(1,2) [OF s] Run_frame(1) [OF r] unfolding e
    by (auto simp: Env_def kSlotEnv_def split: option.splits)
qed



end
