(* ===== verification/Go_Cache.thy ===== *)
theory Go_Cache
  imports Cc_Cache
begin

text \<open>
  The build cache program of the Go tool, \<^verbatim>\<open>pkgs/ji/jig/src/gocache_mode.{h,cc}\<close>: base 64, the line reader
  over standard input, the scan for a member of a request, the two handlers and the loop.  Standard input
  is a script of what each \<^verbatim>\<open>read\<close> gives, at most the buffer size; nothing at the end of file and on an
  error.  \<^verbatim>\<open>unsigned\<close> is a number below \<open>2 ^ 32\<close>, with the wrap-around of the left shift.
\<close>

unbundle bit_operations_syntax

section \<open>Model\<close>

definition u32 :: "nat \<Rightarrow> nat" where "u32 n = take_bit 32 n"

definition kAlphabet :: string where
  "kAlphabet = ''ABCDEFGHIJKLMNOPQRSTUVWXYZabcdefghijklmnopqrstuvwxyz0123456789+/''"

definition kInvalid :: nat where "kInvalid = 255"

definition MakeDecodeTable :: "char \<Rightarrow> nat" where
  "MakeDecodeTable = foldl (\<lambda>table i. table(kAlphabet ! i := i)) (\<lambda>_. kInvalid) [0..<length kAlphabet]"

function emit_sextets :: "nat \<Rightarrow> nat \<Rightarrow> string \<Rightarrow> nat \<times> string" where
  "emit_sextets acc bits out =
     (if bits \<ge> 6
      then emit_sextets acc (bits - 6) (out @ [kAlphabet ! (drop_bit (bits - 6) acc AND 63)])
      else (bits, out))"
  by pat_completeness auto
termination
  by (relation "measure (\<lambda>(acc, bits, out). bits)") auto

declare emit_sextets.simps [simp del]

fun encode_step :: "nat \<times> nat \<times> string \<Rightarrow> char \<Rightarrow> nat \<times> nat \<times> string" where
  "encode_step (acc, bits, out) chr =
     (let acc1 = u32 (push_bit 8 acc) OR of_char chr;
          (bits1, out1) = emit_sextets acc1 (bits + 8) out
      in (acc1 AND (2 ^ bits1 - 1), bits1, out1))"

function pad4 :: "string \<Rightarrow> string" where
  "pad4 out = (if length out mod 4 \<noteq> 0 then pad4 (out @ ''='') else out)"
  by pat_completeness auto
termination
  by (relation "measure (\<lambda>out. (4 - length out mod 4) mod 4)") (auto simp: mod_Suc)

declare pad4.simps [simp del]

definition Base64Encode :: "string \<Rightarrow> string" where
  "Base64Encode bytes =
     (case foldl encode_step (0, 0, []) bytes of (acc, bits, out) \<Rightarrow>
        pad4 (if bits > 0 then out @ [kAlphabet ! (u32 (push_bit (6 - bits) acc) AND 63)] else out))"

fun decode_step :: "nat \<times> nat \<times> string \<Rightarrow> char \<Rightarrow> nat \<times> nat \<times> string" where
  "decode_step (acc, bits, out) chr =
     (let sextet = MakeDecodeTable chr in
      if sextet = kInvalid then (acc, bits, out)
      else let acc1 = u32 (push_bit 6 acc) OR sextet;
               (bits1, out1) = (if bits + 6 \<ge> 8 then (bits + 6 - 8, out @ [char_of (drop_bit (bits + 6 - 8) acc1 AND 255)])
                                else (bits + 6, out))
           in (acc1 AND (2 ^ bits1 - 1), bits1, out1))"

definition Base64Decode :: "string \<Rightarrow> string" where
  "Base64Decode str = snd (snd (foldl decode_step (0, 0, []) str))"

text \<open>The bytes of the buffer not yet handed out, and what the reads to come give.\<close>

record line_reader =
  lr_pending :: string
  lr_reads :: "string list"

fun next_line :: "string \<Rightarrow> string \<Rightarrow> string list \<Rightarrow> bool \<times> string \<times> line_reader" where
  "next_line line buf rs =
     (case str_find buf [newline] 0 of
        Some nl \<Rightarrow> (True, line @ take nl buf, \<lparr>lr_pending = drop (nl + 1) buf, lr_reads = rs\<rparr>)
      | None \<Rightarrow>
          (case rs of
             [] \<Rightarrow> (line @ buf \<noteq> [], line @ buf, \<lparr>lr_pending = [], lr_reads = []\<rparr>)
           | got # rest \<Rightarrow>
               if got = [] then (line @ buf \<noteq> [], line @ buf, \<lparr>lr_pending = [], lr_reads = rest\<rparr>)
               else next_line (line @ buf) got rest))"

declare next_line.simps [simp del]

definition LineReader_Next :: "line_reader \<Rightarrow> bool \<times> string \<times> line_reader" where
  "LineReader_Next input = next_line [] (lr_pending input) (lr_reads input)"

definition JsonField :: "string \<Rightarrow> string \<Rightarrow> string" where
  "JsonField line key =
     (let pattern = [dquote] @ key @ [dquote] @ '':'' in
      case str_find line pattern 0 of
        None \<Rightarrow> []
      | Some found \<Rightarrow>
          (let pos = found + length pattern in
           if pos < length line \<and> line ! pos = dquote then
             (case str_find line [dquote] (pos + 1) of
                None \<Rightarrow> []
              | Some e \<Rightarrow> take (e - pos - 1) (drop (pos + 1) line))
           else takeWhile (\<lambda>c. c \<noteq> CHR '','' \<and> c \<noteq> CHR ''}'') (drop pos line)))"

text \<open>The cast of a 64-bit count to \<^verbatim>\<open>int64_t\<close>, and its decimal text.\<close>

definition to_int64 :: "nat \<Rightarrow> int" where
  "to_int64 n = sint (word_of_nat n :: 64 word)"

definition show_int :: "int \<Rightarrow> string" where
  "show_int i = (if i < 0 then ''-'' @ to_decimal (nat (- i)) else to_decimal (nat i))"

definition JsonInt :: "string \<Rightarrow> string \<Rightarrow> int" where
  "JsonInt line key = to_int64 (case ParseUint (JsonField line key) 10 of None \<Rightarrow> 0 | Some n \<Rightarrow> n)"

definition json_name :: "string \<Rightarrow> string" where
  "json_name key = [dquote] @ key @ [dquote] @ '':''"

definition json_text :: "string \<Rightarrow> string" where
  "json_text s = [dquote] @ s @ [dquote]"

record go_session =
  go_live :: bool
  go_dir :: string

definition println_out :: "string \<Rightarrow> world \<Rightarrow> world" where
  "println_out line w = w\<lparr>w_out := w_out w @ line @ [newline]\<rparr>"

definition hit_line :: "int \<Rightarrow> string \<Rightarrow> nat \<Rightarrow> string \<Rightarrow> string" where
  "hit_line request_id output_id len disk_path =
     ''{'' @ json_name ''ID'' @ show_int request_id @ '','' @ json_name ''OutputID'' @ json_text (Base64Encode output_id)
       @ '','' @ json_name ''Size'' @ to_decimal len @ '','' @ json_name ''DiskPath'' @ json_text disk_path @ ''}''"

definition miss_line :: "int \<Rightarrow> string" where
  "miss_line request_id = ''{'' @ json_name ''ID'' @ show_int request_id @ '','' @ json_name ''Miss'' @ ''true}''"

definition torn_line :: "int \<Rightarrow> nat \<Rightarrow> int \<Rightarrow> string" where
  "torn_line request_id got want =
     ''{'' @ json_name ''ID'' @ show_int request_id @ '','' @ json_name ''Err''
       @ json_text (''body: got '' @ to_decimal got @ '' of '' @ show_int want @ '' bytes'') @ ''}''"

definition stored_line :: "int \<Rightarrow> string \<Rightarrow> string" where
  "stored_line request_id disk_path =
     ''{'' @ json_name ''ID'' @ show_int request_id @ '','' @ json_name ''DiskPath'' @ json_text disk_path @ ''}''"

definition HandleGet :: "host \<Rightarrow> go_session \<Rightarrow> int \<Rightarrow> string \<Rightarrow> world \<Rightarrow> world" where
  "HandleGet h session request_id action w =
     (let (output_id, w1) = (if go_live session then get_from h (slot_GoAction action) w else (None, w));
          (body, w2) = (case output_id of None \<Rightarrow> (None, w1) | Some i \<Rightarrow> get_from h (slot_GoOutput (HexEncode i)) w1)
      in case (output_id, body) of
           (Some i, Some b) \<Rightarrow>
             (let w3 = LogOutcome ''go'' kHit action w2;
                  disk_path = path_append (go_dir session) (HexEncode i);
                  w4 = (if \<not> h_exists h (w_disk w3) disk_path then snd (write_to h disk_path b w3) else w3)
              in println_out (hit_line request_id i (length b) disk_path) w4)
         | _ \<Rightarrow> println_out (miss_line request_id) w2)"

text \<open>Every line taken off the input makes it smaller.\<close>

definition input_size :: "line_reader \<Rightarrow> nat" where
  "input_size input = length (lr_pending input) + (\<Sum>r \<leftarrow> lr_reads input. length r + 1)"

lemma next_line_size:
  "next_line line buf rs = (ok, l, r) \<Longrightarrow>
     input_size r + (if ok then 1 else 0) \<le> length line + length buf + (\<Sum>r \<leftarrow> rs. length r + 1)"
proof (induction line buf rs rule: next_line.induct)
  case (1 line buf rs)
  show ?case
  proof (cases "str_find buf [newline] 0")
    case None
    with 1 show ?thesis
      by (cases rs) (auto simp: next_line.simps [of line] input_size_def Suc_le_eq split: if_splits)
  next
    case (Some nl)
    have "buf \<noteq> []" using Some by (auto simp: str_find_char)
    then have "Suc (length buf - Suc nl) \<le> length buf" by (cases buf) auto
    with Some "1.prems" show ?thesis by (auto simp: next_line.simps [of line] input_size_def)
  qed
qed

lemma Next_size: "LineReader_Next input = (ok, l, r) \<Longrightarrow> input_size r + (if ok then 1 else 0) \<le> input_size input"
  using next_line_size [of "[]" "lr_pending input" "lr_reads input"] by (simp add: LineReader_Next_def input_size_def)

text \<open>The first line that is not empty, or an empty one at the end of the input.\<close>

function body_line :: "line_reader \<Rightarrow> string \<times> line_reader" where
  "body_line input =
     (case LineReader_Next input of (ok, line, input1) \<Rightarrow>
        if ok \<and> line = [] then body_line input1 else (line, input1))"
  by pat_completeness auto
termination
  by (relation "measure input_size") (auto dest!: sym [of _ "LineReader_Next _"] Next_size)

declare body_line.simps [simp del]

definition put_body :: "string \<Rightarrow> string" where
  "put_body line =
     (if length line \<ge> 2 \<and> hd line = dquote \<and> last line = dquote
      then Base64Decode (take (length line - 2) (drop 1 line)) else [])"

definition store_body :: "host \<Rightarrow> go_session \<Rightarrow> int \<Rightarrow> string \<Rightarrow> string \<Rightarrow> string \<Rightarrow> world \<Rightarrow> world" where
  "store_body h session request_id action output_id body w =
     (let disk_path = path_append (go_dir session) (HexEncode output_id);
          w1 = snd (write_to h disk_path body w);
          w2 = (if go_live session
                then put_to h (slot_GoAction action) output_id (put_to h (slot_GoOutput (HexEncode output_id)) body w1) else w1);
          w3 = LogOutcome ''go'' kMissStored action w2
      in println_out (stored_line request_id disk_path) w3)"

definition HandlePut :: "host \<Rightarrow> go_session \<Rightarrow> line_reader \<Rightarrow> int \<Rightarrow> string \<Rightarrow> string \<Rightarrow> world \<Rightarrow> line_reader \<times> world" where
  "HandlePut h session input request_id action req w =
     (let output_id = Base64Decode (JsonField req ''OutputID'');
          body_size = JsonInt req ''BodySize''
      in if body_size > 0 then
           (case body_line input of (line, input1) \<Rightarrow>
              let body = put_body line in
              if int (length body) \<noteq> body_size
              then (input1, println_out (torn_line request_id (length body) body_size) w)
              else (input1, store_body h session request_id action output_id body w))
         else (input, store_body h session request_id action output_id [] w))"

lemma body_line_size: "body_line input = (line, input1) \<Longrightarrow> input_size input1 \<le> input_size input"
proof (induction input rule: body_line.induct)
  case (1 input)
  obtain ok l r where n: "LineReader_Next input = (ok, l, r)" by (cases "LineReader_Next input") auto
  show ?case
  proof (cases "ok \<and> l = []")
    case True
    with 1 n have "input_size input1 \<le> input_size r" by (simp add: body_line.simps [of input])
    with Next_size [OF n] show ?thesis by simp
  next
    case False
    with "1.prems" n Next_size [OF n] show ?thesis by (auto simp: body_line.simps [of input])
  qed
qed

lemma HandlePut_size: "HandlePut h session input i action req w = (input1, w1) \<Longrightarrow> input_size input1 \<le> input_size input"
  by (auto simp: HandlePut_def Let_def dest: body_line_size split: if_splits prod.splits)

definition go_request :: "host \<Rightarrow> go_session \<Rightarrow> string \<Rightarrow> line_reader \<Rightarrow> world \<Rightarrow> line_reader \<times> world" where
  "go_request h session line input w =
     (let request_id = JsonInt line ''ID'';
          command = JsonField line ''Command'';
          action = HexEncode (Base64Decode (JsonField line ''ActionID''))
      in if command = ''get'' then (input, HandleGet h session request_id action w)
         else if command = ''put'' then HandlePut h session input request_id action line w
         else (input, w))"

lemma go_request_size: "go_request h session line input w = (input1, w1) \<Longrightarrow> input_size input1 \<le> input_size input"
  by (auto simp: go_request_def Let_def dest: HandlePut_size split: if_splits)

function go_loop :: "host \<Rightarrow> go_session \<Rightarrow> line_reader \<Rightarrow> world \<Rightarrow> world" where
  "go_loop h session input w =
     (case LineReader_Next input of (ok, line, input1) \<Rightarrow>
        if \<not> ok then w
        else if line = [] then go_loop h session input1 w
        else if JsonField line ''Command'' = ''close''
        then println_out (''{'' @ json_name ''ID'' @ show_int (JsonInt line ''ID'') @ ''}'') w
        else case go_request h session line input1 w of (input2, w1) \<Rightarrow> go_loop h session input2 w1)"
  by pat_completeness auto
termination
  by (relation "measure (\<lambda>(h, session, input, w). input_size input)")
     (auto dest!: sym [of _ "LineReader_Next _"] Next_size go_request_size split: prod.splits)

declare go_loop.simps [simp del]

definition RunGoCacheProg :: "host \<Rightarrow> string \<Rightarrow> line_reader \<Rightarrow> world \<Rightarrow> int \<times> world" where
  "RunGoCacheProg h socket_path input w =
     (case h_socket h socket_path of (sock, refused) \<Rightarrow>
        (case Connect (h_sun_path h) sock refused socket_path (w_cache w) of
           (live, c) \<Rightarrow>
             (let dir = Env (w_env w) ''GOCACHEPROG_DIR'' (Env (w_env w) ''TMPDIR'' ''/tmp'' @ ''/gocacheprog'');
                  hello = ''{'' @ json_name ''ID'' @ ''0,'' @ json_name ''KnownCommands'' @ ''['' @ json_text ''get'' @ '',''
                            @ json_text ''put'' @ '','' @ json_text ''close'' @ '']}''
              in (0, go_loop h \<lparr>go_live = live, go_dir = dir\<rparr> input (println_out hello (w\<lparr>w_cache := c\<rparr>))))))"

section \<open>Base 64\<close>

text \<open>The encoding as RFC 4648 tables it: three octets are four letters, a last group of one or two octets is
  filled with zero bits and padded.\<close>

definition b64 :: "nat \<Rightarrow> char" where "b64 i = kAlphabet ! i"

fun rfc4648 :: "string \<Rightarrow> string" where
  "rfc4648 [] = []"
| "rfc4648 [a] = [b64 (of_char a div 4), b64 (of_char a mod 4 * 16), CHR ''='', CHR ''='']"
| "rfc4648 [a, b] =
     [b64 (of_char a div 4), b64 (of_char a mod 4 * 16 + of_char b div 16), b64 (of_char b mod 16 * 4), CHR ''='']"
| "rfc4648 (a # b # c # rest) =
     b64 (of_char a div 4) # b64 (of_char a mod 4 * 16 + of_char b div 16)
       # b64 (of_char b mod 16 * 4 + of_char c div 64) # b64 (of_char c mod 64) # rfc4648 rest"

lemma shift_or: "b < 2 ^ n \<Longrightarrow> push_bit n a OR b = a * 2 ^ n + (b :: nat)"
proof -
  assume b: "b < 2 ^ n"
  have "push_bit n a AND b = 0"
    by (rule bit_eqI) (use b in \<open>auto simp: bit_and_iff bit_push_bit_iff dest: bit_take_bit_iff [THEN iffD1]
      simp flip: take_bit_nat_eq_self_iff\<close>, metis bit_take_bit_iff leD)
  then show ?thesis using disjunctive_add_eq_or [of "push_bit n a" b] by (simp add: push_bit_eq_mult)
qed

lemma and_ones: "(n :: nat) AND (2 ^ k - 1) = n mod 2 ^ k"
  using take_bit_eq_mask [of k n] by (simp add: mask_eq_exp_minus_1 take_bit_eq_mod)

lemmas and_consts = and_ones [where k = 6, simplified] and_ones [where k = 8, simplified]

lemma alphabet_decodes: "i < 64 \<Longrightarrow> MakeDecodeTable (b64 i) = i"
proof -
  have "list_all (\<lambda>i. MakeDecodeTable (b64 i) = i) [0..<64]" by code_simp
  then show "i < 64 \<Longrightarrow> ?thesis" by (simp add: list_all_iff)
qed

lemma padding_skipped: "decode_step st CHR ''='' = st"
proof -
  have "MakeDecodeTable CHR ''='' = kInvalid" by code_simp
  then show ?thesis by (cases st) simp
qed

lemma u32_small: "n < 2 ^ 32 \<Longrightarrow> u32 n = n"
  by (simp add: u32_def take_bit_nat_eq_self)

lemma octet_or: "acc < 16 \<Longrightarrow> u32 (push_bit 8 acc) OR of_char chr = acc * 256 + of_char chr"
  using shift_or [of "of_char chr" 8 acc] of_char_nat_less [of chr] by (simp add: u32_small push_bit_eq_mult)

lemma sextet_or: "acc < 64 \<Longrightarrow> s < 64 \<Longrightarrow> u32 (push_bit 6 acc) OR s = acc * 64 + s"
  using shift_or [of s 6 acc] by (simp add: u32_small push_bit_eq_mult)

lemma emit_lt: "bits < 6 \<Longrightarrow> emit_sextets acc bits out = (bits, out)"
  by (simp add: emit_sextets.simps)

lemma emit_ge: "6 \<le> bits \<Longrightarrow>
    emit_sextets acc bits out = emit_sextets acc (bits - 6) (out @ [b64 (acc div 2 ^ (bits - 6) mod 64)])"
  by (simp add: emit_sextets.simps [of acc bits] and_consts drop_bit_eq_div b64_def)

lemmas low_bits = and_ones [where k = 2, simplified] and_ones [where k = 4, simplified] and_consts

lemma div_block: "0 < m \<Longrightarrow> (x * (m * k) + n) div m = x * k + n div m" for m :: nat
  by (metis add.commute div_mult_self2 less_numeral_extra(3) mult.assoc mult.commute)

lemma mod_block: "(x * (m * k) + n) mod m = n mod m" for m :: nat
  by (metis mod_mult_self3 mult.assoc mult.commute)

lemmas blocks = div_block [of 16 _ 16, simplified] mod_block [of _ 16 16, simplified] div_block [of 64 _ 4, simplified]
  mod_block [of _ 64 4, simplified] div_block [of 16 _ 4, simplified] mod_block [of _ 16 4, simplified]
  div_block [of 4 _ 16, simplified] mod_block [of _ 4 16, simplified] div_less_iff_less_mult

text \<open>The pending bits after each octet and after each letter of a group.\<close>

lemma encode_first: "encode_step (0, 0, out) a = (of_char a mod 4, 2, out @ [b64 (of_char a div 4)])"
proof -
  have "n div 4 mod 64 = n div 4" if "n < 256" for n :: nat using that by (simp add: div_less_iff_less_mult)
  from this [OF of_char_nat_less] show ?thesis by (simp add: octet_or [of 0, simplified] emit_ge emit_lt low_bits Let_def)
qed

lemma encode_second:
  assumes "x < 4"
  shows "encode_step (x, 2, out) b = (of_char b mod 16, 4, out @ [b64 (x * 16 + of_char b div 16)])"
proof -
  have "(x * 256 + n) mod 16 = n mod 16" "(x * 256 + n) div 16 mod 64 = x * 16 + n div 16" if "n < 256" for n :: nat
    using assms less_mult_imp_div_less [of n 16 16] that by (simp_all add: blocks)
  from this [OF of_char_nat_less] assms show ?thesis by (simp add: octet_or emit_ge emit_lt low_bits Let_def)
qed

lemma encode_third:
  assumes "x < 16"
  shows "encode_step (x, 4, out) c = (0, 0, out @ [b64 (x * 4 + of_char c div 64), b64 (of_char c mod 64)])"
proof -
  have "(x * 256 + n) div 64 mod 64 = x * 4 + n div 64" "(x * 256 + n) mod 64 = n mod 64" if "n < 256" for n :: nat
    using assms less_mult_imp_div_less [of n 4 64] that by (simp_all add: blocks)
  from this [OF of_char_nat_less] assms show ?thesis by (simp add: octet_or emit_ge emit_lt low_bits Let_def)
qed

lemma decode_first: "s < 64 \<Longrightarrow> decode_step (0, 0, out) (b64 s) = (s, 6, out)"
  using sextet_or [of 0 s] by (simp add: alphabet_decodes kInvalid_def low_bits)

lemma decode_second:
  assumes "x < 64" "s < 64"
  shows "decode_step (x, 6, out) (b64 s) = (s mod 16, 4, out @ [char_of (x * 4 + s div 16)])"
proof -
  have "(x * 64 + s) mod 16 = s mod 16" "(x * 64 + s) div 16 mod 256 = x * 4 + s div 16"
    using assms less_mult_imp_div_less [of s 4 16] by (simp_all add: blocks)
  with assms show ?thesis by (simp add: sextet_or alphabet_decodes kInvalid_def low_bits drop_bit_eq_div Let_def)
qed

lemma decode_third:
  assumes "x < 16" "s < 64"
  shows "decode_step (x, 4, out) (b64 s) = (s mod 4, 2, out @ [char_of (x * 16 + s div 4)])"
proof -
  have "(x * 64 + s) mod 4 = s mod 4" "(x * 64 + s) div 4 mod 256 = x * 16 + s div 4"
    using assms less_mult_imp_div_less [of s 16 4] by (simp_all add: blocks)
  with assms show ?thesis by (simp add: sextet_or alphabet_decodes kInvalid_def low_bits drop_bit_eq_div Let_def)
qed

lemma decode_fourth:
  assumes "x < 4" "s < 64"
  shows "decode_step (x, 2, out) (b64 s) = (0, 0, out @ [char_of (x * 64 + s)])"
proof -
  have "(x * 64 + s) mod 256 = x * 64 + s" using assms by simp
  with assms show ?thesis by (simp add: sextet_or alphabet_decodes kInvalid_def low_bits drop_bit_eq_div Let_def)
qed

lemmas b64_steps = encode_first encode_second encode_third decode_first decode_second decode_third decode_fourth padding_skipped

declare encode_step.simps [simp del] decode_step.simps [simp del]

lemma pad4_eq: "pad4 out = out @ replicate ((4 - length out mod 4) mod 4) CHR ''=''"
proof (induction out rule: pad4.induct)
  case (1 out)
  have "length out mod 4 < 4" by simp
  then have "length out mod 4 = 0 \<or> length out mod 4 = 1 \<or> length out mod 4 = 2 \<or> length out mod 4 = 3" by linarith
  with 1 show ?case
    by (subst pad4.simps) (elim disjE; simp add: mod_Suc numeral_2_eq_2 numeral_3_eq_3)
qed

lemma encode_groups:
  "length out mod 4 = 0 \<Longrightarrow>
   (case foldl encode_step (0, 0, out) bytes of (acc, bits, o1) \<Rightarrow>
      pad4 (if bits > 0 then o1 @ [kAlphabet ! (u32 (push_bit (6 - bits) acc) AND 63)] else o1)) = out @ rfc4648 bytes"
proof (induction bytes arbitrary: out rule: rfc4648.induct)
  case (2 a)
  have "of_char a mod 4 * 16 < (64 :: nat)" using mod_less_divisor [of 4 "of_char a"] by linarith
  moreover have "replicate 2 CHR ''='' = ''==''" by (simp add: numeral_2_eq_2)
  ultimately show ?case
    using 2 by (simp add: b64_steps u32_small push_bit_eq_mult low_bits pad4_eq mod_Suc b64_def)
next
  case (3 a b)
  have "of_char b mod 16 * 4 < (64 :: nat)" using mod_less_divisor [of 16 "of_char b"] by linarith
  with 3 show ?case
    by (simp add: b64_steps u32_small push_bit_eq_mult low_bits pad4_eq mod_Suc b64_def)
next
  case (4 a b c rest)
  then show ?case by (simp add: b64_steps mod_Suc)
qed (simp add: pad4_eq)

lemma b64_bounds:
  "n div 4 < 64" "n mod 4 * 16 < 64" "n mod 16 * 4 < 64" "n mod 64 < 64" "n mod 4 * 16 + m div 16 < 64" "n mod 16 * 4 + m div 64 < 64"
  if "n < 256" "m < 256" for n m :: nat
  using that less_mult_imp_div_less [of m 16 16] less_mult_imp_div_less [of m 4 64] less_mult_imp_div_less [of n 64 4]
    mod_less_divisor [of 4 n] mod_less_divisor [of 16 n]
  by auto

lemma b64_octets:
  "n div 4 * 4 + (n mod 4 * 16 + m div 16) div 16 = n" "(n mod 4 * 16 + m div 16) mod 16 * 16 + (m mod 16 * 4 + k div 64) div 4 = m"
  "(m mod 16 * 4 + k div 64) mod 4 * 64 + k mod 64 = k" "n div 4 * 4 + (n mod 4 * 16) div 16 = n"
  "(n mod 4 * 16 + m div 16) mod 16 * 16 + (m mod 16 * 4) div 4 = m"
  if "n < 256" "m < 256" "k < 256" for n m k :: nat
  using that less_mult_imp_div_less [of m 16 16] less_mult_imp_div_less [of k 4 64]
  by (simp_all add: div_mult_mod_eq)

lemma decode_groups: "snd (snd (foldl decode_step (0, 0, out) (rfc4648 bytes))) = out @ bytes"
proof (induction bytes arbitrary: out rule: rfc4648.induct)
  case (2 a)
  show ?case using of_char_nat_less [of a]
    by (simp add: b64_steps b64_bounds [of _ 0, simplified] b64_octets [of _ 0 0, simplified])
next
  case (3 a b)
  show ?case
    using of_char_nat_less [of a] of_char_nat_less [of b] 
    by (simp add: b64_steps b64_bounds [of "of_char a" "of_char b"] b64_bounds [of "of_char b" 0, simplified]
        b64_octets [of "of_char a" "of_char b" 0, simplified])
next
  case (4 a b c rest)
  then show ?case
    using of_char_nat_less [of a] of_char_nat_less [of b] of_char_nat_less [of c]
      less_mult_imp_div_less [of "of_char b" 16 16] less_mult_imp_div_less [of "of_char c" 4 64]
    by (simp add: b64_steps b64_bounds [of "of_char a" "of_char b"] b64_bounds [of "of_char b" "of_char c"]
        b64_bounds [of "of_char c" 0, simplified] b64_octets [of "of_char a" "of_char b" "of_char c"])
qed simp

text \<open>C38. Base 64 text is the encoding of RFC 4648, padded, and decoding gives back every octet.\<close>

theorem base64_rfc4648:
  "Base64Encode bytes = rfc4648 bytes \<and> Base64Decode (Base64Encode bytes) = bytes"
proof -
  have "Base64Encode bytes = rfc4648 bytes" using encode_groups [of "[]" bytes] by (simp add: Base64Encode_def)
  then show ?thesis using decode_groups [of "[]" bytes] by (simp add: Base64Decode_def)
qed

section \<open>Lines of the input\<close>

text \<open>The bytes still to come, and the next line of them.\<close>

definition input_bytes :: "line_reader \<Rightarrow> string" where
  "input_bytes input = lr_pending input @ concat (lr_reads input)"

definition no_empty_read :: "line_reader \<Rightarrow> bool" where
  "no_empty_read input \<longleftrightarrow> [] \<notin> set (lr_reads input)"

abbreviation upto_newline :: "string \<Rightarrow> string" where
  "upto_newline s \<equiv> takeWhile (\<lambda>c. c \<noteq> newline) s"

abbreviation after_newline :: "string \<Rightarrow> string" where
  "after_newline s \<equiv> drop (Suc (length (upto_newline s))) s"

lemma upto_newline_less: "newline \<in> set buf \<Longrightarrow> length (upto_newline buf) < length buf"
  by (induction buf) auto

lemma upto_newline_first: "newline \<in> set buf \<Longrightarrow> upto_newline (buf @ x) = upto_newline buf"
  by (induction buf) auto

lemma upto_newline_none: "newline \<notin> set buf \<Longrightarrow> upto_newline (buf @ x) = buf @ upto_newline x"
  by (induction buf) auto

lemma next_line_bytes:
  "\<lbrakk>next_line line buf rs = (ok, l, r); [] \<notin> set rs; s = buf @ concat rs\<rbrakk> \<Longrightarrow>
     ok = (line @ s \<noteq> []) \<and> l = line @ upto_newline s
     \<and> input_bytes r = after_newline s \<and> no_empty_read r"
proof (induction line buf rs arbitrary: s rule: next_line.induct)
  case (1 line buf rs)
  show ?case
  proof (cases "str_find buf [newline] 0")
    case (Some nl)
    then have n: "newline \<in> set buf" "nl = length (upto_newline buf)" by (auto simp: str_find_char split: if_splits)
    have r: "ok" "l = line @ take nl buf" "r = \<lparr>lr_pending = drop (Suc nl) buf, lr_reads = rs\<rparr>"
      using "1.prems"(1) Some by (simp_all add: next_line.simps [of line])
    have u: "upto_newline s = take nl buf" "length (take nl buf) = nl"
      using upto_newline_less [OF n(1)]
      by (simp_all only: n(2) "1.prems"(3) upto_newline_first [OF n(1)] takeWhile_eq_take [symmetric])
    have "s \<noteq> []" using n(1) "1.prems"(3) by auto
    moreover have "input_bytes r = drop (Suc nl) s"
      using upto_newline_less [OF n(1)] by (simp add: r(3) input_bytes_def "1.prems"(3) n(2))
    moreover have "no_empty_read r" using "1.prems"(2) by (simp add: r(3) no_empty_read_def)
    ultimately show ?thesis using r(1,2) u by simp
  next
    case None
    then have n: "newline \<notin> set buf" by (auto simp: str_find_char split: if_splits)
    have t: "upto_newline (buf @ x) = buf @ upto_newline x" for x using n by (simp add: upto_newline_none)
    show ?thesis
    proof (cases rs)
      case Nil
      have "next_line line buf rs = (line @ buf \<noteq> [], line @ buf, \<lparr>lr_pending = [], lr_reads = []\<rparr>)"
        unfolding Nil next_line.simps [of line] by (simp add: None)
      from "1.prems"(1) [symmetric, unfolded this] have r: "ok = (line @ buf \<noteq> [])" "l = line @ buf" "r = \<lparr>lr_pending = [], lr_reads = []\<rparr>" by simp_all
      have s: "s = buf" and u: "upto_newline buf = buf" using "1.prems"(3) Nil t [of "[]"] by simp_all
      show ?thesis unfolding r s u by (simp add: input_bytes_def no_empty_read_def)
    next
      case (Cons got rest)
      with "1.prems"(2) have g: "got \<noteq> []" "[] \<notin> set rest" by auto
      have "next_line line buf rs = next_line (line @ buf) got rest"
        unfolding Cons next_line.simps [of line] by (simp add: None g(1))
      with "1.prems"(1) have "next_line (line @ buf) got rest = (ok, l, r)" by simp
      note ih = "1.IH" [OF None Cons g(1) this g(2) refl]
      have "s = buf @ got @ concat rest" using "1.prems"(3) Cons by simp
      with ih t [of "got @ concat rest"] show ?thesis by simp
    qed
  qed
qed

lemma Next_bytes:
  assumes "LineReader_Next input = (ok, l, r)" "no_empty_read input" and s: "s = input_bytes input"
  shows "ok = (s \<noteq> [])" "l = upto_newline s" "input_bytes r = after_newline s" "no_empty_read r"
  using next_line_bytes [of "[]" "lr_pending input" "lr_reads input" ok l r s] assms
  by (auto simp: LineReader_Next_def input_bytes_def no_empty_read_def)

text \<open>Two inputs with the same bytes are the same to the program.\<close>

definition same_input :: "line_reader \<Rightarrow> line_reader \<Rightarrow> bool" where
  "same_input i j \<longleftrightarrow> input_bytes i = input_bytes j \<and> no_empty_read i \<and> no_empty_read j"

lemma same_input_Next:
  assumes "same_input i j" "LineReader_Next i = (ok, l, i1)"
  obtains j1 where "LineReader_Next j = (ok, l, j1)" "same_input i1 j1"
proof -
  obtain ok' l' j1 where j: "LineReader_Next j = (ok', l', j1)" by (cases "LineReader_Next j") auto
  have "ok' = ok" "l' = l" "same_input i1 j1"
    using Next_bytes [OF assms(2) _ refl] Next_bytes [OF j _ refl] assms(1) by (auto simp: same_input_def)
  with j that show thesis by simp
qed

lemma same_input_body:
  "same_input i j \<Longrightarrow> fst (body_line i) = fst (body_line j) \<and> same_input (snd (body_line i)) (snd (body_line j))"
proof (induction i arbitrary: j rule: body_line.induct)
  case (1 i)
  obtain ok l i1 where i: "LineReader_Next i = (ok, l, i1)" by (cases "LineReader_Next i") auto
  from same_input_Next [OF "1.prems" i] obtain j1 where j: "LineReader_Next j = (ok, l, j1)" "same_input i1 j1" .
  show ?case
  proof (cases "ok \<and> l = []")
    case True
    from "1.IH" [OF i [symmetric] refl True j(2)] show ?thesis
      by (simp add: body_line.simps [of i] body_line.simps [of j] i j(1) True)
  next
    case False
    with j(2) show ?thesis by (auto simp: body_line.simps [of i] body_line.simps [of j] i j(1))
  qed
qed

lemma same_input_put:
  assumes "same_input i j"
  shows "snd (HandlePut h session i n action line w) = snd (HandlePut h session j n action line w)
    \<and> same_input (fst (HandlePut h session i n action line w)) (fst (HandlePut h session j n action line w))"
proof -
  obtain l i1 j1 where "body_line i = (l, i1)" "body_line j = (l, j1)" "same_input i1 j1"
    using same_input_body [OF assms] by (cases "body_line i"; cases "body_line j") simp
  with assms show ?thesis by (simp add: HandlePut_def Let_def)
qed

lemma same_input_request:
  assumes "same_input i j"
  shows "snd (go_request h session line i w) = snd (go_request h session line j w)"
    "same_input (fst (go_request h session line i w)) (fst (go_request h session line j w))"
  using assms same_input_put [OF assms] by (simp_all add: go_request_def Let_def)

lemma go_loop_same_input: "same_input i j \<Longrightarrow> go_loop h session i w = go_loop h session j w"
proof (induction h session i w arbitrary: j rule: go_loop.induct)
  case (1 h session i w)
  obtain ok l i1 where i: "LineReader_Next i = (ok, l, i1)" by (cases "LineReader_Next i") auto
  from same_input_Next [OF "1.prems" i] obtain j1 where j: "LineReader_Next j = (ok, l, j1)" "same_input i1 j1" .
  obtain i2 w2 where g: "go_request h session l i1 w = (i2, w2)" by fastforce
  obtain j2 where g': "go_request h session l j1 w = (j2, w2)" and s2: "same_input i2 j2"
    using same_input_request [OF j(2), of h session l w] g by (cases "go_request h session l j1 w") auto
  note ih = "1.IH"(1) [OF i [symmetric] refl _ _ j(2)] "1.IH"(2) [OF i [symmetric] refl _ _ _ g [symmetric] s2]
  show ?case
    by (subst (1 2) go_loop.simps) (simp add: i j(1) g g' ih)
qed

text \<open>How the bytes of the Go tool arrive, in pieces of any length, makes no difference: every answer, every
  file written and every request to the daemon is the same as when all of the input is there at once.\<close>

lemma go_cache_any_chunking:
  assumes "concat reads1 = concat reads2" "[] \<notin> set reads1" "[] \<notin> set reads2"
  shows "RunGoCacheProg h socket_path \<lparr>lr_pending = [], lr_reads = reads1\<rparr> w =
    RunGoCacheProg h socket_path \<lparr>lr_pending = [], lr_reads = reads2\<rparr> w"
proof -
  have "same_input \<lparr>lr_pending = [], lr_reads = reads1\<rparr> \<lparr>lr_pending = [], lr_reads = reads2\<rparr>"
    using assms by (simp add: same_input_def input_bytes_def no_empty_read_def)
  from go_loop_same_input [OF this] show ?thesis by (simp add: RunGoCacheProg_def Let_def)
qed

theorem go_cache_any_chunking_witness:
  "RunGoCacheProg example_host ''s'' \<lparr>lr_pending = [], lr_reads = [''ab'', ''c'' @ [newline]]\<rparr> (example_world offline) =
   RunGoCacheProg example_host ''s'' \<lparr>lr_pending = [], lr_reads = [''abc'', [newline]]\<rparr> (example_world offline)"
  by (rule go_cache_any_chunking) simp_all

section \<open>Bodies arrive whole\<close>

definition b64_letters :: "char set" where "b64_letters = insert CHR ''='' (b64 ` {..<64})"

lemma b64_in_letters: "i < 64 \<Longrightarrow> b64 i \<in> b64_letters"
  by (simp add: b64_letters_def)

lemma letters_plain: "dquote \<notin> b64_letters" "newline \<notin> b64_letters"
proof -
  have "list_all (\<lambda>i. b64 i \<noteq> dquote \<and> b64 i \<noteq> newline) [0..<64]" by code_simp
  then show "dquote \<notin> b64_letters" "newline \<notin> b64_letters" by (auto simp: list_all_iff b64_letters_def)
qed

lemma rfc4648_letters: "set (rfc4648 bytes) \<subseteq> b64_letters"
proof (induction bytes rule: rfc4648.induct)
  case (2 a)
  show ?case
    using of_char_nat_less [of a] by (simp add: b64_in_letters b64_bounds [of _ 0, simplified]) (simp add: b64_letters_def)
next
  case (3 a b)
  show ?case
    using of_char_nat_less [of a] of_char_nat_less [of b]
    by (simp add: b64_in_letters b64_bounds [of "of_char a" "of_char b"] b64_bounds [of "of_char b" 0, simplified])
       (simp add: b64_letters_def)
next
  case (4 a b c rest)
  then show ?case
    using of_char_nat_less [of a] of_char_nat_less [of b] of_char_nat_less [of c]
    by (simp add: b64_in_letters b64_bounds [of "of_char a" "of_char b"] b64_bounds [of "of_char b" "of_char c"]
        b64_bounds [of "of_char c" 0, simplified])
qed simp

text \<open>A body on the wire is its base 64 text as a JSON string.\<close>

definition wire_body :: "string \<Rightarrow> string" where
  "wire_body body = [dquote] @ rfc4648 body @ [dquote]"

lemma wire_body_plain: "newline \<notin> set (wire_body body)"
  using rfc4648_letters [of body] letters_plain by (auto simp: wire_body_def)

lemma put_wire_body: "put_body (wire_body body) = body"
  using decode_groups [of "[]" body] by (simp add: put_body_def wire_body_def Base64Decode_def)

lemma put_torn_body: "k < length (wire_body body) \<Longrightarrow> put_body (take k (wire_body body)) = []"
proof (cases "2 \<le> k")
  case True
  assume k: "k < length (wire_body body)"
  define t where "t = take (k - 1) (rfc4648 body)"
  have t: "take k (wire_body body) = dquote # t" using k True by (cases k) (auto simp: wire_body_def t_def)
  have "t \<noteq> []" using k True by (auto simp: t_def wire_body_def)
  moreover have "set t \<subseteq> b64_letters" using rfc4648_letters [of body] set_take_subset [of "k - 1" "rfc4648 body"] by (auto simp: t_def)
  ultimately have "last t \<noteq> dquote" using letters_plain by (metis last_in_set subsetD)
  with \<open>t \<noteq> []\<close> show ?thesis by (simp add: put_body_def t)
qed (simp add: put_body_def)

lemma body_line_bytes:
  assumes "no_empty_read input" "input_bytes input = replicate n newline @ line @ rest" "newline \<notin> set line" "line \<noteq> []"
    "rest = [] \<or> hd rest = newline"
  shows "fst (body_line input) = line"
  using assms
proof (induction n arbitrary: input)
  case 0
  obtain ok l r where n: "LineReader_Next input = (ok, l, r)" by (cases "LineReader_Next input") auto
  have "upto_newline (line @ rest) = line" using 0 by (cases rest) (auto simp: upto_newline_none)
  with Next_bytes [OF n 0(1) refl] 0 have "l = line" by simp
  with 0 n show ?case by (simp add: body_line.simps [of input])
next
  case (Suc n)
  obtain ok l r where x: "LineReader_Next input = (ok, l, r)" by (cases "LineReader_Next input") auto
  from Next_bytes [OF x Suc.prems(1) refl] Suc.prems(2) have "ok" "l = []" "input_bytes r = replicate n newline @ line @ rest"
    "no_empty_read r" by simp_all
  with Suc x show ?case by (simp add: body_line.simps [of input])
qed

text \<open>C25. A body the Go tool sends is stored whole or not at all.  When its base 64 line is there, after any
  number of blank lines, exactly the body that was sent is written and put under the output and action
  keys; when the input ends anywhere inside the line, nothing is written or stored and the answer
  is an error.\<close>

theorem go_put_whole_bodies:
  assumes "no_empty_read input" "JsonInt req ''BodySize'' = int (length body)" "body \<noteq> []"
  shows "((\<exists>n rest. input_bytes input = replicate n newline @ wire_body body @ newline # rest) \<longrightarrow>
      snd (HandlePut h session input i action req w) =
        store_body h session i action (Base64Decode (JsonField req ''OutputID'')) body w)
    \<and> ((\<exists>n k. 0 < k \<and> k < length (wire_body body) \<and> input_bytes input = replicate n newline @ take k (wire_body body)) \<longrightarrow>
      snd (HandlePut h session input i action req w) = println_out (torn_line i 0 (int (length body))) w)"
proof (intro conjI impI)
  have pos: "int (length body) > 0" using assms(3) by simp
  have ne: "wire_body body \<noteq> []" by (simp add: wire_body_def)
  show "snd (HandlePut h session input i action req w) =
      store_body h session i action (Base64Decode (JsonField req ''OutputID'')) body w"
    if "\<exists>n rest. input_bytes input = replicate n newline @ wire_body body @ newline # rest"
  proof -
    from that have "fst (body_line input) = wire_body body"
      using body_line_bytes [OF assms(1) _ wire_body_plain ne] by auto
    with pos assms(2) show ?thesis by (cases "body_line input") (simp add: HandlePut_def Let_def put_wire_body)
  qed
  show "snd (HandlePut h session input i action req w) = println_out (torn_line i 0 (int (length body))) w"
    if "\<exists>n k. 0 < k \<and> k < length (wire_body body) \<and> input_bytes input = replicate n newline @ take k (wire_body body)"
  proof -
    from that obtain n k where k: "0 < k" "k < length (wire_body body)"
      "input_bytes input = replicate n newline @ take k (wire_body body) @ []" by auto
    have "newline \<notin> set (take k (wire_body body))" using wire_body_plain by (meson in_set_takeD)
    moreover have "take k (wire_body body) \<noteq> []" using k(1) ne by simp
    ultimately have "fst (body_line input) = take k (wire_body body)"
      using body_line_bytes [OF assms(1) k(3)] by simp
    with pos assms(2) k(2) show ?thesis
      by (cases "body_line input") (simp add: HandlePut_def Let_def put_torn_body)
  qed
qed

definition example_put :: string where
  "example_put = ''{'' @ json_name ''ID'' @ ''7,'' @ json_name ''BodySize'' @ ''3}''"

theorem go_put_whole_bodies_witness:
  "snd (HandlePut example_host \<lparr>go_live = False, go_dir = ''/g''\<rparr> \<lparr>lr_pending = [], lr_reads = [[newline], dquote # ''YW'']\<rparr> 7 ''aa''
      example_put (example_world offline))
     = println_out (torn_line 7 0 3) (example_world offline)"
proof -
  let ?input = "\<lparr>lr_pending = [], lr_reads = [[newline], dquote # ''YW'']\<rparr>"
  have n: "no_empty_read ?input" by (simp add: no_empty_read_def)
  have s: "JsonField example_put ''BodySize'' = ''3''" by code_simp
  have "to_decimal 3 = ''3''" by code_simp
  then have p: "ParseUint ''3'' 10 = Some 3" using ParseUint_to_decimal [of 3] by simp
  have "JsonInt example_put ''BodySize'' = int (length ''abc'')" by (simp add: JsonInt_def s p to_int64_def)
  note th = go_put_whole_bodies [OF n this, THEN conjunct2]
  have "wire_body ''abc'' = dquote # ''YWJj'' @ [dquote]" by code_simp
  then have "\<exists>n k. 0 < k \<and> k < length (wire_body ''abc'') \<and> input_bytes ?input = replicate n newline @ take k (wire_body ''abc'')"
    by (intro exI [of _ 1] exI [of _ 3]) (simp add: input_bytes_def)
  with th show ?thesis by simp
qed

end
