(* ===== verification/Rustc_Mode.thy ===== *)
theory Rustc_Mode
  imports Cc_Cache
begin

text \<open>
  The cached run of rustc, \<^verbatim>\<open>pkgs/ji/jig/src/rustc_mode.{h,cc}\<close>.  The indices into the argument list
  are the rest of the list.  Beyond the \<open>host\<close> of the other modes the code asks the file system for
  permission bits, for the names in a directory (none on an error) and for a weakly canonical path; these
  are the record \<open>rust_host\<close>.  The permission bits the code sets are returned as the list of calls.
\<close>

unbundle bit_operations_syntax

section \<open>Model\<close>

record rust_host =
  r_host :: host
  r_perms :: "disk \<Rightarrow> string \<Rightarrow> nat"
  r_names :: "string \<Rightarrow> string list"
  r_weakly_canonical :: "string \<Rightarrow> string"

definition kPermissionBits :: nat where "kPermissionBits = 511"

definition kTwoTokenOptions :: "string list" where
  "kTwoTokenOptions =
     [''-C'', ''--cfg'', ''--check-cfg'', ''--cap-lints'', ''--edition'', ''--target'', ''--crate-type'', ''-Z'', ''-W'', ''-A'',
      ''-D'', ''-F'', ''--error-format'', ''--json'', ''--diagnostic-width'', ''--remap-path-prefix'', ''-l'']"

record rust_invocation =
  ri_args :: "string list"
  ri_key_args :: "string list"
  ri_externs :: "string list"
  ri_source :: string
  ri_crate_name :: string
  ri_out_dir :: string
  ri_sysroot :: string
  ri_extra_filename :: string
  ri_links :: bool
  ri_has_crate_type :: bool
  ri_cacheable :: bool
  ri_query :: bool
  ri_has_dep_info :: bool

record dep_info =
  di_outputs :: "string list"
  di_inputs :: "string list"

text \<open>\<^verbatim>\<open>fs::absolute(p).lexically_normal()\<close>.\<close>

definition absolute_normal :: "string \<Rightarrow> string \<Rightarrow> string" where
  "absolute_normal cwd p = lexically_normal (path_append cwd p)"

definition dep_info_line :: "string \<Rightarrow> dep_info \<Rightarrow> string \<Rightarrow> dep_info" where
  "dep_info_line cwd info line =
     (if starts_with line ''#'' then info
      else case str_find line '': '' 0 of
        None \<Rightarrow> info
      | Some colon \<Rightarrow>
          \<lparr>di_outputs = di_outputs info @ [take colon line],
           di_inputs = (if di_inputs info = [] then map (absolute_normal cwd) (ParseDepfile line) else di_inputs info)\<rparr>)"

definition ParseDepInfo :: "string \<Rightarrow> string \<Rightarrow> dep_info" where
  "ParseDepInfo cwd str = foldl (dep_info_line cwd) \<lparr>di_outputs = [], di_inputs = []\<rparr> (Split str newline False)"

definition pack_head :: "string \<Rightarrow> nat \<Rightarrow> nat \<Rightarrow> string" where
  "pack_head name mode len = name @ '' '' @ to_base 8 mode @ '' '' @ to_decimal len @ [newline]"

definition PackFiles :: "(string \<Rightarrow> nat) \<Rightarrow> disk \<Rightarrow> string list \<Rightarrow> string \<Rightarrow> string" where
  "PackFiles perms d paths stem =
     foldl (\<lambda>blob path.
        case d path of
          None \<Rightarrow> blob
        | Some data \<Rightarrow>
            blob @ pack_head (ReplaceAll (path_filename path) stem ''@'')
                     (perms path AND kPermissionBits) (length data) @ data) [] paths"

type_synonym chmods = "(string \<times> nat) list"

text \<open>The head line, bytes and rest of a blob, when its first artifact can be read.\<close>

definition next_artifact :: "string \<Rightarrow> (string \<times> nat \<times> string \<times> string) option" where
  "next_artifact blob =
     (case str_find blob [newline] 0 of
        None \<Rightarrow> None
      | Some nl \<Rightarrow>
          (let head = Split (take nl blob) CHR '' '' False in
           if length head \<noteq> 3 then None
           else case (ParseUint (head ! 1) 8, ParseUint (head ! 2) 10) of
             (Some mode, Some len) \<Rightarrow>
               (if len > length blob - (nl + 1) then None
                else Some (head ! 0, mode, take len (drop (nl + 1) blob), drop (nl + 1 + len) blob))
           | _ \<Rightarrow> None))"

lemma next_artifact_shorter: "next_artifact blob = Some (name, mode, data, rest) \<Longrightarrow> blob \<noteq> [] \<Longrightarrow> length rest < length blob"
  by (auto simp: next_artifact_def Let_def split: option.splits if_splits)

function UnpackFiles :: "host \<Rightarrow> string \<Rightarrow> string \<Rightarrow> string \<Rightarrow> chmods \<Rightarrow> world \<Rightarrow> bool \<times> chmods \<times> world" where
  "UnpackFiles h blob dir stem cm w =
     (if blob = [] then (True, cm, w)
      else case next_artifact blob of
        None \<Rightarrow> (False, cm, w)
      | Some (name, mode, data, rest) \<Rightarrow>
          (let out = path_append dir (ReplaceAll name ''@'' stem) in
           case write_to h out data w of
             (False, w1) \<Rightarrow> (False, cm, w1)
           | (True, w1) \<Rightarrow> UnpackFiles h rest dir stem (cm @ [(out, mode)]) w1))"
  by pat_completeness auto
termination
  by (relation "measure (\<lambda>(h, blob, dir, stem, cm, w). length blob)") (auto dest: next_artifact_shorter)

declare UnpackFiles.simps [simp del]

text \<open>\<^verbatim>\<open>--flag value\<close> or \<^verbatim>\<open>--flag=value\<close> at the head of the arguments: the value and the rest.\<close>

fun take_option :: "string \<Rightarrow> string list \<Rightarrow> (string \<times> string list) option" where
  "take_option flag [] = None"
| "take_option flag (arg # rest) =
     (if arg = flag \<and> rest \<noteq> [] then Some (hd rest, tl rest)
      else if length arg > length flag \<and> starts_with arg flag \<and> arg ! length flag = CHR ''=''
      then Some (drop (length flag + 1) arg, rest)
      else None)"

definition TakeNamedOption :: "string list \<Rightarrow> rust_invocation \<Rightarrow> (string list \<times> rust_invocation) option" where
  "TakeNamedOption args iv =
     (case take_option ''--out-dir'' args of
        Some (value, rest) \<Rightarrow> Some (rest, iv\<lparr>ri_out_dir := value\<rparr>)
      | None \<Rightarrow>
     (case take_option ''--sysroot'' args of
        Some (value, rest) \<Rightarrow>
          Some (rest, iv\<lparr>ri_key_args := ri_key_args iv @ [''--sysroot='' @ value], ri_sysroot := value\<rparr>)
      | None \<Rightarrow>
     (case take_option ''--crate-name'' args of
        Some (value, rest) \<Rightarrow>
          Some (rest, iv\<lparr>ri_key_args := ri_key_args iv @ [''--crate-name='' @ value], ri_crate_name := value\<rparr>)
      | None \<Rightarrow>
     (case take_option ''--extern'' args of
        Some (value, rest) \<Rightarrow>
          Some (rest, iv\<lparr>ri_externs := ri_externs iv
                           @ (case str_find value ''='' 0 of None \<Rightarrow> [] | Some equals \<Rightarrow> [drop (equals + 1) value]),
                         ri_key_args := ri_key_args iv @ [''--extern='' @ value]\<rparr>)
      | None \<Rightarrow>
     (case take_option ''--emit'' args of
        Some (value, rest) \<Rightarrow>
          Some (rest, iv\<lparr>ri_has_dep_info := (ri_has_dep_info iv \<or> str_contains value ''dep-info''),
                         ri_key_args := ri_key_args iv @ [''--emit='' @ value]\<rparr>)
      | None \<Rightarrow>
     (case take_option ''-L'' args of
        Some (value, rest) \<Rightarrow> Some (rest, iv)
      | None \<Rightarrow> None))))))"

definition codegen_word :: "string \<Rightarrow> string list \<Rightarrow> string \<times> string list" where
  "codegen_word arg rest =
     (if arg \<in> set kTwoTokenOptions \<and> rest \<noteq> [] then (arg @ ''='' @ hd rest, tl rest)
      else if starts_with arg ''-C'' \<and> \<not> starts_with arg ''-C='' then (take 2 arg @ ''='' @ drop 2 arg, rest)
      else (arg, rest))"

definition linking_crate_types :: "string list" where
  "linking_crate_types = [''--crate-type=bin'', ''--crate-type=proc-macro'', ''--crate-type=cdylib'', ''--crate-type=dylib'']"

definition TakeCodegenOption :: "string \<Rightarrow> string list \<Rightarrow> rust_invocation \<Rightarrow> string list \<times> rust_invocation" where
  "TakeCodegenOption arg args iv =
     (case codegen_word arg args of (full, rest) \<Rightarrow>
        (rest,
         if starts_with full ''-C=incremental='' then iv\<lparr>ri_cacheable := False\<rparr>
         else if starts_with full ''-C=extra-filename=''
         then iv\<lparr>ri_extra_filename := drop (length ''-C=extra-filename='') full\<rparr>
         else if \<not> starts_with full ''-C=metadata=''
         then iv\<lparr>ri_links := (ri_links iv \<or> full \<in> set linking_crate_types),
                 ri_has_crate_type := (ri_has_crate_type iv \<or> starts_with full ''--crate-type=''),
                 ri_key_args := ri_key_args iv @ [full]\<rparr>
         else iv))"

definition is_query_arg :: "string \<Rightarrow> bool" where
  "is_query_arg arg \<longleftrightarrow> arg = ''--print'' \<or> starts_with arg ''--print='' \<or> arg = ''-'' \<or> arg = ''-vV'' \<or> arg = ''--version''"

lemma take_option_shorter: "take_option flag args = Some (v, rest) \<Longrightarrow> length rest < length args"
  by (cases args) (auto split: if_splits)

lemma TakeNamedOption_shorter: "TakeNamedOption args iv = Some (rest, iv') \<Longrightarrow> length rest < length args"
  by (auto simp: TakeNamedOption_def dest: take_option_shorter split: option.splits)

lemma TakeCodegenOption_shorter: "TakeCodegenOption arg args iv = (rest, iv') \<Longrightarrow> length rest \<le> length args"
  by (auto simp: TakeCodegenOption_def codegen_word_def split: if_splits)

function rust_loop :: "string list \<Rightarrow> rust_invocation \<Rightarrow> nat \<Rightarrow> rust_invocation \<times> nat" where
  "rust_loop args iv sources =
     (case args of
        [] \<Rightarrow> (iv, sources)
      | arg # rest \<Rightarrow>
          (case TakeNamedOption args iv of
             Some (rest1, iv1) \<Rightarrow> rust_loop rest1 iv1 sources
           | None \<Rightarrow>
               if is_query_arg arg then rust_loop rest (iv\<lparr>ri_query := True\<rparr>) sources
               else if arg = ''-o'' then rust_loop rest (iv\<lparr>ri_cacheable := False\<rparr>) sources
               else if \<not> starts_with arg ''-'' \<and> ends_with arg ''.rs''
               then rust_loop rest (iv\<lparr>ri_source := arg\<rparr>) (sources + 1)
               else (case TakeCodegenOption arg rest iv of (rest1, iv1) \<Rightarrow> rust_loop rest1 iv1 sources)))"
  by pat_completeness auto
termination
  by (relation "measure (\<lambda>(args, iv, sources). length args)")
     (auto dest: TakeNamedOption_shorter TakeCodegenOption_shorter [OF sym] simp: less_Suc_eq_le)

declare rust_loop.simps [simp del]

definition new_rust_invocation :: "string list \<Rightarrow> rust_invocation" where
  "new_rust_invocation args =
     \<lparr>ri_args = args, ri_key_args = [], ri_externs = [], ri_source = [], ri_crate_name = [], ri_out_dir = [], ri_sysroot = [],
      ri_extra_filename = [], ri_links = False, ri_has_crate_type = False, ri_cacheable = True, ri_query = False,
      ri_has_dep_info = False\<rparr>"

definition ParseRustInvocation :: "string list \<Rightarrow> rust_invocation" where
  "ParseRustInvocation args =
     (case rust_loop args (new_rust_invocation args) 0 of (iv, sources) \<Rightarrow>
        let iv = iv\<lparr>ri_links := (ri_links iv \<or> \<not> ri_has_crate_type iv)\<rparr> in
        if ri_query iv \<or> ri_links iv \<or> sources \<noteq> 1 \<or> ri_out_dir iv = [] \<or> \<not> ri_has_dep_info iv
        then iv\<lparr>ri_cacheable := False\<rparr> else iv)"

definition RunUncached_rustc :: "host \<Rightarrow> string \<Rightarrow> string \<Rightarrow> rust_invocation \<Rightarrow> bool \<Rightarrow> string \<Rightarrow> world \<Rightarrow> int \<times> world" where
  "RunUncached_rustc h socket_path rustc iv have_source label w =
     (let (slot, w1) = (if ri_source iv \<noteq> [] then Slot h socket_path w else (None, w));
          (run, w2) = Run h rustc (ri_args iv) kInherit w1;
          w3 = Slot_destroy slot w2;
          outcome = (if ri_query iv then kPlainQuery
                     else if \<not> ri_cacheable iv then (if ri_links iv then kPlainLink else kPlainCompile)
                     else if \<not> have_source then kPlainNoSource
                     else kPlainNoSocket)
      in (int (run_status run), LogOutcome ''rustc'' outcome label w3))"

definition stdlib_name :: "string \<Rightarrow> bool" where
  "stdlib_name name \<longleftrightarrow> (starts_with name ''libstd-'' \<or> starts_with name ''libcore-'') \<and> ends_with name ''.rlib''"

definition stdlib_files :: "rust_host \<Rightarrow> string \<Rightarrow> string list" where
  "stdlib_files r root =
     (let rustlib = path_append (path_append root ''lib'') ''rustlib'' in
      concat (map (\<lambda>triple.
        let dir = path_append (path_append rustlib triple) ''lib'' in
        map (\<lambda>name. r_weakly_canonical r (path_append dir name)) (filter stdlib_name (r_names r dir))) (r_names r rustlib)))"

definition StdlibIds :: "rust_host \<Rightarrow> string \<Rightarrow> string \<Rightarrow> world \<Rightarrow> string \<times> world" where
  "StdlibIds r rustc sysroot w =
     (let h = r_host r in
      case h_canonical h (OnPath (w_env w) (h_exists h (w_disk w)) rustc) of
        None \<Rightarrow> (''?'', w)
      | Some real \<Rightarrow>
          (let roots = parent_path (parent_path real) # (if sysroot \<noteq> [] then [sysroot] else []);
               libs = sort (concat (map (stdlib_files r) roots))
           in case PrefetchIdentities libs (w_store w, w_cache w) of (st, c) \<Rightarrow>
                (concat (map (\<lambda>lib. (case InputId (h_b3 h) st (w_disk w) lib of None \<Rightarrow> ''?'' | Some i \<Rightarrow> i) @ '','') libs),
                 w\<lparr>w_store := st, w_cache := c\<rparr>)))"

definition rust_key_vars :: "string list" where
  "rust_key_vars = [''CARGO_PKG_NAME'', ''CARGO_PKG_VERSION'', ''CARGO_CFG_TARGET_FEATURE'', ''RUSTFLAGS'', ''CARGO_ENCODED_RUSTFLAGS'']"

definition rust_key_fields :: "host \<Rightarrow> string \<Rightarrow> rust_invocation \<Rightarrow> string \<Rightarrow> string \<Rightarrow> world \<Rightarrow> string list" where
  "rust_key_fields h tool_id iv stdlib source_bytes w =
     (let st = w_store w in
      [''rs-schema=7'',
       ''rustc='' @ tool_id,
       ''stdlib='' @ stdlib,
       ''cwd='' @ Key st (h_cwd h),
       ''src='' @ Key st (ri_source iv)]
      @ map (Key st) (ri_key_args iv)
      @ map (\<lambda>rlib. ''extern:'' @ (case InputId (h_b3 h) st (w_disk w) rlib of None \<Rightarrow> ''?'' | Some i \<Rightarrow> i)) (ri_externs iv)
      @ map (\<lambda>var. var @ ''='' @ Env (w_env w) var []) rust_key_vars
      @ [source_bytes])"

definition rust_request_key :: "rust_host \<Rightarrow> string \<Rightarrow> rust_invocation \<Rightarrow> string \<Rightarrow> world \<Rightarrow> string \<times> world" where
  "rust_request_key r rustc iv source_bytes w =
     (let h = r_host r;
          tool_id = ToolId (h_canonical h) (w_store w) (OnPath (w_env w) (h_exists h (w_disk w)) rustc) in
      case StdlibIds r rustc (ri_sysroot iv) w of (stdlib, w1) \<Rightarrow>
        (RequestKey kRustc (Hasher_Finish (h_b3 h)
           (hash_fields [] (rust_key_fields h tool_id iv stdlib source_bytes w1))), w1))"

definition find_result :: "host \<Rightarrow> string \<Rightarrow> world \<Rightarrow> (string + string) \<times> world" where
  "find_result h request_key w =
     (case FindResult (h_b3 h) (h_zd h) (w_disk w) (h_exists h (w_disk w)) request_key (w_store w, w_cache w) of
        (found, st, c) \<Rightarrow> (found, w\<lparr>w_store := st, w_cache := c\<rparr>))"

text \<open>The part of \<^verbatim>\<open>RunRustcMode\<close> from the lookup to the return of a hit: whether it was one.\<close>

definition rust_replay :: "host \<Rightarrow> rust_invocation \<Rightarrow> string \<Rightarrow> string + string \<Rightarrow> world \<Rightarrow> bool \<times> chmods \<times> world" where
  "rust_replay h iv label found w =
     (case found of
        Inl why \<Rightarrow> (False, [], w)
      | Inr rk \<Rightarrow>
          (case get_from h (slot_Object rk) w of
             (None, w1) \<Rightarrow> (False, [], w1)
           | (Some blob, w1) \<Rightarrow>
               (case UnpackFiles h blob (ri_out_dir iv) (ri_extra_filename iv) [] w1 of
                  (False, cm, w2) \<Rightarrow> (False, cm, w2)
                | (True, cm, w2) \<Rightarrow>
                    (case get_from h (slot_Stderr rk) w2 of (err, w3) \<Rightarrow>
                       (True, cm, LogOutcome ''rustc'' kHit label (w3\<lparr>w_err := w_err w3 @ value_or_empty err\<rparr>))))))"

definition rust_compile :: "rust_host \<Rightarrow> string \<Rightarrow> rust_invocation \<Rightarrow> string \<Rightarrow> string \<Rightarrow> world \<Rightarrow> int \<times> world" where
  "rust_compile r rustc iv request_key missed w =
     (let h = r_host r;
          (slot, w1) = Slot h [] w;
          (run, w2) = Run h rustc (ri_args iv) kCapture w1;
          w3 = Slot_destroy slot w2;
          w4 = w3\<lparr>w_err := w_err w3 @ stderr_text run\<rparr>
      in if run_status run \<noteq> 0 then (int (run_status run), LogOutcome ''rustc'' kMissFail missed w4)
         else case w_disk w4 (path_append (ri_out_dir iv) (ri_crate_name iv @ ri_extra_filename iv @ ''.d'')) of
           None \<Rightarrow> (0, LogOutcome ''rustc'' kMissUnstored missed w4)
         | Some str \<Rightarrow>
             (let info = ParseDepInfo (h_cwd h) str;
                  d = w_disk w4 in
              case BuildManifest (h_b3 h) d (h_exists h d) request_key (di_inputs info)
                     (absolute_normal (h_cwd h) (ri_source iv)) [] (w_store w4, w_cache w4) of
                (mf, st, c) \<Rightarrow>
                  (let w5 = put_to h (slot_Manifest request_key) (manifest_text mf) (w4\<lparr>w_store := st, w_cache := c\<rparr>);
                       w6 = put_to h (slot_Object (result_key mf))
                              (PackFiles (r_perms r d) d (di_outputs info) (ri_extra_filename iv)) w5;
                       w7 = put_to h (slot_Stderr (result_key mf)) (stderr_text run) w6
                   in (0, LogOutcome ''rustc'' kMissStored missed w7))))"

definition RunRustcMode :: "rust_host \<Rightarrow> string list \<Rightarrow> string \<Rightarrow> world \<Rightarrow> int \<times> chmods \<times> world" where
  "RunRustcMode r args socket_path w =
     (case args of
        [] \<Rightarrow> (1, [], say ''rustcwrap: usage: rustcwrap <rustc> args...'' w)
      | rustc # rest \<Rightarrow>
          (let h = r_host r;
               iv = ParseRustInvocation rest;
               label = (if ri_crate_name iv = [] then ri_source iv else ri_crate_name iv @ ri_extra_filename iv);
               source_bytes = (if ri_cacheable iv then w_disk w (ri_source iv) else None);
               (connected, w1) =
                 (if ri_cacheable iv \<and> source_bytes \<noteq> None then
                    (case h_socket h socket_path of (sock, refused) \<Rightarrow>
                       (case Connect (h_sun_path h) sock refused socket_path (w_cache w) of
                          (ok, c) \<Rightarrow> (ok, w\<lparr>w_cache := c\<rparr>)))
                  else (False, w))
           in if \<not> connected then
                (case RunUncached_rustc h socket_path rustc iv (source_bytes \<noteq> None) label w1 of
                   (status, w2) \<Rightarrow> (status, [], w2))
              else
                (case rust_request_key r rustc iv (the source_bytes) w1 of (request_key, w2) \<Rightarrow>
                   (case find_result h request_key w2 of (found, w3) \<Rightarrow>
                      (case rust_replay h iv label found w3 of
                         (True, cm, w4) \<Rightarrow> (0, cm, w4)
                       | (False, cm, w4) \<Rightarrow>
                           (case rust_compile r rustc iv request_key
                                   (label @ '' '' @ (case found of Inr _ \<Rightarrow> ''object-gone'' | Inl why \<Rightarrow> why)) w4 of
                              (status, w5) \<Rightarrow> (status, cm, w5)))))))"

section \<open>Artifacts under another stem\<close>

text \<open>What storing and restoring make of a file name: the one stem becomes the other.\<close>

definition rename_stem :: "string \<Rightarrow> string \<Rightarrow> string \<Rightarrow> string" where
  "rename_stem stem stem' name = (if stem = [] then name else subst_all stem stem' name)"

lemma subst_at_mark:
  "\<lbrakk>stem \<noteq> []; z \<notin> set u\<rbrakk> \<Longrightarrow> subst_all [z] stem' (subst_all stem [z] u) = subst_all stem stem' u"
proof (induction stem "[z]" u rule: subst_all.induct)
  case (2 stem x s)
  show ?case
  proof (cases "starts_with (x # s) stem")
    case True
    then obtain r where r: "x # s = stem @ r" by (auto simp: starts_with_iff)
    with "2.prems"(2) have "z \<notin> set r" by (metis Un_iff set_append)
    with 2 True r show ?thesis
      using subst_all_hit [of "[z]" stem' "subst_all stem [z] r"] by (simp add: subst_all_hit)
  next
    case False
    moreover have "\<not> starts_with (x # subst_all stem [z] s) [z]" using "2.prems"(2) by (auto simp: starts_with_Cons)
    ultimately show ?thesis using 2 by (simp add: subst_all_miss)
  qed
qed simp

lemma subst_all_absent: "z \<notin> set u \<Longrightarrow> subst_all [z] v u = u"
  by (induction u) (auto simp: subst_all_miss)

lemma restored_name:
  "CHR ''@'' \<notin> set name \<Longrightarrow> ReplaceAll (ReplaceAll name stem ''@'') ''@'' stem' = rename_stem stem stem' name"
  by (simp add: ReplaceAll_def replace_loop_0 rename_stem_def subst_at_mark subst_all_absent)

lemma subst_all_same: "subst_all stem stem u = u"
proof (induction u rule: length_induct)
  case (1 u)
  show ?case
  proof (cases "u \<noteq> [] \<and> stem \<noteq> [] \<and> starts_with u stem")
    case True
    then obtain r where "u = stem @ r" by (auto simp: starts_with_iff)
    with 1 True show ?thesis by (simp add: subst_all_hit)
  next
    case False
    with 1 show ?thesis by (cases u) (auto simp: subst_all.simps(2))
  qed
qed

lemma rename_stem_same [simp]: "rename_stem stem stem name = name"
  by (simp add: rename_stem_def subst_all_same)

lemma set_subst_all: "set (subst_all frm into u) \<subseteq> set into \<union> set u"
proof (induction frm into u rule: subst_all.induct)
  case (2 frm into x s)
  show ?case
  proof (cases "frm \<noteq> [] \<and> starts_with (x # s) frm")
    case True
    then have "subst_all frm into (x # s) = into @ subst_all frm into (drop (length frm) (x # s))"
      by (simp add: subst_all.simps(2))
    with 2(1) [OF True] set_drop_subset [of "length frm" "x # s"] show ?thesis by auto
  next
    case False
    then have "subst_all frm into (x # s) = x # subst_all frm into s"
      by (auto simp: subst_all.simps(2))
    with 2(2) [OF False] show ?thesis by auto
  qed
qed simp

lemma subst_all_nonempty: "into \<noteq> [] \<Longrightarrow> u \<noteq> [] \<Longrightarrow> subst_all frm into u \<noteq> []"
  by (cases u) (auto simp: subst_all.simps(2))

text \<open>A file name the header line of an artifact can hold.\<close>

definition packable :: "string \<Rightarrow> bool" where
  "packable name \<longleftrightarrow> name \<noteq> [] \<and> CHR ''@'' \<notin> set name \<and> CHR '' '' \<notin> set name \<and> newline \<notin> set name"

lemma packed_name:
  assumes "packable name"
  shows "ReplaceAll name stem ''@'' \<noteq> []" "CHR '' '' \<notin> set (ReplaceAll name stem ''@'')"
    "newline \<notin> set (ReplaceAll name stem ''@'')"
  using assms set_subst_all [of stem "''@''" name]
  by (auto simp: packable_def ReplaceAll_def replace_loop_0 subst_all_nonempty)

lemma pack_head_split:
  assumes "CHR '' '' \<notin> set name" "name \<noteq> []"
  shows "Split (name @ '' '' @ to_base 8 mode @ '' '' @ to_decimal len) CHR '' '' False = [name, to_base 8 mode, to_decimal len]"
  using assms base_digit_no_blank [of 8 mode] base_digit_no_blank [of 10 len]
  by (simp add: Split_eq split_char_append split_char_no_sep)

text \<open>One artifact is taken off the blob.\<close>

lemma unpack_one:
  assumes "name \<noteq> []" "CHR '' '' \<notin> set name" "newline \<notin> set name" "mode < 2 ^ 64" "length data < 2 ^ 64"
  shows "UnpackFiles h (pack_head name mode (length data) @ data @ rest) dir stem cm w =
     (let out = path_append dir (ReplaceAll name ''@'' stem) in
      case write_to h out data w of
        (False, w1) \<Rightarrow> (False, cm, w1)
      | (True, w1) \<Rightarrow> UnpackFiles h rest dir stem (cm @ [(out, mode)]) w1)"
proof -
  obtain line where line: "line = name @ '' '' @ to_base 8 mode @ '' '' @ to_decimal (length data)" by simp
  have blob: "pack_head name mode (length data) @ data @ rest = line @ newline # data @ rest"
    by (simp add: pack_head_def line)
  have "newline \<notin> set line"
    using assms(3) base_digit_no_blank [of 8 mode] base_digit_no_blank [of 10 "length data"] by (auto simp: line)
  then have nl: "str_find (line @ newline # data @ rest) [newline] 0 = Some (length line)"
    by (simp add: str_find_char takeWhile_append_char)
  have sp: "Split line CHR '' '' False = [name, to_base 8 mode, to_decimal (length data)]"
    unfolding line by (rule pack_head_split [OF assms(2,1)])
  have n: "ParseUint (to_base 8 mode) 8 = Some mode" "ParseUint (to_decimal (length data)) 10 = Some (length data)"
    using assms(4,5) by (simp_all add: ParseUint_to_base)
  have "next_artifact (line @ newline # data @ rest) = Some (name, mode, data, rest)"
    by (simp add: next_artifact_def nl sp n Let_def)
  then show ?thesis
    unfolding blob UnpackFiles.simps [of h "line @ newline # data @ rest"] by simp
qed

section \<open>A packed list of files\<close>

definition pack_one :: "(string \<Rightarrow> nat) \<Rightarrow> disk \<Rightarrow> string \<Rightarrow> string \<Rightarrow> string" where
  "pack_one perms d stem path =
     pack_head (ReplaceAll (path_filename path) stem ''@'') (perms path AND kPermissionBits) (length (the (d path)))
       @ the (d path)"

lemma PackFiles_concat:
  "PackFiles perms d paths stem = concat (map (pack_one perms d stem) (filter (\<lambda>p. d p \<noteq> None) paths))"
proof -
  have "foldl (\<lambda>blob path. case d path of None \<Rightarrow> blob
          | Some data \<Rightarrow> blob @ pack_head (ReplaceAll (path_filename path) stem ''@'')
                           (perms path AND kPermissionBits) (length data) @ data) acc paths
      = acc @ concat (map (pack_one perms d stem) (filter (\<lambda>p. d p \<noteq> None) paths))" for acc
    by (induction paths arbitrary: acc) (auto simp: pack_one_def split: option.split)
  then show ?thesis by (simp add: PackFiles_def)
qed

text \<open>The disk after a write that succeeds.\<close>

definition put_file :: "nat \<Rightarrow> string \<Rightarrow> string \<Rightarrow> disk \<Rightarrow> disk" where
  "put_file pid path data d = (d(tmp_name pid path := None))(path \<mapsto> data)"

lemma write_to_ok:
  assumes "h_write h path = \<lparr>opened = True, accepted = None, renamed = True\<rparr>"
  shows "write_to h path data w = (True, w\<lparr>w_disk := put_file (h_pid h) path data (w_disk w)\<rparr>)"
  using assms tmp_name_neq [of "h_pid h" path]
  by (auto simp: write_to_def WriteFile_def out_fail_def Let_def put_file_def fun_eq_iff)

lemma mode_bits_less: "(n AND kPermissionBits) < 2 ^ 64"
proof -
  have "n AND kPermissionBits = take_bit 9 n" by (simp add: take_bit_eq_mask kPermissionBits_def mask_eq_exp_minus_1)
  moreover have "take_bit 9 n < 2 ^ 9" by (rule take_bit_nat_less_exp)
  ultimately show ?thesis by simp
qed

lemma unpack_pack:
  assumes ok: "\<And>path. h_write h path = \<lparr>opened = True, accepted = None, renamed = True\<rparr>"
    and fits: "\<forall>p \<in> set ps. packable (path_filename p) \<and> length (the (d p)) < 2 ^ 64"
  shows "UnpackFiles h (concat (map (pack_one perms d stem) ps)) dir stem' cm w =
     (let out = (\<lambda>p. path_append dir (rename_stem stem stem' (path_filename p))) in
      (True, cm @ map (\<lambda>p. (out p, perms p AND kPermissionBits)) ps,
       w\<lparr>w_disk := fold (\<lambda>p. put_file (h_pid h) (out p) (the (d p))) ps (w_disk w)\<rparr>))"
  using fits
proof (induction ps arbitrary: cm w)
  case Nil
  show ?case by (simp add: UnpackFiles.simps [of h "[]"])
next
  case (Cons p ps)
  then have pk: "packable (path_filename p)" and len: "length (the (d p)) < 2 ^ 64" by auto
  note un = unpack_one [OF packed_name [OF pk, of stem] mode_bits_less len, of h "perms p" _ dir stem' cm w]
  have out: "ReplaceAll (ReplaceAll (path_filename p) stem ''@'') ''@'' stem' = rename_stem stem stem' (path_filename p)"
    by (rule restored_name) (use pk in \<open>simp add: packable_def\<close>)
  show ?case
    using Cons.prems
    by (simp add: pack_one_def [of perms d stem p] un out write_to_ok [OF ok] Let_def Cons.IH)
qed

lemma put_file_self [simp]: "put_file pid path data d path = Some data"
  by (simp add: put_file_def)

lemma fold_put_other:
  "\<lbrakk>q \<notin> out ` set ps; \<forall>p \<in> set ps. q \<noteq> tmp_name pid (out p)\<rbrakk>
   \<Longrightarrow> fold (\<lambda>p. put_file pid (out p) (data p)) ps d q = d q"
  by (induction ps arbitrary: d) (auto simp: put_file_def)

lemma fold_put_file:
  "\<lbrakk>distinct (map out ps); \<forall>p \<in> set ps. \<forall>q \<in> set ps. out p \<noteq> tmp_name pid (out q); p \<in> set ps\<rbrakk>
   \<Longrightarrow> fold (\<lambda>p. put_file pid (out p) (data p)) ps d (out p) = Some (data p)"
proof (induction ps arbitrary: d)
  case (Cons x xs)
  show ?case
  proof (cases "p \<in> set xs")
    case False
    with Cons.prems have "p = x" "out p \<notin> out ` set xs" by auto
    with Cons.prems fold_put_other [of "out p" out xs pid data "put_file pid (out x) (data x) d"] show ?thesis
      by simp
  qed (use Cons in auto)
qed simp

text \<open>C22. Storing the artifacts of a crate and restoring them for a build of the same crate under another
  metadata stem succeeds and gives, for every artifact that existed, a file in the output directory with
  the same bytes and the same permission bits, named as the artifact with the one stem replaced by the
  other; with the same stem it has its own name.  No other file changes, temporaries apart.\<close>

theorem pack_unpack_round_trip:
  fixes dir stem stem' d paths
  defines "out \<equiv> \<lambda>p. path_append dir (rename_stem stem stem' (path_filename p))"
    and "present \<equiv> filter (\<lambda>p. d p \<noteq> None) paths"
  assumes "\<And>path. h_write h path = \<lparr>opened = True, accepted = None, renamed = True\<rparr>"
    and "\<forall>p \<in> set present. packable (path_filename p) \<and> length (the (d p)) < 2 ^ 64"
    and "distinct (map out present)"
    and "\<forall>p \<in> set present. \<forall>q \<in> set present. out p \<noteq> tmp_name (h_pid h) (out q)"
    and "UnpackFiles h (PackFiles perms d paths stem) dir stem' [] w = (ok, cm, w')"
  shows "ok \<and> cm = map (\<lambda>p. (out p, perms p AND kPermissionBits)) present
    \<and> (\<forall>p \<in> set present. w_disk w' (out p) = d p)
    \<and> (\<forall>q. q \<notin> out ` set present \<longrightarrow> (\<forall>p \<in> set present. q \<noteq> tmp_name (h_pid h) (out p)) \<longrightarrow> w_disk w' q = w_disk w q)
    \<and> (stem = stem' \<longrightarrow> (\<forall>p \<in> set present. out p = path_append dir (path_filename p)))"
proof -
  have res: "ok" "cm = map (\<lambda>p. (out p, perms p AND kPermissionBits)) present"
    "w' = w\<lparr>w_disk := fold (\<lambda>p. put_file (h_pid h) (out p) (the (d p))) present (w_disk w)\<rparr>"
    using assms(7) unfolding PackFiles_concat present_def [symmetric] unpack_pack [OF assms(3,4)]
    by (simp_all add: Let_def out_def)
  have "w_disk w' (out p) = d p" if "p \<in> set present" for p
    using fold_put_file [OF assms(5,6) that, of "\<lambda>p. the (d p)" "w_disk w"] that by (auto simp: res present_def)
  moreover have "w_disk w' q = w_disk w q"
    if "q \<notin> out ` set present" "\<forall>p \<in> set present. q \<noteq> tmp_name (h_pid h) (out p)" for q
    using fold_put_other [OF that, of "\<lambda>p. the (d p)" "w_disk w"] by (simp add: res)
  ultimately show ?thesis using res(1,2) by (auto simp: out_def)
qed

definition example_crate :: disk where
  "example_crate = [''t/libx-1.rlib'' \<mapsto> ''RLIB'', ''t/x-1.d'' \<mapsto> ''x: y'']"

theorem pack_unpack_round_trip_witness:
  "w_disk (snd (snd (UnpackFiles example_host
     (PackFiles (\<lambda>_. 33188) example_crate [''t/libx-1.rlib'', ''t/x-1.d'', ''t/x-1.rmeta''] ''-1'') ''o'' ''-2'' [] (example_world offline))))
     ''o/libx-2.rlib'' = Some ''RLIB''"
proof -
  let ?paths = "[''t/libx-1.rlib'', ''t/x-1.d'', ''t/x-1.rmeta'']"
  let ?u = "UnpackFiles example_host (PackFiles (\<lambda>_. 33188) example_crate ?paths ''-1'') ''o'' ''-2'' [] (example_world offline)"
  let ?out = "\<lambda>p. path_append ''o'' (rename_stem ''-1'' ''-2'' (path_filename p))"
  let ?p = "filter (\<lambda>p. example_crate p \<noteq> None) ?paths"
  have p: "?p = [''t/libx-1.rlib'', ''t/x-1.d'']" by (simp add: example_crate_def)
  have 1: "h_write example_host path = \<lparr>opened = True, accepted = None, renamed = True\<rparr>" for path
    by (simp add: example_host_def)
  have 2: "\<forall>p \<in> set ?p. packable (path_filename p) \<and> length (the (example_crate p)) < 2 ^ 64"
  proof -
    have "\<forall>p \<in> set ?p. packable (path_filename p)" unfolding p by code_simp
    then show ?thesis unfolding p by (simp add: example_crate_def)
  qed
  have 3: "distinct (map ?out ?p)" unfolding p by code_simp
  have 4: "\<forall>p \<in> set ?p. \<forall>q \<in> set ?p. ?out p \<noteq> tmp_name (h_pid example_host) (?out q)" unfolding p by code_simp
  have u: "?u = (fst ?u, fst (snd ?u), snd (snd ?u))" by simp
  have "\<forall>p \<in> set ?p. w_disk (snd (snd ?u)) (?out p) = example_crate p"
    by (rule pack_unpack_round_trip [OF 1 2 3 4 u, THEN conjunct2, THEN conjunct2, THEN conjunct1])
  then have "w_disk (snd (snd ?u)) (?out ''t/libx-1.rlib'') = example_crate ''t/libx-1.rlib''" unfolding p by simp
  moreover have "?out ''t/libx-1.rlib'' = ''o/libx-2.rlib''" by code_simp
  ultimately show ?thesis by (simp add: example_crate_def)
qed

section \<open>What the wrapper answers\<close>

lemma TakeNamedOption_frame:
  "TakeNamedOption args iv = Some (rest, iv') \<Longrightarrow>
     ri_args iv' = ri_args iv \<and> ri_source iv' = ri_source iv \<and> ri_links iv' = ri_links iv"
  by (auto simp: TakeNamedOption_def split: option.splits)

lemma TakeCodegenOption_frame:
  "TakeCodegenOption arg args iv = (rest, iv') \<Longrightarrow>
     ri_args iv' = ri_args iv \<and> ri_source iv' = ri_source iv \<and> (ri_links iv \<longrightarrow> ri_links iv')"
  by (auto simp: TakeCodegenOption_def split: if_splits prod.splits)

lemma rust_loop_args: "rust_loop args iv n = (iv', n') \<Longrightarrow> ri_args iv' = ri_args iv"
proof (induction args iv n rule: rust_loop.induct)
  case (1 args iv n)
  show ?case
  proof (cases args)
    case Nil
    with "1.prems" show ?thesis by (simp add: rust_loop.simps)
  next
    case (Cons arg rest)
    show ?thesis
    proof (cases "TakeNamedOption args iv")
      case (Some x)
      then obtain rest1 iv1 where t: "TakeNamedOption args iv = Some (rest1, iv1)" by (cases x) simp
      from t Cons "1.prems" 1(5) [OF Cons t refl] TakeNamedOption_frame [OF t] show ?thesis
        by (simp add: rust_loop.simps [of "arg # rest" iv])
    next
      case None
      note ih = 1(1-4) [OF Cons None]
      obtain rest1 iv1 where t: "TakeCodegenOption arg rest iv = (rest1, iv1)" by fastforce
      from None Cons "1.prems" ih(1,2,3) ih(4) [OF _ _ _ t [symmetric]] t TakeCodegenOption_frame [OF t] show ?thesis
        by (auto simp: rust_loop.simps [of "arg # rest" iv] split: if_splits)
    qed
  qed
qed

lemma parse_rust_args: "ri_args (ParseRustInvocation args) = args"
proof -
  obtain iv n where l: "rust_loop args (new_rust_invocation args) 0 = (iv, n)" by fastforce
  from rust_loop_args [OF l] have "ri_args iv = args" by (simp add: new_rust_invocation_def)
  then show ?thesis by (simp add: ParseRustInvocation_def l Let_def)
qed

lemma rust_cacheable_not_linking:
  "ri_cacheable (ParseRustInvocation args) \<Longrightarrow>
     \<not> ri_query (ParseRustInvocation args) \<and> \<not> ri_links (ParseRustInvocation args)
     \<and> ri_has_crate_type (ParseRustInvocation args) \<and> ri_has_dep_info (ParseRustInvocation args)
     \<and> ri_out_dir (ParseRustInvocation args) \<noteq> []"
  by (auto simp: ParseRustInvocation_def Let_def split: prod.splits if_splits)

text \<open>The environment of the world, the variable of the job slot apart.\<close>

definition same_env :: "world \<Rightarrow> world \<Rightarrow> bool" where
  "same_env v w \<longleftrightarrow> (\<forall>x. x \<noteq> kSlotEnv \<longrightarrow> w_env v x = w_env w x)"

lemma Slot_same_env: "Slot h path w = (slot, w1) \<Longrightarrow> same_env w1 w"
  using Slot_env(1) [of h path w slot w1] by (auto simp: same_env_def split: option.splits)

lemma write_to_env: "write_to h path data w = (ok, w1) \<Longrightarrow> w_env w1 = w_env w"
  by (auto simp: write_to_def split: prod.splits)

lemma UnpackFiles_env: "UnpackFiles h blob dir stem cm w = (ok, cm', w') \<Longrightarrow> w_env w' = w_env w"
proof (induction h blob dir stem cm w rule: UnpackFiles.induct)
  case (1 h blob dir stem cm w)
  show ?case
  proof (cases "blob = [] \<or> next_artifact blob = None")
    case True
    with "1.prems" show ?thesis by (auto simp: UnpackFiles.simps [of h blob] UnpackFiles.simps [of h "[]"] split: if_splits)
  next
    case False
    then obtain name mode data rest where n: "blob \<noteq> []" "next_artifact blob = Some (name, mode, data, rest)"
      by (cases "next_artifact blob") auto
    obtain wok w1 where wr: "write_to h (path_append dir (ReplaceAll name ''@'' stem)) data w = (wok, w1)" by fastforce
    have "w_env w' = w_env w1"
      using "1.prems" "1.IH" [OF n refl refl refl refl wr [symmetric]] n wr
      by (cases wok) (simp_all add: UnpackFiles.simps [of h blob])
    with write_to_env [OF wr] show ?thesis by simp
  qed
qed

lemma replay_env:
  assumes "rust_replay h iv label found w = (hit, cm, w')"
  shows "w_env w' = w_env w"
  using assms UnpackFiles_env
  by (fastforce simp: rust_replay_def get_from_def LogOutcome_def split: sum.splits prod.splits option.splits bool.splits if_splits)

lemma request_key_env: "rust_request_key r rustc iv bytes w = (key, w1) \<Longrightarrow> w_env w1 = w_env w"
  by (auto simp: rust_request_key_def StdlibIds_def Let_def split: option.splits prod.splits)

lemma find_result_env: "find_result h key w = (found, w1) \<Longrightarrow> w_env w1 = w_env w"
  by (auto simp: find_result_def split: prod.splits)

text \<open>The compiler was run with these arguments in the environment of the caller, the variable of the job
  slot apart, and ended with the status.\<close>

definition ran_with_status :: "host \<Rightarrow> string \<Rightarrow> string list \<Rightarrow> world \<Rightarrow> int \<Rightarrow> bool" where
  "ran_with_status h rustc args w status \<longleftrightarrow>
     (\<exists>mode v. same_env v w \<and> status = int (run_status (fst (Run h rustc args mode v))))"

lemma uncached_status:
  assumes "RunUncached_rustc h socket rustc iv src label w = (status, w')"
  shows "ran_with_status h rustc (ri_args iv) w status"
proof -
  obtain slot w1 where s: "(if ri_source iv \<noteq> [] then Slot h socket w else (None, w)) = (slot, w1)" by fastforce
  have "same_env w1 w" using s Slot_same_env [of h socket w slot w1] by (auto simp: same_env_def split: if_splits)
  moreover have "status = int (run_status (fst (Run h rustc (ri_args iv) kInherit w1)))"
    using assms unfolding RunUncached_rustc_def s by (auto simp: Let_def split: prod.splits)
  ultimately show ?thesis by (auto simp: ran_with_status_def)
qed

lemma compile_status:
  assumes "rust_compile r rustc iv key missed w = (status, w')"
  shows "ran_with_status (r_host r) rustc (ri_args iv) w status"
proof -
  obtain slot w1 where s: "Slot (r_host r) [] w = (slot, w1)" by fastforce
  obtain run w2 where r: "Run (r_host r) rustc (ri_args iv) kCapture w1 = (run, w2)" by fastforce
  have "status = int (run_status run)"
    using assms by (auto simp: rust_compile_def Let_def s r split: if_splits option.splits prod.splits)
  with Slot_same_env [OF s] r show ?thesis by (metis ran_with_status_def fst_conv)
qed

lemma replay_unpacks:
  assumes "rust_replay h iv label found w = (True, cm, w')"
  shows "\<exists>rk blob w1 w2. found = Inr rk \<and> get_from h (slot_Object rk) w = (Some blob, w1)
     \<and> UnpackFiles h blob (ri_out_dir iv) (ri_extra_filename iv) [] w1 = (True, cm, w2)"
  using assms by (auto simp: rust_replay_def split: sum.splits prod.splits option.splits bool.splits)

text \<open>The artifacts of the result stored under the request key of the invocation, whose manifest the
  current inputs validate, were all written.\<close>

definition restored_hit :: "rust_host \<Rightarrow> string \<Rightarrow> rust_invocation \<Rightarrow> string \<Rightarrow> chmods \<Rightarrow> bool" where
  "restored_hit r rustc iv bytes cm \<longleftrightarrow>
     (\<exists>key rk blob w0 w1 w2 w3 w4. rust_request_key r rustc iv bytes w0 = (key, w1)
        \<and> find_result (r_host r) key w1 = (Inr rk, w2)
        \<and> get_from (r_host r) (slot_Object rk) w2 = (Some blob, w3)
        \<and> UnpackFiles (r_host r) blob (ri_out_dir iv) (ri_extra_filename iv) [] w3 = (True, cm, w4))"


definition example_rust_host :: rust_host where
  "example_rust_host =
     \<lparr>r_host = example_host, r_perms = (\<lambda>_ _. 420), r_names = (\<lambda>_. []), r_weakly_canonical = (\<lambda>p. p)\<rparr>"


end
