(* ===== verification/Dir_Mode.thy ===== *)
theory Dir_Mode
  imports Cc_Cache
begin

text \<open>
  Directory trees in the cache, \<^verbatim>\<open>pkgs/ji/jig/src/dir_mode.{h,cc}\<close>.  The walk over a tree is a function that
  gives its entries in order, or nothing when the walk throws; symbolic links are a map beside the disk;
  permission bits set are kept as the list of calls.  Directories are implied by the paths.
\<close>

unbundle bit_operations_syntax

section \<open>Model\<close>

definition kBatch :: nat where "kBatch = 256"
definition kDefaultMode :: nat where "kDefaultMode = 420"
definition kPermBits :: nat where "kPermBits = 511"

definition BlobKey :: "string \<Rightarrow> string" where
  "BlobKey hash_hex = ''b/'' @ hash_hex"

record dir_entry =
  de_kind :: char
  de_mode :: nat
  de_ref :: string
  de_rel :: string

definition parse_entry :: "string \<Rightarrow> dir_entry list" where
  "parse_entry line =
     (case str_find line [tab] 0 of
        None \<Rightarrow> []
      | Some t \<Rightarrow>
          (let head = SplitWhitespace (take t line) in
           if length head \<noteq> 3 then []
           else [\<lparr>de_kind = hd (head ! 0),
                  de_mode = take_bit 32 (case ParseUint (head ! 1) 8 of None \<Rightarrow> kDefaultMode | Some m \<Rightarrow> m),
                  de_ref = head ! 2, de_rel = drop (t + 1) line\<rparr>]))"

definition ParseListing :: "string \<Rightarrow> dir_entry list" where
  "ParseListing str = concat (map parse_entry (Split str newline False))"

definition IsText :: "string \<Rightarrow> bool" where
  "IsText data \<longleftrightarrow> CHR 0x00 \<notin> set data"

definition Stored :: "store \<Rightarrow> string \<Rightarrow> string" where
  "Stored st data = (if IsText data then MaskHashes st data else data)"

definition Restored :: "store \<Rightarrow> string \<Rightarrow> string" where
  "Restored st data = (if IsText data then ResolveAll st data else data)"

text \<open>A file to upload: the key of its blob and its path.\<close>

type_synonym upload = "string \<times> string"

definition missing_puts :: "store \<Rightarrow> disk \<Rightarrow> upload list \<Rightarrow> bool list \<Rightarrow> (string \<times> string) list" where
  "missing_puts st d ups have =
     concat (map (\<lambda>(i, key, path).
        if i < length have \<and> have ! i then []
        else case d path of None \<Rightarrow> [] | Some data \<Rightarrow> [(key, Stored st data)]) (zip [0..<length ups] ups))"

definition Upload :: "host \<Rightarrow> upload list \<Rightarrow> world \<Rightarrow> nat \<times> world" where
  "Upload h ups w =
     (case HasMany (map fst ups) (w_cache w) of (have, c) \<Rightarrow>
        (let puts = missing_puts (w_store w) (w_disk w) ups have
         in (length puts, w\<lparr>w_cache := PutMany (h_zc h) puts c\<rparr>)))"

datatype dir_kind = DSymlink string | DRegular nat | DOther

record dir_host =
  d_host :: host
  d_walk :: "string \<Rightarrow> (string \<times> dir_kind) list option"
  d_symlink_ok :: "string \<Rightarrow> bool"

record put_state =
  ps_listing :: string
  ps_uploads :: "upload list"
  ps_files :: nat
  ps_uploaded :: nat
  ps_world :: world

definition link_line :: "string \<Rightarrow> string \<Rightarrow> string" where
  "link_line target rel = ''l 0 '' @ target @ [tab] @ rel @ [newline]"

definition file_line :: "nat \<Rightarrow> string \<Rightarrow> string \<Rightarrow> string" where
  "file_line mode hash rel = ''f '' @ to_base 8 mode @ '' '' @ hash @ [tab] @ rel @ [newline]"

definition flush_uploads :: "host \<Rightarrow> put_state \<Rightarrow> put_state" where
  "flush_uploads h ps =
     (case Upload h (ps_uploads ps) (ps_world ps) of (n, w) \<Rightarrow>
        ps\<lparr>ps_uploads := [], ps_uploaded := ps_uploaded ps + n, ps_world := w\<rparr>)"

definition put_entry :: "host \<Rightarrow> string \<Rightarrow> put_state \<Rightarrow> string \<times> dir_kind \<Rightarrow> put_state" where
  "put_entry h root ps dent =
     (let rel = lexically_relative (fst dent) root in
      case snd dent of
        DSymlink target \<Rightarrow> ps\<lparr>ps_listing := ps_listing ps @ link_line target rel\<rparr>
      | DOther \<Rightarrow> ps
      | DRegular mode \<Rightarrow>
          (case w_disk (ps_world ps) (fst dent) of
             None \<Rightarrow> ps
           | Some data \<Rightarrow>
               (let hash = HashOf (h_b3 h) (Stored (w_store (ps_world ps)) data);
                    ps1 = ps\<lparr>ps_listing := ps_listing ps @ file_line (mode AND kPermBits) hash rel,
                             ps_uploads := ps_uploads ps @ [(BlobKey hash, fst dent)], ps_files := ps_files ps + 1\<rparr>
                in if length (ps_uploads ps1) = kBatch then flush_uploads h ps1 else ps1)))"

definition connect_to :: "host \<Rightarrow> string \<Rightarrow> world \<Rightarrow> bool \<times> world" where
  "connect_to h socket_path w =
     (case h_socket h socket_path of (sock, refused) \<Rightarrow>
        (case Connect (h_sun_path h) sock refused socket_path (w_cache w) of (ok, c) \<Rightarrow> (ok, w\<lparr>w_cache := c\<rparr>)))"

definition PutDir :: "dir_host \<Rightarrow> string \<Rightarrow> string \<Rightarrow> string \<Rightarrow> world \<Rightarrow> cc_exit \<times> world" where
  "PutDir r socket_path key dir w =
     (let h = d_host r in
      case connect_to h socket_path w of
        (False, w1) \<Rightarrow> (Exit 2, w1)
      | (True, w1) \<Rightarrow>
          (case d_walk r dir of
             None \<Rightarrow> (Terminated, w1)
           | Some dents \<Rightarrow>
               (let ps = flush_uploads h (foldl (put_entry h dir)
                      \<lparr>ps_listing = [], ps_uploads = [], ps_files = 0, ps_uploaded = 0, ps_world = w1\<rparr> dents)
                in (Exit 0, say (''jig: put-dir '' @ key @ '': '' @ to_decimal (ps_files ps) @ '' files, ''
                       @ to_decimal (ps_uploaded ps) @ '' new'') (put_to h key (ps_listing ps) (ps_world ps))))))"

record get_state =
  gs_links :: "string \<Rightarrow> string option"
  gs_written :: "string list"
  gs_chmods :: "(string \<times> nat) list"
  gs_missing :: nat
  gs_world :: world

text \<open>\<^verbatim>\<open>fs::remove\<close> of a file or a link.\<close>

definition remove_path :: "string \<Rightarrow> get_state \<Rightarrow> get_state" where
  "remove_path path gs =
     gs\<lparr>gs_links := (gs_links gs)(path := None), gs_world := (gs_world gs)\<lparr>w_disk := (w_disk (gs_world gs))(path := None)\<rparr>\<rparr>"

definition get_link :: "dir_host \<Rightarrow> string \<Rightarrow> get_state \<Rightarrow> dir_entry \<Rightarrow> get_state" where
  "get_link r root gs entry =
     (if de_kind entry = CHR ''l'' then
        (let dest = path_append root (de_rel entry);
             gs1 = remove_path dest gs;
             gs2 = (if d_symlink_ok r dest then gs1\<lparr>gs_links := (gs_links gs1)(dest \<mapsto> de_ref entry)\<rparr> else gs1)
         in gs2\<lparr>gs_written := gs_written gs2 @ [dest]\<rparr>)
      else gs)"

definition get_file :: "host \<Rightarrow> string \<Rightarrow> get_state \<Rightarrow> dir_entry \<times> string option \<Rightarrow> get_state" where
  "get_file h root gs item =
     (let dest = path_append root (de_rel (fst item)) in
      case snd item of
        None \<Rightarrow> gs\<lparr>gs_missing := gs_missing gs + 1\<rparr>
      | Some blob \<Rightarrow>
          (case write_to h dest (Restored (w_store (gs_world gs)) blob) (gs_world gs) of
             (False, w1) \<Rightarrow> gs\<lparr>gs_missing := gs_missing gs + 1, gs_world := w1\<rparr>
           | (True, w1) \<Rightarrow>
               gs\<lparr>gs_links := (gs_links gs)(dest := None), gs_written := gs_written gs @ [dest],
                  gs_chmods := gs_chmods gs @ [(dest, de_mode (fst item))], gs_world := w1\<rparr>))"

function get_batches :: "host \<Rightarrow> string \<Rightarrow> dir_entry list \<Rightarrow> get_state \<Rightarrow> get_state" where
  "get_batches h root entries gs =
     (if entries = [] then gs
      else let batch = take kBatch entries in
        case GetMany (h_zd h) (map (\<lambda>e. BlobKey (de_ref e)) batch) (w_cache (gs_world gs)) of (blobs, c) \<Rightarrow>
          (let answers = blobs @ replicate (length batch - length blobs) None;
               gs1 = foldl (get_file h root) (gs\<lparr>gs_world := (gs_world gs)\<lparr>w_cache := c\<rparr>\<rparr>) (zip batch answers)
           in get_batches h root (drop kBatch entries) gs1))"
  by pat_completeness auto
termination
  by (relation "measure (\<lambda>(h, root, entries, gs). length entries)") (auto simp: kBatch_def)

declare get_batches.simps [simp del]

definition get_report :: "string \<Rightarrow> nat \<Rightarrow> nat \<Rightarrow> string" where
  "get_report key files missing =
     ''jig: get-dir '' @ key @ '': '' @ to_decimal files @ '' files, '' @ to_decimal missing @ '' missing''"

definition GetDir :: "dir_host \<Rightarrow> string \<Rightarrow> string \<Rightarrow> string \<Rightarrow> (string \<Rightarrow> string option) \<Rightarrow> world \<Rightarrow> int \<times> get_state" where
  "GetDir r socket_path key dir links w =
     (let h = d_host r;
          start = (\<lambda>w. \<lparr>gs_links = links, gs_written = [], gs_chmods = [], gs_missing = 0, gs_world = w\<rparr>) in
      case connect_to h socket_path w of
        (False, w1) \<Rightarrow> (2, start w1)
      | (True, w1) \<Rightarrow>
          (case get_from h key w1 of
             (None, w2) \<Rightarrow> (1, start w2)
           | (Some listing, w2) \<Rightarrow>
               (let entries = ParseListing listing;
                    gs1 = foldl (get_link r dir) (start w2) entries;
                    files = filter (\<lambda>e. de_kind e = CHR ''f'') entries;
                    gs2 = get_batches h dir files gs1;
                    gs3 = gs2\<lparr>gs_world := say (get_report key (length files) (gs_missing gs2)) (gs_world gs2)\<rparr>
                in if gs_missing gs3 \<noteq> 0 then (1, fold remove_path (gs_written gs3) gs3) else (0, gs3))))"

section \<open>The listing\<close>

definition entry_line :: "dir_entry \<Rightarrow> string" where
  "entry_line e = (if de_kind e = CHR ''l'' then link_line (de_ref e) (de_rel e) else file_line (de_mode e) (de_ref e) (de_rel e))"

text \<open>An entry that a line can hold: the link target or hash is one word, the name has no line break.\<close>

definition entry_ok :: "dir_entry \<Rightarrow> bool" where
  "entry_ok e \<longleftrightarrow> de_kind e \<in> {CHR ''f'', CHR ''l''} \<and> de_mode e < 2 ^ 32 \<and> (de_kind e = CHR ''l'' \<longrightarrow> de_mode e = 0)
     \<and> de_ref e \<noteq> [] \<and> (\<forall>c \<in> set (de_ref e). \<not> is_blank c) \<and> newline \<notin> set (de_rel e)"

definition entry_head :: "dir_entry \<Rightarrow> string" where
  "entry_head e = [de_kind e] @ '' '' @ to_base 8 (de_mode e) @ '' '' @ de_ref e"

lemma entry_line_head:
  assumes "entry_ok e" shows "entry_line e = (entry_head e @ [tab] @ de_rel e) @ [newline]"
proof -
  have "to_base 8 0 = ''0''" by code_simp
  then show ?thesis
    using assms by (auto simp: entry_line_def entry_head_def entry_ok_def link_line_def file_line_def)
qed

lemma octal_blank: "c \<in> set (to_base 8 n) \<Longrightarrow> \<not> is_blank c"
  using to_base_digits [of 8 c n] by (auto simp: is_blank_def is_base_digit_def digit_value_def split: if_splits)

lemma entry_head_words:
  assumes "entry_ok e"
  shows "SplitWhitespace (entry_head e) = [[de_kind e], to_base 8 (de_mode e), de_ref e]"
proof -
  obtain m where m: "m = to_base 8 (de_mode e)" by simp
  have words: "\<forall>c \<in> set [de_kind e]. \<not> is_blank c" "\<forall>c \<in> set m. \<not> is_blank c" "m \<noteq> []"
      "\<forall>c \<in> set (de_ref e). \<not> is_blank c" "de_ref e \<noteq> []"
    using assms octal_blank by (auto simp: entry_ok_def is_blank_def m)
  have blank: "\<forall>c \<in> set ('' ''). is_blank c" by (simp add: is_blank_def)
  have "split_ws ([] @ [de_kind e] @ '' '' @ m @ '' '' @ de_ref e) = [de_kind e] # split_ws ('' '' @ m @ '' '' @ de_ref e)"
    by (rule split_ws_sep) (use words in \<open>simp_all add: is_blank_def\<close>)
  moreover have "split_ws ('' '' @ m @ '' '' @ de_ref e) = m # split_ws ('' '' @ de_ref e @ [])"
    unfolding append_Nil2 by (rule split_ws_sep [OF words(3,2) blank]) (simp add: is_blank_def)
  moreover have "split_ws ('' '' @ de_ref e @ []) = de_ref e # split_ws []"
    by (rule split_ws_sep [OF words(5,4) blank]) simp
  ultimately show ?thesis by (simp add: SplitWhitespace_def entry_head_def m)
qed

lemma entry_head_tab: "entry_ok e \<Longrightarrow> tab \<notin> set (entry_head e) \<and> newline \<notin> set (entry_head e)"
  using octal_blank [of _ "de_mode e"] by (fastforce simp: entry_ok_def entry_head_def is_blank_def)

lemma parse_entry_line:
  assumes "entry_ok e" shows "parse_entry (entry_head e @ [tab] @ de_rel e) = [e]"
proof -
  have t: "str_find (entry_head e @ [tab] @ de_rel e) [tab] 0 = Some (length (entry_head e))"
    using entry_head_tab [OF assms] by (simp add: str_find_char takeWhile_append_char)
  have m: "de_mode e < 2 ^ 64" "take_bit 32 (de_mode e) = de_mode e"
    using assms by (auto simp: entry_ok_def take_bit_nat_eq_self_iff)
  then have "ParseUint (to_base 8 (de_mode e)) 8 = Some (de_mode e)" by (intro ParseUint_to_base) auto
  with t m entry_head_words [OF assms] show ?thesis
    by (simp add: parse_entry_def Let_def)
qed

lemma ParseListing_lines: "\<forall>e \<in> set es. entry_ok e \<Longrightarrow> ParseListing (concat (map entry_line es)) = es"
proof -
  assume ok: "\<forall>e \<in> set es. entry_ok e"
  let ?line = "\<lambda>e. entry_head e @ [tab] @ de_rel e"
  have "concat (map entry_line es) = concat (map (\<lambda>l. l @ [newline]) (map ?line es))"
    using ok by (simp add: entry_line_head comp_def cong: map_cong)
  moreover have "\<forall>l \<in> set (map ?line es). newline \<notin> set l \<and> l \<noteq> []"
    using ok entry_head_tab by (auto simp: entry_ok_def)
  ultimately have "Split (concat (map entry_line es)) newline False = map ?line es"
    using Split_lines [of "map ?line es"] by auto
  then have "ParseListing (concat (map entry_line es)) = concat (map (\<lambda>e. parse_entry (?line e)) es)"
    by (simp add: ParseListing_def comp_def)
  also have "\<dots> = concat (map (\<lambda>e. [e]) es)" using ok by (simp only: parse_entry_line cong: map_cong)
  finally show ?thesis by simp
qed

section \<open>What is stored of a tree\<close>

definition dent_entry :: "host \<Rightarrow> store \<Rightarrow> disk \<Rightarrow> string \<Rightarrow> string \<times> dir_kind \<Rightarrow> dir_entry list" where
  "dent_entry h st d root dent =
     (let rel = lexically_relative (fst dent) root in
      case snd dent of
        DSymlink target \<Rightarrow> [\<lparr>de_kind = CHR ''l'', de_mode = 0, de_ref = target, de_rel = rel\<rparr>]
      | DOther \<Rightarrow> []
      | DRegular mode \<Rightarrow>
          (case d (fst dent) of
             None \<Rightarrow> []
           | Some data \<Rightarrow> [\<lparr>de_kind = CHR ''f'', de_mode = mode AND kPermBits, de_ref = HashOf (h_b3 h) (Stored st data), de_rel = rel\<rparr>]))"

lemma flush_uploads_frame [simp]:
  "ps_listing (flush_uploads h ps) = ps_listing ps" "w_disk (ps_world (flush_uploads h ps)) = w_disk (ps_world ps)"
  "w_store (ps_world (flush_uploads h ps)) = w_store (ps_world ps)"
  by (simp_all add: flush_uploads_def Upload_def Let_def split: prod.split)

lemma put_entry_frame:
  "w_disk (ps_world (put_entry h root ps dent)) = w_disk (ps_world ps)"
  "w_store (ps_world (put_entry h root ps dent)) = w_store (ps_world ps)"
  "ps_listing (put_entry h root ps dent) =
     ps_listing ps @ concat (map entry_line (dent_entry h (w_store (ps_world ps)) (w_disk (ps_world ps)) root dent))"
  by (auto simp: put_entry_def dent_entry_def entry_line_def Let_def split: dir_kind.splits option.splits)

lemma put_entries_listing:
  "ps_listing (foldl (put_entry h root) ps dents) =
     ps_listing ps @ concat (map entry_line (concat (map (dent_entry h (w_store (ps_world ps)) (w_disk (ps_world ps)) root) dents)))"
  by (induction dents arbitrary: ps) (simp_all add: put_entry_frame)

text \<open>A tree whose links and names the listing can hold; a hash is never empty.\<close>

definition dent_ok :: "string \<Rightarrow> string \<times> dir_kind \<Rightarrow> bool" where
  "dent_ok root dent \<longleftrightarrow> newline \<notin> set (lexically_relative (fst dent) root)
     \<and> (\<forall>target. snd dent = DSymlink target \<longrightarrow> target \<noteq> [] \<and> (\<forall>c \<in> set target. \<not> is_blank c))"

lemma hex_not_blank: "c \<in> set (HexEncode s) \<Longrightarrow> \<not> is_blank c"
proof (induction s)
  case (Cons x s)
  have "\<not> is_blank c" if "c \<in> set (hex2 x)" for c
  proof -
    have "digit_char n \<notin> {CHR '' '', tab, newline}" if "n < 16" for n
    proof -
      have "list_all (\<lambda>n. digit_char n \<notin> {CHR '' '', tab, newline}) [0..<16]" by code_simp
      then show ?thesis using that by (simp add: list_all_iff)
    qed
    moreover have "(of_char x :: nat) div 16 < 16" "(of_char x :: nat) mod 16 < 16"
      using of_char_nat_less [of x] less_mult_imp_div_less [of "of_char x" 16 16] by simp_all
    ultimately show ?thesis using that by (auto simp: hex2_def is_blank_def)
  qed
  with Cons show ?case by auto
qed simp

lemma perm_bits_less: "(n AND kPermBits) < 2 ^ 32"
proof -
  have "n AND kPermBits = take_bit 9 n" by (simp add: take_bit_eq_mask kPermBits_def mask_eq_exp_minus_1)
  moreover have "take_bit 9 n < 2 ^ 9" by (rule take_bit_nat_less_exp)
  ultimately show ?thesis by simp
qed

lemma dent_entry_ok:
  assumes "dent_ok root dent" "\<And>x. h_b3 h x \<noteq> []" "e \<in> set (dent_entry h st d root dent)"
  shows "entry_ok e"
proof -
  have "HashOf (h_b3 h) x \<noteq> []" for x
    using assms(2) length_HexEncode by (metis HashOf_def Hasher_Finish_def length_0_conv mult_is_0 numeral_eq_iff zero_neq_numeral)
  moreover have "\<not> is_blank c" if "c \<in> set (HashOf (h_b3 h) x)" for c x
    using that hex_not_blank by (auto simp: HashOf_def Hasher_Finish_def)
  ultimately show ?thesis
    using assms(1,3) perm_bits_less
    by (auto simp: dent_entry_def dent_ok_def entry_ok_def Let_def split: dir_kind.splits option.splits)
qed


definition example_dir_host :: dir_host where
  "example_dir_host =
     \<lparr>d_host = example_host,
      d_walk = (\<lambda>_. Some [(''t/a'', DRegular 33188), (''t/l'', DSymlink ''a'')]), d_symlink_ok = (\<lambda>_. True)\<rparr>"

definition example_dir_world :: world where
  "example_dir_world = (example_world offline)\<lparr>w_disk := [''t/a'' \<mapsto> [CHR ''x'', CHR 0x00]]\<rparr>"


section \<open>A tree is restored whole or not at all\<close>

text \<open>What the daemon answers for the blobs of the files, batch by batch.\<close>

function batch_answers :: "host \<Rightarrow> dir_entry list \<Rightarrow> client \<Rightarrow> string option list" where
  "batch_answers h entries c =
     (if entries = [] then []
      else let batch = take kBatch entries in
        case GetMany (h_zd h) (map (\<lambda>e. BlobKey (de_ref e)) batch) c of (blobs, c1) \<Rightarrow>
          take (length batch) (blobs @ replicate (length batch - length blobs) None) @ batch_answers h (drop kBatch entries) c1)"
  by pat_completeness auto
termination
  by (relation "measure (\<lambda>(h, entries, c). length entries)") (auto simp: kBatch_def)

declare batch_answers.simps [simp del]

abbreviation disk_of :: "get_state \<Rightarrow> disk" where "disk_of gs \<equiv> w_disk (gs_world gs)"

lemma write_to_result:
  assumes "write_to h p data w = (ok, w1)"
  shows "ok \<Longrightarrow> w_disk w1 p = Some data" "\<not> ok \<Longrightarrow> w_disk w1 p = w_disk w p"
    "q \<noteq> p \<Longrightarrow> q \<noteq> tmp_name (h_pid h) p \<Longrightarrow> w_disk w1 q = w_disk w q"
    "w_store w1 = w_store w" "w_cache w1 = w_cache w"
  using assms tmp_name_neq [of "h_pid h" p]
  by (auto simp: write_to_def WriteFile_def Let_def out_fail_def split: if_splits)

text \<open>What changed, the temporaries apart, is on the list of written paths.\<close>

definition tracked :: "(string \<Rightarrow> bool) \<Rightarrow> get_state \<Rightarrow> get_state \<Rightarrow> bool" where
  "tracked T gs gs' \<longleftrightarrow> set (gs_written gs) \<subseteq> set (gs_written gs') \<and> w_store (gs_world gs') = w_store (gs_world gs)
     \<and> gs_missing gs \<le> gs_missing gs'
     \<and> (\<forall>q. \<not> T q \<longrightarrow> q \<in> set (gs_written gs') \<or> disk_of gs' q = disk_of gs q \<and> gs_links gs' q = gs_links gs q)"

lemma tracked_refl [simp]: "tracked T gs gs"
  by (simp add: tracked_def)

lemma tracked_trans: "tracked T a b \<Longrightarrow> tracked T b c \<Longrightarrow> tracked T a c"
  unfolding tracked_def by (metis order_trans subsetD)

lemma tracked_foldl: "(\<And>gs x. x \<in> set xs \<Longrightarrow> tracked T gs (f gs x)) \<Longrightarrow> tracked T gs (foldl f gs xs)"
  by (induction xs arbitrary: gs) (auto intro: tracked_trans)

lemma tracked_cache: "tracked T (gs\<lparr>gs_world := (gs_world gs)\<lparr>w_cache := c\<rparr>\<rparr>) gs' \<Longrightarrow> tracked T gs gs'"
  by (simp add: tracked_def)

lemma tracked_link: "tracked T gs (get_link r root gs e)"
  by (auto simp: tracked_def get_link_def remove_path_def Let_def)

lemma tracked_file:
  assumes "T (tmp_name (h_pid h) (path_append root (de_rel (fst item))))"
  shows "tracked T gs (get_file h root gs item)"
proof -
  let ?dest = "path_append root (de_rel (fst item))"
  show ?thesis
  proof (cases "snd item")
    case None
    then show ?thesis by (simp add: tracked_def get_file_def Let_def)
  next
    case (Some blob)
    obtain ok w1 where w: "write_to h ?dest (Restored (w_store (gs_world gs)) blob) (gs_world gs) = (ok, w1)" by fastforce
    note wr = write_to_result [OF w]
    have "w_disk w1 q = disk_of gs q" if "\<not> T q" "q \<noteq> ?dest" for q using wr(3) [of q] that assms by auto
    with wr(2,4) Some w show ?thesis
      by (cases ok) (auto simp: tracked_def get_file_def Let_def)
  qed
qed

lemma tracked_batches:
  "\<forall>e \<in> set entries. T (tmp_name (h_pid h) (path_append root (de_rel e))) \<Longrightarrow> tracked T gs (get_batches h root entries gs)"
proof (induction h root entries gs rule: get_batches.induct)
  case (1 h root entries gs)
  show ?case
  proof (cases "entries = []")
    case True
    then show ?thesis by (simp add: get_batches.simps)
  next
    case False
    let ?batch = "take kBatch entries"
    obtain blobs c where b: "GetMany (h_zd h) (map (\<lambda>e. BlobKey (de_ref e)) ?batch) (w_cache (gs_world gs)) = (blobs, c)" by fastforce
    let ?items = "zip ?batch (blobs @ replicate (length ?batch - length blobs) None)"
    let ?gs1 = "foldl (get_file h root) (gs\<lparr>gs_world := (gs_world gs)\<lparr>w_cache := c\<rparr>\<rparr>) ?items"
    have "tracked T gs ?gs1"
      by (rule tracked_cache, rule tracked_foldl, rule tracked_file)
         (use "1.prems" in \<open>auto dest!: set_zip_leftD dest: in_set_takeD\<close>)
    moreover have "tracked T ?gs1 (get_batches h root (drop kBatch entries) ?gs1)"
      by (rule "1.IH" [OF False refl b [symmetric] refl refl]) (use "1.prems" in \<open>auto dest: in_set_dropD\<close>)
    ultimately show ?thesis
      using False by (subst get_batches.simps) (auto simp: Let_def b intro: tracked_trans)
  qed
qed

lemma fold_remove:
  "disk_of (fold remove_path ps gs) q = (if q \<in> set ps then None else disk_of gs q)
   \<and> gs_links (fold remove_path ps gs) q = (if q \<in> set ps then None else gs_links gs q)
   \<and> gs_written (fold remove_path ps gs) = gs_written gs"
  by (induction ps arbitrary: gs) (auto simp: remove_path_def)

abbreviation dest_of :: "string \<Rightarrow> dir_entry \<Rightarrow> string" where "dest_of root e \<equiv> path_append root (de_rel e)"

text \<open>A path that no entry of a list leads to, nor the temporary of one.\<close>

definition aside :: "host \<Rightarrow> string \<Rightarrow> dir_entry list \<Rightarrow> string \<Rightarrow> bool" where
  "aside h root es q \<longleftrightarrow> (\<forall>e \<in> set es. q \<noteq> dest_of root e \<and> q \<noteq> tmp_name (h_pid h) (dest_of root e))"

lemma aside_Cons [simp]:
  "aside h root (e # es) q \<longleftrightarrow> q \<noteq> dest_of root e \<and> q \<noteq> tmp_name (h_pid h) (dest_of root e) \<and> aside h root es q"
  by (auto simp: aside_def)

lemma aside_sub: "aside h root es q \<Longrightarrow> set es' \<subseteq> set es \<Longrightarrow> aside h root es' q"
  by (auto simp: aside_def)

text \<open>The entries lead to different paths, and none to the temporary of another.\<close>

definition apart :: "host \<Rightarrow> string \<Rightarrow> dir_entry list \<Rightarrow> bool" where
  "apart h root es \<longleftrightarrow> distinct (map (dest_of root) es)
     \<and> (\<forall>e \<in> set es. \<forall>e' \<in> set es. dest_of root e \<noteq> tmp_name (h_pid h) (dest_of root e'))"

lemma apart_Cons: "apart h root (e # es) \<longleftrightarrow> apart h root es \<and> aside h root es (dest_of root e)
    \<and> (\<forall>e' \<in> set es. dest_of root e' \<noteq> tmp_name (h_pid h) (dest_of root e))"
  using tmp_name_neq by (auto simp: apart_def aside_def) metis+

lemma apart_append: "apart h root (xs @ ys) \<Longrightarrow> apart h root xs \<and> apart h root ys \<and> (\<forall>x \<in> set xs. aside h root ys (dest_of root x))"
  by (auto simp: apart_def aside_def)

lemma get_file_other:
  assumes "aside h root [fst item] q"
  shows "disk_of (get_file h root gs item) q = disk_of gs q" "gs_links (get_file h root gs item) q = gs_links gs q"
proof -
  have "w_disk w1 q = disk_of gs q" if "write_to h (dest_of root (fst item)) x (gs_world gs) = (ok, w1)" for x ok w1
    using write_to_result(3) [OF that, of q] assms by (auto simp: aside_def)
  then show "disk_of (get_file h root gs item) q = disk_of gs q" "gs_links (get_file h root gs item) q = gs_links gs q"
    using assms by (auto simp: get_file_def Let_def aside_def split: option.splits prod.splits bool.splits)
qed

lemma get_files_other:
  "aside h root (map fst items) q \<Longrightarrow>
     disk_of (foldl (get_file h root) gs items) q = disk_of gs q \<and> gs_links (foldl (get_file h root) gs items) q = gs_links gs q"
  by (induction items arbitrary: gs) (auto simp: get_file_other aside_def)

text \<open>The files of a list are all there when none is counted as missing.\<close>

definition restored :: "string \<Rightarrow> get_state \<Rightarrow> dir_entry \<times> string option \<Rightarrow> bool" where
  "restored root gs item \<longleftrightarrow>
     (\<exists>b. snd item = Some b \<and> disk_of gs (dest_of root (fst item)) = Some (Restored (w_store (gs_world gs)) b))"

lemma missing_mono: "gs_missing gs \<le> gs_missing (foldl (get_file h root) gs items)"
  using tracked_foldl [of items "\<lambda>_. True" "get_file h root" gs] tracked_file by (auto simp: tracked_def)

lemma get_file_store: "w_store (gs_world (foldl (get_file h root) gs items)) = w_store (gs_world gs)"
  using tracked_foldl [of items "\<lambda>_. True" "get_file h root" gs] tracked_file by (auto simp: tracked_def)

lemma get_file_restored:
  assumes "gs_missing (get_file h root gs item) = gs_missing gs"
  shows "restored root (get_file h root gs item) item"
  using assms write_to_result
  by (auto simp: restored_def get_file_def Let_def split: option.splits prod.splits bool.splits)

lemma get_files_restored:
  "\<lbrakk>apart h root (map fst items); gs_missing (foldl (get_file h root) gs items) = gs_missing gs; item \<in> set items\<rbrakk>
   \<Longrightarrow> restored root (foldl (get_file h root) gs items) item"
proof (induction items arbitrary: gs)
  case (Cons x items)
  let ?g = "get_file h root gs x"
  have m: "gs_missing ?g = gs_missing gs" "gs_missing (foldl (get_file h root) ?g items) = gs_missing ?g"
    using Cons.prems(2) missing_mono [of ?g h root items] missing_mono [of gs h root "[x]"] by simp_all
  show ?case
  proof (cases "item \<in> set items")
    case True
    with Cons.IH [of ?g] Cons.prems(1) m show ?thesis by (simp add: apart_Cons)
  next
    case False
    then have "item = x" using Cons.prems(3) by simp
    moreover have "aside h root (map fst items) (dest_of root (fst x))" using Cons.prems(1) by (simp add: apart_Cons)
    ultimately show ?thesis
      using get_file_restored [OF m(1)] get_files_other [of h root items "dest_of root (fst x)" ?g] get_file_store [of h root ?g items]
      by (simp add: restored_def)
  qed
qed simp

lemma get_batches_other:
  "aside h root entries q \<Longrightarrow> disk_of (get_batches h root entries gs) q = disk_of gs q \<and> gs_links (get_batches h root entries gs) q = gs_links gs q"
proof (induction h root entries gs rule: get_batches.induct)
  case (1 h root entries gs)
  show ?case
  proof (cases "entries = []")
    case True
    then show ?thesis by (simp add: get_batches.simps)
  next
    case False
    let ?batch = "take kBatch entries"
    obtain blobs c where b: "GetMany (h_zd h) (map (\<lambda>e. BlobKey (de_ref e)) ?batch) (w_cache (gs_world gs)) = (blobs, c)" by fastforce
    let ?items = "zip ?batch (blobs @ replicate (length ?batch - length blobs) None)"
    have "set (map fst ?items) \<subseteq> set entries" "set (drop kBatch entries) \<subseteq> set entries"
      by (auto dest!: set_zip_leftD dest: in_set_takeD in_set_dropD)
    then have "aside h root (map fst ?items) q" "aside h root (drop kBatch entries) q"
      using aside_sub [OF "1.prems"] by auto
    with "1.IH" [OF False refl b [symmetric] refl refl] get_files_other [of h root ?items q] show ?thesis
      using False by (subst (1 2) get_batches.simps) (simp add: Let_def b)
  qed
qed

lemma length_batch_answers [simp]: "length (batch_answers h entries c) = length entries"
proof (induction h entries c rule: batch_answers.induct)
  case (1 h entries c)
  then show ?case by (subst batch_answers.simps) (auto simp: Let_def split: prod.split)
qed

lemma zip_take_right: "zip xs (take (length xs) ys) = zip xs ys"
  by (induction xs arbitrary: ys) (auto simp: zip_Cons1 take_Cons' split: list.split)

lemma get_files_cache: "w_cache (gs_world (foldl (get_file h root) gs items)) = w_cache (gs_world gs)"
proof (induction items arbitrary: gs)
  case (Cons x items)
  have "w_cache (gs_world (get_file h root gs x)) = w_cache (gs_world gs)"
    using write_to_result(5) by (auto simp: get_file_def Let_def split: option.splits prod.splits bool.splits)
  with Cons show ?case by simp
qed simp

lemma get_batches_restored:
  "\<lbrakk>apart h root entries; gs_missing (get_batches h root entries gs) = gs_missing gs;
    item \<in> set (zip entries (batch_answers h entries (w_cache (gs_world gs))))\<rbrakk>
   \<Longrightarrow> restored root (get_batches h root entries gs) item"
proof (induction h root entries gs rule: get_batches.induct)
  case (1 h root entries gs)
  show ?case
  proof (cases "entries = []")
    case True
    with "1.prems"(3) show ?thesis by simp
  next
    case False
    let ?batch = "take kBatch entries" and ?rest = "drop kBatch entries"
    obtain blobs c where b: "GetMany (h_zd h) (map (\<lambda>e. BlobKey (de_ref e)) ?batch) (w_cache (gs_world gs)) = (blobs, c)" by fastforce
    obtain answers where a: "answers = take (length ?batch) (blobs @ replicate (length ?batch - length blobs) None)" by simp
    have la: "length answers = length ?batch" by (simp add: a)
    have items: "zip ?batch (blobs @ replicate (length ?batch - length blobs) None) = zip ?batch answers"
      by (simp only: a zip_take_right)
    define gs1 where "gs1 = foldl (get_file h root) (gs\<lparr>gs_world := (gs_world gs)\<lparr>w_cache := c\<rparr>\<rparr>) (zip ?batch answers)"
    have step: "get_batches h root entries gs = get_batches h root ?rest gs1"
      unfolding get_batches.simps [of h root entries gs] by (simp only: False if_False Let_def b prod.case items gs1_def)
    have ap: "apart h root ?batch" "apart h root ?rest" "\<forall>x \<in> set ?batch. aside h root ?rest (dest_of root x)"
      using apart_append [of h root ?batch ?rest] "1.prems"(1) by auto
    have c1: "w_cache (gs_world gs1) = c" by (simp add: gs1_def get_files_cache)
    have "zip entries (batch_answers h entries (w_cache (gs_world gs))) = zip ?batch answers @ zip ?rest (batch_answers h ?rest c)"
      using False zip_append [of ?batch answers ?rest "batch_answers h ?rest c"] la
      by (subst batch_answers.simps) (simp add: Let_def b a)
    then consider "item \<in> set (zip ?batch answers)" | "item \<in> set (zip ?rest (batch_answers h ?rest (w_cache (gs_world gs1))))"
      using "1.prems"(3) c1 by auto
    moreover have m: "gs_missing gs1 = gs_missing gs" "gs_missing (get_batches h root ?rest gs1) = gs_missing gs1"
    proof -
      have "tracked (\<lambda>_. True) gs1 (get_batches h root ?rest gs1)" by (rule tracked_batches) simp
      moreover have "gs_missing gs \<le> gs_missing gs1"
        using missing_mono [of "gs\<lparr>gs_world := (gs_world gs)\<lparr>w_cache := c\<rparr>\<rparr>" h root "zip ?batch answers"] by (simp add: gs1_def)
      ultimately show "gs_missing gs1 = gs_missing gs" "gs_missing (get_batches h root ?rest gs1) = gs_missing gs1"
        using "1.prems"(2) by (auto simp: step tracked_def)
    qed
    ultimately show ?thesis
    proof cases
      case first: 1
      have "restored root gs1 item"
        unfolding gs1_def by (rule get_files_restored) (use first ap(1) m(1) la in \<open>auto simp: gs1_def\<close>)
      moreover have "aside h root ?rest (dest_of root (fst item))" using first ap(3) set_zip_leftD [of "fst item" "snd item"] by simp
      moreover have "w_store (gs_world (get_batches h root ?rest gs1)) = w_store (gs_world gs1)"
        using tracked_batches [of ?rest "\<lambda>_. True" h root gs1] by (simp add: tracked_def)
      ultimately show ?thesis using get_batches_other [of h root ?rest _ gs1] by (simp add: step restored_def)
    next
      case 2
      from "1.IH" [OF False refl b [symmetric] refl gs1_def [folded items] ap(2) m(2) this] show ?thesis by (simp only: step)
    qed
  qed
qed

section \<open>The answer of the restore\<close>

lemma get_links_frame:
  "w_store (gs_world (foldl (get_link r root) gs es)) = w_store (gs_world gs)
   \<and> w_cache (gs_world (foldl (get_link r root) gs es)) = w_cache (gs_world gs)
   \<and> gs_missing (foldl (get_link r root) gs es) = gs_missing gs"
  by (induction es arbitrary: gs) (auto simp: get_link_def remove_path_def Let_def)

lemma get_links_other:
  "q \<notin> dest_of root ` set es \<Longrightarrow> gs_links (foldl (get_link r root) gs es) q = gs_links gs q"
  by (induction es arbitrary: gs) (auto simp: get_link_def remove_path_def Let_def)

lemma get_link_made:
  "\<lbrakk>de_kind e = CHR ''l''; d_symlink_ok r (dest_of root e)\<rbrakk> \<Longrightarrow> gs_links (get_link r root gs e) (dest_of root e) = Some (de_ref e)"
  by (simp add: get_link_def Let_def)

lemma get_links_made:
  "\<lbrakk>distinct (map (dest_of root) es); e \<in> set es; de_kind e = CHR ''l''; d_symlink_ok r (dest_of root e)\<rbrakk>
   \<Longrightarrow> gs_links (foldl (get_link r root) gs es) (dest_of root e) = Some (de_ref e)"
proof (induction es arbitrary: gs)
  case (Cons x es)
  show ?case
  proof (cases "e \<in> set es")
    case False
    with Cons.prems have "e = x" "dest_of root e \<notin> dest_of root ` set es" by auto
    with Cons.prems get_links_other [of "dest_of root e" root es r "get_link r root gs x"] show ?thesis
      by (simp add: get_link_made)
  qed (use Cons in simp)
qed simp


definition example_listing :: string where
  "example_listing = file_line 420 ''h'' ''a''"

definition example_tree_world :: world where
  "example_tree_world = example_world (example_client (answer store_zc (Some example_listing) @ answer store_zc (Some ''blob'')) 400)"


end
