(* ===== verification/Jig_Main.thy ===== *)
theory Jig_Main
  imports Nix_Daemon Fixup_Mode Go_Cache Rustc_Mode Dir_Mode
begin

text \<open>
  \<^verbatim>\<open>pkgs/ji/jig/src/main.cc\<close>: the choice of the mode, the modes \<^verbatim>\<open>cache\<close> and \<^verbatim>\<open>slot\<close>, and the call of every
  other mode.  The state is that of the compile modes together with what only one mode changes: links and
  permission bits, the connection to the store daemon, what is left of the standard input.
\<close>

section \<open>Model\<close>

record jig_host =
  jh_host :: host
  jh_rust :: rust_host
  jh_dir :: dir_host
  jh_fixup :: "store \<Rightarrow> fixup_host"
  jh_entries :: "string \<Rightarrow> Fixup_Mode.dir_entry list"
  jh_dump :: "json \<Rightarrow> string option"
  jh_nix :: "env \<Rightarrow> nix_host"

record jig_state =
  js_world :: world
  js_links :: "string \<Rightarrow> string option"
  js_chmods :: chmods
  js_modes :: "string \<Rightarrow> nat option"
  js_nix :: nix_store
  js_stdin :: line_reader

definition set_world :: "jig_state \<Rightarrow> cc_exit \<times> world \<Rightarrow> cc_exit \<times> jig_state" where
  "set_world s r = (fst r, s\<lparr>js_world := snd r\<rparr>)"

definition RunCacheMode :: "jig_host \<Rightarrow> string list \<Rightarrow> string \<Rightarrow> jig_state \<Rightarrow> cc_exit \<times> jig_state" where
  "RunCacheMode j args socket_path s =
     (let h = jh_host j; dh = (jh_dir j)\<lparr>d_host := h\<rparr>; w = js_world s in
      if length args \<noteq> 3 then (cc_exit.Exit 1, s)
      else if args ! 0 = ''put-dir'' then set_world s (PutDir dh socket_path (args ! 1) (args ! 2) w)
      else if args ! 0 = ''get-dir'' then
        (case GetDir dh socket_path (args ! 1) (args ! 2) (js_links s) w of (status, gs) \<Rightarrow>
           (cc_exit.Exit status, s\<lparr>js_world := gs_world gs, js_links := gs_links gs, js_chmods := js_chmods s @ gs_chmods gs\<rparr>))
      else case connect_to h socket_path w of
        (False, w1) \<Rightarrow> (cc_exit.Exit 2, s\<lparr>js_world := w1\<rparr>)
      | (True, w1) \<Rightarrow>
          (let key = args ! 1; path = args ! 2 in
           if args ! 0 = ''put'' then
             (case w_disk w1 path of
                Some data \<Rightarrow> (cc_exit.Exit 0, s\<lparr>js_world := put_to h key data w1\<rparr>)
              | None \<Rightarrow> (cc_exit.Exit 1, s\<lparr>js_world := w1\<rparr>))
           else
             (case get_from h key w1 of
                (None, w2) \<Rightarrow> (cc_exit.Exit 1, s\<lparr>js_world := w2\<rparr>)
              | (Some blob, w2) \<Rightarrow>
                  (case write_to h path blob w2 of (ok, w3) \<Rightarrow>
                     (cc_exit.Exit (if ok then 0 else 1), s\<lparr>js_world := w3\<rparr>)))))"

definition RunSlotMode :: "jig_host \<Rightarrow> string list \<Rightarrow> string \<Rightarrow> jig_state \<Rightarrow> cc_exit \<times> jig_state" where
  "RunSlotMode j args socket_path s =
     (let h = jh_host j; w = js_world s in
      case args of
        [] \<Rightarrow> set_world s (cc_exit.Exit 2, say ''usage: jig slot <program> [args...]'' w)
      | program # rest \<Rightarrow>
          (case Slot h socket_path w of (slot, w1) \<Rightarrow>
             (case Run h program rest kInherit w1 of (run, w2) \<Rightarrow>
                set_world s (cc_exit.Exit (int (run_status run)), Slot_destroy slot w2))))"

definition kUsage :: string where
  "kUsage = concat (map (\<lambda>line. line @ [newline])
     [''usage: jig <mode> [args...]   or via a symlink named after the mode'',
      [],
      ''  cc c++ <args>         compiler driver + compile cache (any other name too)'',
      ''  rustcwrap <args>      rustc through the cache'',
      ''  gocacheprog           GOCACHEPROG server on stdin/stdout'',
      ''  reloc-fixup <dir>     rewrite store references in an output tree'',
      ''  nix-store <args>      realise paths over the builder RPC socket'',
      ''  cache get|put <key> <file>, get-dir|put-dir <key> <dir>'',
      ''  slot <program> <args> run holding a jigd job slot'',
      [],
      ''  JIG_SOCK  jigd socket (default <store>/../var/nix/jigd/socket)'',
      ''  JIG_LOG, JIG_LOG_ARGS  per-invocation log files''])"

text \<open>The calls of the modes, each with the part of the state it works on.  \<^verbatim>\<open>nix-store\<close> reads the whole standard
  input.\<close>

definition nix_mode :: "jig_host \<Rightarrow> string list \<Rightarrow> jig_state \<Rightarrow> cc_exit \<times> jig_state" where
  "nix_mode j args s =
     (let w = js_world s; input = lr_pending (js_stdin s) @ concat (lr_reads (js_stdin s)) in
      case RunNixStoreMode (h_json (jh_host j)) (jh_dump j) (jh_nix j (w_env w)) (store_dir (w_store w)) args input (js_nix s) of
        (Abort, st) \<Rightarrow> (Terminated, s\<lparr>js_nix := st\<rparr>)
      | (nix_end.Exit status out_text, st) \<Rightarrow>
          (cc_exit.Exit (int status), s\<lparr>js_nix := st, js_world := w\<lparr>w_out := w_out w @ out_text\<rparr>\<rparr>))"

definition fixup_mode :: "jig_host \<Rightarrow> string list \<Rightarrow> jig_state \<Rightarrow> cc_exit \<times> jig_state" where
  "fixup_mode j args s =
     (let w = js_world s;
          f = \<lparr>f_errors = 0, f_disk = w_disk w, f_mode = js_modes s, f_err = [], f_out = [], f_img = [], f_log = [], f_dirty = False\<rparr>;
          lines = (\<lambda>ls. concat (map (\<lambda>l. l @ [newline]) ls)) in
      case RunFixupMode (jh_fixup j (w_store w)) (jh_entries j) args f of
        None \<Rightarrow> (Terminated, s)
      | Some (status, f1) \<Rightarrow>
          (cc_exit.Exit (int status),
           s\<lparr>js_modes := f_mode f1,
             js_world := w\<lparr>w_disk := f_disk f1, w_out := w_out w @ lines (f_out f1), w_err := w_err w @ lines (f_err f1)\<rparr>\<rparr>))"

definition go_mode :: "jig_host \<Rightarrow> string \<Rightarrow> jig_state \<Rightarrow> cc_exit \<times> jig_state" where
  "go_mode j socket_path s =
     (case RunGoCacheProg (jh_host j) socket_path (js_stdin s) (js_world s) of
        (status, w) \<Rightarrow> (cc_exit.Exit status, s\<lparr>js_world := w\<rparr>))"

definition rustc_mode :: "jig_host \<Rightarrow> string list \<Rightarrow> string \<Rightarrow> jig_state \<Rightarrow> cc_exit \<times> jig_state" where
  "rustc_mode j args socket_path s =
     (case RunRustcMode ((jh_rust j)\<lparr>r_host := jh_host j\<rparr>) args socket_path (js_world s) of
        (status, cm, w) \<Rightarrow> (cc_exit.Exit status, s\<lparr>js_chmods := js_chmods s @ cm, js_world := w\<rparr>))"

definition run_mode :: "jig_host \<Rightarrow> string \<Rightarrow> string \<Rightarrow> string list \<Rightarrow> jig_state \<Rightarrow> cc_exit \<times> jig_state" where
  "run_mode j socket_path mode args s =
     (if mode = ''nix-store'' then nix_mode j args s
      else if mode = ''cache'' then RunCacheMode j args socket_path s
      else if mode = ''slot'' then RunSlotMode j args socket_path s
      else if mode = ''gocacheprog'' then go_mode j socket_path s
      else if mode = ''rustcwrap'' then rustc_mode j args socket_path s
      else if mode = ''reloc-fixup'' then fixup_mode j args s
      else set_world s (RunCcMode (jh_host j) mode args socket_path (js_world s)))"

definition jig_main :: "jig_host \<Rightarrow> string list \<Rightarrow> jig_state \<Rightarrow> cc_exit \<times> jig_state" where
  "jig_main j argv s =
     (let w = js_world s;
          socket_path = Env (w_env w) ''JIG_SOCK'' (StateDir (w_store w) @ ''/jigd/socket'');
          mode = (if argv = [] then [] else path_filename (argv ! 0));
          args = (if argv = [] then [] else drop 1 argv) in
      if mode = ''jig'' then
        (if args = [] then set_world s (cc_exit.Exit 2, w\<lparr>w_err := w_err w @ kUsage\<rparr>)
         else if args ! 0 = ''--help'' \<or> args ! 0 = ''-h'' then set_world s (cc_exit.Exit 0, w\<lparr>w_out := w_out w @ kUsage\<rparr>)
         else run_mode j socket_path (args ! 0) (drop 1 args) s)
      else run_mode j socket_path mode args s)"

section \<open>Properties\<close>

lemma path_filename_last: "slash \<notin> set m \<Longrightarrow> path_filename (d @ slash # m) = m"
proof -
  assume "slash \<notin> set m"
  then have "takeWhile (\<lambda>c. c \<noteq> slash) (rev m @ slash # rev d) = rev m @ takeWhile (\<lambda>c. c \<noteq> slash) (slash # rev d)"
    by (intro takeWhile_append2) auto
  then show ?thesis by (simp add: path_filename_def)
qed

text \<open>A mode is the same program under either name: run as \<^verbatim>\<open>jig <mode> <args>\<close> and run through a symbolic link
  called after the mode, every mode does the same and returns the same status.  The mode is a plain
  name, not \<^verbatim>\<open>jig\<close> itself and no option asking for help.\<close>

lemma mode_by_name_or_argument:
  assumes "slash \<notin> set mode" "mode \<notin> {''jig'', ''--help'', ''-h''}"
  shows "jig_main j ((dir @ ''/jig'') # mode # args) s = jig_main j ((dir' @ slash # mode) # args) s"
  using assms path_filename_last [of "''jig''" dir] path_filename_last [of mode dir']
  by (simp add: jig_main_def Let_def)

theorem mode_by_name_or_argument_witness:
  "\<forall>j s. jig_main j [''/b/jig'', ''slot''] s = jig_main j [''/c/slot''] s \<and> fst (jig_main j [''/c/slot''] s) = cc_exit.Exit 2"
proof (intro allI)
  fix j s
  show "jig_main j [''/b/jig'', ''slot''] s = jig_main j [''/c/slot''] s \<and> fst (jig_main j [''/c/slot''] s) = cc_exit.Exit 2"
    using mode_by_name_or_argument [of "''slot''" j "''/b''" "[]" s "''/c''"]
    by (simp add: jig_main_def run_mode_def RunSlotMode_def set_world_def path_filename_def)
qed

text \<open>A daemon accepts a connection at the socket the program uses; the connection is \<open>jig_conn\<close>.\<close>

definition jig_socket :: "jig_state \<Rightarrow> string" where
  "jig_socket s = Env (w_env (js_world s)) ''JIG_SOCK'' (StateDir (w_store (js_world s)) @ ''/jigd/socket'')"

definition daemon_accepts :: "jig_host \<Rightarrow> jig_state \<Rightarrow> bool" where
  "daemon_accepts j s \<longleftrightarrow> h_socket (jh_host j) (jig_socket s) = (True, False) \<and> length (jig_socket s) < h_sun_path (jh_host j)"

definition jig_conn :: "jig_state \<Rightarrow> client" where
  "jig_conn s = (w_cache (js_world s))\<lparr>valid_fd := True\<rparr>"

lemma daemon_accepts_connect:
  assumes "daemon_accepts j s"
  shows "connect_to (jh_host j) (jig_socket s) (js_world s) = (True, (js_world s)\<lparr>w_cache := jig_conn s\<rparr>)"
  using assms by (simp add: daemon_accepts_def connect_to_def Connect_def jig_conn_def)

lemma jig_cache_run:
  "jig_main j [''jig'', ''cache'', verb, key, path] s = RunCacheMode j [verb, key, path] (jig_socket s) s"
  by (simp add: jig_main_def run_mode_def jig_socket_def path_filename_def Let_def)

text \<open>C9. A file goes through the cache unchanged: \<^verbatim>\<open>jig cache put\<close> of a file succeeds and sends its compressed bytes
  under the key, and \<^verbatim>\<open>jig cache get\<close>, on any machine whose daemon answers with these bytes, succeeds and leaves a
  file with the same contents; no other file changes than the temporary one beside it.\<close>

theorem cache_put_get_copies_file:
  fixes j s j' s' v key src dst
  defines "wire \<equiv> Compress (h_zc (jh_host j)) v"
    and "put \<equiv> jig_main j [''jig'', ''cache'', ''put'', key, src] s"
    and "got \<equiv> jig_main j' [''jig'', ''cache'', ''get'', key, dst] s'"
  assumes "daemon_accepts j s" "w_disk (js_world s) src = Some v" "storable (h_zc (jh_host j)) (h_zd (jh_host j')) v"
    and "can_send (length (''PUT '' @ key @ '' '' @ to_decimal (length wire) @ [newline]) + length wire) (jig_conn s)"
    and "daemon_accepts j' s'" "can_send (length (''GET '' @ key @ [newline])) (jig_conn s')"
    and "stream (jig_conn s') = ''OK '' @ to_decimal (length wire) @ [newline] @ wire @ r"
    and "host.h_write (jh_host j') dst = \<lparr>opened = True, accepted = None, renamed = True\<rparr>"
  shows "fst put = cc_exit.Exit 0
    \<and> sent (w_cache (js_world (snd put))) = sent (jig_conn s) @ ''PUT '' @ key @ '' '' @ to_decimal (length wire) @ [newline] @ wire
    \<and> fst got = cc_exit.Exit 0 \<and> w_disk (js_world (snd got)) dst = Some v
    \<and> (\<forall>q. q \<noteq> dst \<longrightarrow> q \<noteq> tmp_name (host.h_pid (jh_host j')) dst \<longrightarrow> w_disk (js_world (snd got)) q = w_disk (js_world s') q)"
proof -
  have "put = (cc_exit.Exit 0, s\<lparr>js_world := put_to (jh_host j) key v ((js_world s)\<lparr>w_cache := jig_conn s\<rparr>)\<rparr>)"
    using daemon_accepts_connect [OF assms(4)] assms(5) by (simp add: put_def jig_cache_run RunCacheMode_def)
  moreover have "sent (Put (h_zc (jh_host j)) key v (jig_conn s)) =
      sent (jig_conn s) @ ''PUT '' @ key @ '' '' @ to_decimal (length wire) @ [newline] @ wire"
    using Put_sends [OF assms(6)] assms(7) by (simp add: wire_def)
  moreover obtain c where "Get (h_zd (jh_host j')) key (jig_conn s') = (Some v, c)"
    using Get_answered [OF assms(6,9)] assms(10) by (cases "Get (h_zd (jh_host j')) key (jig_conn s')") (auto simp: wire_def)
  then have "get_from (jh_host j') key ((js_world s')\<lparr>w_cache := jig_conn s'\<rparr>) = (Some v, (js_world s')\<lparr>w_cache := c\<rparr>)"
    by (simp add: get_from_def)
  then have "got = (cc_exit.Exit 0, s'\<lparr>js_world :=
      (js_world s')\<lparr>w_cache := c, w_disk := put_file (host.h_pid (jh_host j')) dst v (w_disk (js_world s'))\<rparr>\<rparr>)"
    using daemon_accepts_connect [OF assms(8)] write_to_ok [OF assms(11)] by (simp add: got_def jig_cache_run RunCacheMode_def)
  ultimately show ?thesis by (simp add: put_to_def put_file_def)
qed

definition example_jig_host :: jig_host where
  "example_jig_host =
     \<lparr>jh_host = example_host, jh_rust = example_rust_host, jh_dir = example_dir_host, jh_fixup = (\<lambda>_. example_fix_host),
      jh_entries = (\<lambda>_. []), jh_dump = (\<lambda>_. None),
      jh_nix = (\<lambda>_. \<lparr>nix_remote = [], nix_offline = [], sun_path_size = 108, socket_fails = False, connect_fails = False\<rparr>)\<rparr>"

definition example_jig_state :: "client \<Rightarrow> jig_state" where
  "example_jig_state c =
     \<lparr>js_world = (example_world c)\<lparr>w_env := [''JIG_SOCK'' \<mapsto> ''/s'']\<rparr>, js_links = Map.empty, js_chmods = [], js_modes = Map.empty,
      js_nix = \<lparr>offline = False, daemon_conn = \<lparr>d_rx = [], d_tx = [], d_sent = [], d_out = [], d_log = []\<rparr>\<rparr>,
      js_stdin = \<lparr>lr_pending = [], lr_reads = []\<rparr>\<rparr>"

theorem cache_put_get_copies_file_witness:
  "\<exists>c. w_disk (js_world (snd (jig_main example_jig_host [''jig'', ''cache'', ''get'', ''k'', ''b.c''] (example_jig_state c)))) ''b.c''
     = Some ''int y;''"
proof -
  let ?w = "Compress store_zc ''int y;''"
  have l: "length ?w = 10" by (simp add: Compress_def store_zc_def kHeader_def)
  have d: "length (to_decimal 10) = 2" by (simp add: to_base.simps [of 10 10] to_base.simps [of 10 "Suc 0"])
  let ?c = "example_client (''OK '' @ to_decimal (length ?w) @ [newline] @ ?w) 60"
  have conn: "jig_conn (example_jig_state (example_client x n)) = example_client x n" for x n
    by (simp add: jig_conn_def example_jig_state_def example_world_def example_client_def)
  have acc: "daemon_accepts example_jig_host (example_jig_state x)" for x
    by (simp add: daemon_accepts_def example_jig_host_def example_host_def jig_socket_def example_jig_state_def Env_def)
  have z: "h_zc (jh_host example_jig_host) = store_zc" "h_zd (jh_host example_jig_host) = store_zd"
    by (simp_all add: example_jig_host_def example_host_def)
  have "w_disk (js_world (snd (jig_main example_jig_host [''jig'', ''cache'', ''get'', ''k'', ''b.c''] (example_jig_state ?c)))) ''b.c''
     = Some ''int y;''"
    by (rule cache_put_get_copies_file [where j = example_jig_host and s = "example_jig_state (example_client [] 60)"
            and src = "''a.c''" and r = "[]", THEN conjunct2, THEN conjunct2, THEN conjunct2, THEN conjunct1])
       (simp_all add: acc z conn stream_example can_send_example storable_example l d,
        simp_all add: example_jig_state_def example_world_def example_jig_host_def example_host_def)
  then show ?thesis by blast
qed

end
