(* ===== verification/Launch.thy ===== *)
theory Launch
  imports Jig_Driver "HOL-Library.List_Lexorder" "HOL-Library.Char_ord"
begin

text \<open>
  The launcher behind scripts and wrapped programs, \<^verbatim>\<open>pkgs/la/launch/src/launch.cc\<close>.  \<^verbatim>\<open>Die\<close> ends the process with
  status 127: a step that may die gives \<open>Inl\<close> the message.  The environment operations differ between
  the systems; they are the fields of a record \<open>platform\<close> over the type of the environment, so that
  \<^verbatim>\<open>ApplyEnv\<close> is written once.  File system answers and the JSON parser are a record \<open>launch_host\<close>;
  an object of the parser is iterated in the order of its keys, as \<^verbatim>\<open>std::map\<close> does.  The POSIX half is
  modelled from \<^verbatim>\<open>main\<close> to \<^verbatim>\<open>execv\<close>; of the Windows half the environment, the command line and the child
  process are, over UTF-16 units, but not its path syntax.
\<close>

section \<open>Model: dying\<close>

type_synonym 'a res = "string + 'a"

definition kExitLaunchFailure :: nat where "kExitLaunchFailure = 127"

definition Die :: "string \<Rightarrow> string \<Rightarrow> 'a res" where
  "Die what arg = Inl (''launch: '' @ what @ (if arg = [] then [] else '': '') @ arg @ [newline])"

definition and_then :: "'a res \<Rightarrow> ('a \<Rightarrow> 'b res) \<Rightarrow> 'b res" where
  "and_then r f = (case r of Inl msg \<Rightarrow> Inl msg | Inr x \<Rightarrow> f x)"

lemma and_then_simps [simp]: "and_then (Inl msg) f = Inl msg" "and_then (Inr x) f = f x"
  by (simp_all add: and_then_def)

lemma and_then_Inr: "and_then r f = Inr y \<longleftrightarrow> (\<exists>x. r = Inr x \<and> f x = Inr y)"
  by (cases r) auto

lemma Die_not_Inr [simp]: "Die what arg \<noteq> Inr x"
  by (simp add: Die_def)

fun seq_all :: "('a \<Rightarrow> 'b res) \<Rightarrow> 'a list \<Rightarrow> 'b list res" where
  "seq_all f [] = Inr []"
| "seq_all f (x # xs) = and_then (f x) (\<lambda>y. and_then (seq_all f xs) (\<lambda>ys. Inr (y # ys)))"

fun seq_state :: "('a \<Rightarrow> 's \<Rightarrow> 's res) \<Rightarrow> 'a list \<Rightarrow> 's \<Rightarrow> 's res" where
  "seq_state f [] s = Inr s"
| "seq_state f (x # xs) s = and_then (f x s) (seq_state f xs)"

section \<open>Model: the record\<close>

record context_paths =
  ctx_root :: string
  ctx_store :: string
  ctx_self :: string
  ctx_argv0 :: string

definition Expand :: "string \<Rightarrow> context_paths \<Rightarrow> string" where
  "Expand str ctx =
     foldl (\<lambda>str (key, val). replace_loop key val str 0) str
       [(''{root}'', ctx_root ctx), (''{store}'', ctx_store ctx), (''{self}'', ctx_self ctx), (''{argv0}'', ctx_argv0 ctx)]"

definition Str :: "json \<Rightarrow> string \<Rightarrow> string res" where
  "Str val what = (case val of JString s \<Rightarrow> Inr s | _ \<Rightarrow> Die ''not a string in record'' what)"

definition StringList :: "json \<Rightarrow> context_paths \<Rightarrow> string list res" where
  "StringList val ctx =
     (case val of
        JString s \<Rightarrow> Inr [Expand s ctx]
      | JArray elems \<Rightarrow> seq_all (\<lambda>elem. and_then (Str elem ''list element'') (\<lambda>s. Inr (Expand s ctx))) elems
      | _ \<Rightarrow> Die ''env value must be string or array'' [])"

fun join_from :: "nat \<Rightarrow> string list \<Rightarrow> string \<Rightarrow> string \<Rightarrow> string" where
  "join_from i [] sep out = out"
| "join_from i (part # parts) sep out = join_from (i + 1) parts sep ((if i \<noteq> 0 then out @ sep else out) @ part)"

definition Launch_Join :: "string list \<Rightarrow> string \<Rightarrow> string" where
  "Launch_Join parts sep = join_from 0 parts sep []"

record 'e platform =
  pl_sep :: string
  pl_get :: "string \<Rightarrow> 'e \<Rightarrow> string option res"
  pl_set :: "string \<Rightarrow> string \<Rightarrow> 'e \<Rightarrow> 'e res"
  pl_unset :: "string \<Rightarrow> 'e \<Rightarrow> 'e res"

definition apply_op :: "'e platform \<Rightarrow> string \<Rightarrow> string \<Rightarrow> context_paths \<Rightarrow> string \<times> json \<Rightarrow> 'e \<Rightarrow> 'e res" where
  "apply_op pl name sep ctx item e =
     (case item of (oper, val) \<Rightarrow>
        if oper = ''sep'' then Inr e
        else and_then (pl_get pl name e) (\<lambda>cur.
          if oper = ''unset'' then pl_unset pl name e
          else if oper = ''set'' then and_then (StringList val ctx) (\<lambda>parts. pl_set pl name (Launch_Join parts sep) e)
          else if oper = ''default'' then
            (if cur = None then and_then (StringList val ctx) (\<lambda>parts. pl_set pl name (Launch_Join parts sep) e) else Inr e)
          else if oper = ''prepend'' \<or> oper = ''append'' then
            and_then (StringList val ctx) (\<lambda>parts.
              let parts = (case cur of
                    Some c \<Rightarrow> if c = [] then parts else if oper = ''prepend'' then parts @ [c] else c # parts
                  | None \<Rightarrow> parts)
              in pl_set pl name (Launch_Join parts sep) e)
          else Die ''unknown env op'' oper))"

definition json_items :: "(string \<times> json) list \<Rightarrow> (string \<times> json) list" where
  "json_items mem = sort_key fst mem"

definition ApplyEnv :: "'e platform \<Rightarrow> context_paths \<Rightarrow> string \<times> json \<Rightarrow> 'e \<Rightarrow> 'e res" where
  "ApplyEnv pl ctx entry e =
     (case entry of (name, spec) \<Rightarrow>
        case spec of
          JObject mem \<Rightarrow>
            and_then (case map_of mem ''sep'' of Some v \<Rightarrow> Str v ''sep'' | None \<Rightarrow> Inr (pl_sep pl)) (\<lambda>sep.
              seq_state (apply_op pl name sep ctx) (json_items mem) e)
        | _ \<Rightarrow> Die ''env entry must be an object'' name)"

section \<open>Model: POSIX\<close>

record launch_host =
  l_canonical :: "string \<Rightarrow> string + string"
  l_absolute :: "string \<Rightarrow> string"
  l_access :: "string \<Rightarrow> bool"
  l_read_symlink :: "string \<Rightarrow> string option"
  l_read :: "string \<Rightarrow> string option"
  l_json :: "string \<Rightarrow> json"
  l_errno :: string
  l_exec :: "string \<Rightarrow> bool"

type_synonym posix_env = "string \<Rightarrow> string option"

definition cstr :: "string \<Rightarrow> string" where
  "cstr s = takeWhile (\<lambda>c. c \<noteq> CHR 0x00) s"

definition env_name_ok :: "string \<Rightarrow> bool" where
  "env_name_ok name \<longleftrightarrow> cstr name \<noteq> [] \<and> CHR ''='' \<notin> set (cstr name)"

definition Canonical :: "launch_host \<Rightarrow> string \<Rightarrow> string res" where
  "Canonical h path = (case l_canonical h path of Inl err \<Rightarrow> Die err path | Inr out \<Rightarrow> Inr out)"

definition GetEnv :: "string \<Rightarrow> posix_env \<Rightarrow> string option res" where
  "GetEnv name e = Inr (e (cstr name))"

definition SetEnv :: "launch_host \<Rightarrow> string \<Rightarrow> string \<Rightarrow> posix_env \<Rightarrow> posix_env res" where
  "SetEnv h name val e = (if env_name_ok name then Inr (e(cstr name \<mapsto> cstr val)) else Die (l_errno h) name)"

definition UnsetEnv :: "string \<Rightarrow> posix_env \<Rightarrow> posix_env res" where
  "UnsetEnv name e = Inr (if env_name_ok name then e(cstr name := None) else e)"

definition posix :: "launch_host \<Rightarrow> posix_env platform" where
  "posix h = \<lparr>pl_sep = '':'', pl_get = GetEnv, pl_set = SetEnv h, pl_unset = UnsetEnv\<rparr>"

function path_search :: "launch_host \<Rightarrow> string \<Rightarrow> string \<Rightarrow> nat \<Rightarrow> string res" where
  "path_search h path argv0 pos =
     (if pos \<le> length path then
        (let e = (case str_find path '':'' pos of None \<Rightarrow> length path | Some e \<Rightarrow> e);
             cand = path_append (take (e - pos) (drop pos path)) argv0
         in if l_access h (cstr cand) then Inr (l_absolute h cand)
            else path_search h path argv0 (e + 1))
      else Die ''not found on PATH'' argv0)"
  by pat_completeness auto
termination
  by (relation "measure (\<lambda>(h, path, argv0, pos). length path + 1 - pos)") (auto dest: str_find_bounds split: option.splits)

declare path_search.simps [simp del]

definition Argv0Path :: "launch_host \<Rightarrow> posix_env \<Rightarrow> string \<Rightarrow> string res" where
  "Argv0Path h e argv0 =
     (if str_contains argv0 ''/'' then Inr (l_absolute h argv0)
      else case e ''PATH'' of
        None \<Rightarrow> Die ''argv[0] has no '/' and PATH is unset'' argv0
      | Some path \<Rightarrow> path_search h path argv0 0)"

definition kMaxHops :: nat where "kMaxHops = 32"

fun follow_links :: "launch_host \<Rightarrow> string \<Rightarrow> nat \<Rightarrow> string \<Rightarrow> string res" where
  "follow_links h argv0 0 cur = Die ''symlink loop'' argv0"
| "follow_links h argv0 (Suc n) cur =
     (case l_read_symlink h cur of
        None \<Rightarrow> Die ''not a launcher symlink'' cur
      | Some target \<Rightarrow>
          if path_filename target = ''launch''
          then and_then (Canonical h (parent_path cur)) (\<lambda>dir. Inr (path_append dir (path_filename cur)))
          else follow_links h argv0 n (if is_absolute target then target else path_append (parent_path cur) target))"

definition InvokedPath :: "launch_host \<Rightarrow> posix_env \<Rightarrow> string \<Rightarrow> string res" where
  "InvokedPath h e argv0 = and_then (Argv0Path h e argv0) (follow_links h argv0 kMaxHops)"

definition context_of :: "string \<Rightarrow> string \<Rightarrow> context_paths" where
  "context_of argv0 self =
     (let bindir = parent_path self in
      \<lparr>ctx_root = parent_path bindir, ctx_store = parent_path (parent_path bindir), ctx_self = self, ctx_argv0 = argv0\<rparr>)"

definition record_path :: "string \<Rightarrow> string" where
  "record_path self = path_append (parent_path self) (''.'' @ path_filename self @ ''.launch'')"

definition read_record :: "launch_host \<Rightarrow> string \<Rightarrow> (string \<times> json) list res" where
  "read_record h recpath =
     (case l_read h recpath of
        None \<Rightarrow> Die ''cannot read record'' recpath
      | Some str \<Rightarrow>
          (case l_json h str of
             JObject mem \<Rightarrow> if map_of mem ''program'' = None then Die ''record lacks program'' recpath else Inr mem
           | _ \<Rightarrow> Die ''bad record'' recpath))"

record exec_call =
  ex_program :: string
  ex_argv :: "string list"
  ex_env :: posix_env

definition apply_record :: "launch_host \<Rightarrow> context_paths \<Rightarrow> string \<Rightarrow> (string \<times> json) list \<Rightarrow> string list \<Rightarrow> posix_env \<Rightarrow> exec_call res" where
  "apply_record h ctx recpath mem args e =
     and_then (Str (the (map_of mem ''program'')) ''program'') (\<lambda>program_text.
       let program = Expand program_text ctx in
       and_then (case map_of mem ''argv0'' of
                   Some v \<Rightarrow> and_then (Str v ''argv0'') (\<lambda>s. Inr (Expand s ctx)) | None \<Rightarrow> Inr program) (\<lambda>argv0.
       and_then (case map_of mem ''args'' of Some v \<Rightarrow> StringList v ctx | None \<Rightarrow> Inr []) (\<lambda>pre.
       and_then (case map_of mem ''env'' of
                   Some (JObject vars) \<Rightarrow> seq_state (ApplyEnv (posix h) ctx) (json_items vars) e
                 | Some _ \<Rightarrow> Die ''env must be an object'' recpath
                 | None \<Rightarrow> Inr e) (\<lambda>e1.
       if l_exec h (cstr program)
       then Inr \<lparr>ex_program = cstr program, ex_argv = map cstr (argv0 # pre @ tl args), ex_env = e1\<rparr>
       else Die (l_errno h) program))))"

text \<open>\<^verbatim>\<open>main\<close>: the call of \<^verbatim>\<open>execv\<close> that replaces the process, or the message it dies with.\<close>

definition launch_main :: "launch_host \<Rightarrow> string list \<Rightarrow> posix_env \<Rightarrow> exec_call res" where
  "launch_main h args e =
     (if args = [] then Die ''no argv[0]'' []
      else and_then (InvokedPath h e (hd args)) (\<lambda>self.
        let ctx = context_of (hd args) self; recpath = record_path self in
        and_then (read_record h recpath) (\<lambda>mem. apply_record h ctx recpath mem args e)))"

section \<open>Model: Windows\<close>

type_synonym wstring = "nat list"

record win_host =
  wh_wide :: "string \<Rightarrow> wstring option"
  wh_narrow :: "wstring \<Rightarrow> string option"
  wh_fold :: "wstring \<Rightarrow> wstring"
  wh_refetch :: "wstring \<Rightarrow> nat"
  wh_set_ok :: "wstring \<Rightarrow> bool"

type_synonym win_env = "wstring \<Rightarrow> wstring option"

definition wcstr :: "wstring \<Rightarrow> wstring" where
  "wcstr s = takeWhile (\<lambda>c. c \<noteq> 0) s"

definition Wide :: "win_host \<Rightarrow> string \<Rightarrow> wstring res" where
  "Wide h s = (if s = [] then Inr [] else case wh_wide h s of None \<Rightarrow> Die ''not UTF-8'' s | Some w \<Rightarrow> Inr w)"

definition Narrow :: "win_host \<Rightarrow> wstring \<Rightarrow> string res" where
  "Narrow h w = (if w = [] then Inr [] else case wh_narrow h w of None \<Rightarrow> Die ''WideCharToMultiByte failed'' [] | Some s \<Rightarrow> Inr s)"

text \<open>The size query counts the terminator, so that an empty variable is not a missing one; the second call
  gives the length it fetched.\<close>

definition win_GetEnv :: "win_host \<Rightarrow> string \<Rightarrow> win_env \<Rightarrow> string option res" where
  "win_GetEnv h name e =
     and_then (Wide h name) (\<lambda>wname.
       case e (wh_fold h (wcstr wname)) of
         None \<Rightarrow> Inr None
       | Some val \<Rightarrow>
           if wh_refetch h val \<ge> length val + 1 then Die ''GetEnvironmentVariable failed'' name
           else and_then (Narrow h (take (wh_refetch h val) val)) (\<lambda>s. Inr (Some s)))"

definition win_SetEnv :: "win_host \<Rightarrow> string \<Rightarrow> string \<Rightarrow> win_env \<Rightarrow> win_env res" where
  "win_SetEnv h name val e =
     and_then (Wide h name) (\<lambda>wname. and_then (Wide h val) (\<lambda>wval.
       if wh_set_ok h (wcstr wname) then Inr (e(wh_fold h (wcstr wname) \<mapsto> wcstr wval))
       else Die ''SetEnvironmentVariable failed'' name))"

definition win_UnsetEnv :: "win_host \<Rightarrow> string \<Rightarrow> win_env \<Rightarrow> win_env res" where
  "win_UnsetEnv h name e =
     and_then (Wide h name) (\<lambda>wname.
       Inr (if wh_set_ok h (wcstr wname) then e(wh_fold h (wcstr wname) := None) else e))"

definition windows :: "win_host \<Rightarrow> win_env platform" where
  "windows h = \<lparr>pl_sep = '';'', pl_get = win_GetEnv h, pl_set = win_SetEnv h, pl_unset = win_UnsetEnv h\<rparr>"

abbreviation wslash :: nat where "wslash \<equiv> 92"
abbreviation wquote :: nat where "wquote \<equiv> 34"
abbreviation wspace :: nat where "wspace \<equiv> 32"
abbreviation wtab :: nat where "wtab \<equiv> 9"

definition arg_char :: "wstring \<times> nat \<Rightarrow> nat \<Rightarrow> wstring \<times> nat" where
  "arg_char st chr =
     (case st of (line, slashes) \<Rightarrow>
        if chr = wslash then (line, slashes + 1)
        else (line @ replicate (if chr = wquote then slashes * 2 + 1 else slashes) wslash @ [chr], 0))"

definition AppendArg :: "wstring \<Rightarrow> wstring \<Rightarrow> wstring" where
  "AppendArg line arg =
     (case foldl arg_char (line @ [wspace, wquote], 0) arg of (line1, slashes) \<Rightarrow>
        line1 @ replicate (slashes * 2) wslash @ [wquote])"

definition UserArgs :: "wstring \<Rightarrow> wstring" where
  "UserArgs rest =
     (if rest \<noteq> [] \<and> hd rest = wquote
      then (case str_find rest [wquote] 1 of None \<Rightarrow> [] | Some e \<Rightarrow> drop (e + 1) rest)
      else dropWhile (\<lambda>c. c \<noteq> wspace \<and> c \<noteq> wtab) rest)"

definition command_line :: "wstring \<Rightarrow> wstring list \<Rightarrow> wstring \<Rightarrow> wstring" where
  "command_line argv0 pre own = foldl AppendArg (AppendArg [] argv0) pre @ UserArgs own"

record win_calls =
  wc_job :: bool
  wc_limit :: bool
  wc_create :: bool
  wc_resume :: bool
  wc_wait :: bool
  wc_code :: "nat option"
  wc_error :: string

definition LastError :: "win_calls \<Rightarrow> string \<Rightarrow> string" where
  "LastError calls call = call @ '' failed ('' @ wc_error calls @ '')''"

text \<open>The exit code of the child started with the command line, or the message the launcher dies with.\<close>

definition win_Run :: "win_host \<Rightarrow> win_calls \<Rightarrow> string \<Rightarrow> string \<Rightarrow> string list \<Rightarrow> wstring \<Rightarrow> (wstring \<times> nat) res" where
  "win_Run h calls program argv0 pre own =
     and_then (Wide h argv0) (\<lambda>wargv0. and_then (seq_all (Wide h) pre) (\<lambda>wpre.
       let line = command_line wargv0 wpre own in
       if \<not> wc_job calls \<or> \<not> wc_limit calls then Die (LastError calls ''CreateJobObject'') []
       else if \<not> wc_create calls then Die (LastError calls ''CreateProcess'') program
       else if \<not> wc_resume calls then Die (LastError calls ''ResumeThread'') program
       else if \<not> wc_wait calls then Die (LastError calls ''WaitForSingleObject'') program
       else case wc_code calls of
         None \<Rightarrow> Die (LastError calls ''WaitForSingleObject'') program
       | Some code \<Rightarrow> Inr (drop 1 line, code)))"

section \<open>Placeholders\<close>

text \<open>A text of a record as its writer means it: characters and placeholders.\<close>

datatype piece = Lit char | Root | Store | Self | Argv0

fun piece_text :: "piece \<Rightarrow> string" where
  "piece_text (Lit c) = [c]"
| "piece_text Root = ''{root}''"
| "piece_text Store = ''{store}''"
| "piece_text Self = ''{self}''"
| "piece_text Argv0 = ''{argv0}''"

fun piece_value :: "context_paths \<Rightarrow> piece \<Rightarrow> string" where
  "piece_value ctx (Lit c) = [c]"
| "piece_value ctx Root = ctx_root ctx"
| "piece_value ctx Store = ctx_store ctx"
| "piece_value ctx Self = ctx_self ctx"
| "piece_value ctx Argv0 = ctx_argv0 ctx"

definition placeholder :: "string \<Rightarrow> bool" where
  "placeholder key \<longleftrightarrow> (\<exists>w. key = CHR ''{'' # w @ ''}'' \<and> CHR ''{'' \<notin> set w \<and> CHR ''}'' \<notin> set w)"

definition no_brace :: "string \<Rightarrow> bool" where
  "no_brace s \<longleftrightarrow> CHR ''{'' \<notin> set s"

lemma placeholder_keys: "placeholder ''{root}''" "placeholder ''{store}''" "placeholder ''{self}''" "placeholder ''{argv0}''"
  unfolding placeholder_def
  by (rule exI [of _ "''root''"], simp) (rule exI [of _ "''store''"], simp, rule exI [of _ "''self''"], simp, rule exI [of _ "''argv0''"], simp)

lemma placeholder_prefix:
  assumes "placeholder key" "placeholder t" "starts_with (t @ s) key"
  shows "t = key"
proof -
  obtain v w where k: "key = CHR ''{'' # v @ ''}''" "CHR ''}'' \<notin> set v" and t: "t = CHR ''{'' # w @ ''}''" "CHR ''}'' \<notin> set w"
    using assms(1,2) by (auto simp: placeholder_def)
  obtain r where "w @ CHR ''}'' # s = v @ CHR ''}'' # r" using assms(3) k t by (auto simp: starts_with_iff)
  then have "takeWhile (\<lambda>c. c \<noteq> CHR ''}'') (w @ CHR ''}'' # s) = takeWhile (\<lambda>c. c \<noteq> CHR ''}'') (v @ CHR ''}'' # r)" by simp
  then have "w = v" using k(2) t(2) by (simp add: takeWhile_append_char)
  with k t show ?thesis by simp
qed

lemma no_brace_skip:
  assumes "placeholder key" "no_brace a"
  shows "subst_all key into (a @ s) = a @ subst_all key into s"
proof (rule subst_all_skip)
  fix i assume "i < length a"
  then have "drop i (a @ s) = a ! i # drop (Suc i) a @ s" "a ! i \<in> set a"
    by (simp_all add: Cons_nth_drop_Suc [symmetric])
  moreover from this have "a ! i \<noteq> CHR ''{''" using assms(2) by (metis no_brace_def)
  ultimately show "\<not> starts_with (drop i (a @ s)) key" using assms(1) by (auto simp: placeholder_def starts_with_Cons)
qed

lemma subst_blocks:
  "\<lbrakk>placeholder key; \<forall>t \<in> set ts. no_brace t \<or> placeholder t\<rbrakk>
   \<Longrightarrow> subst_all key into (concat ts) = concat (map (\<lambda>t. if t = key then into else t) ts)"
proof (induction ts)
  case (Cons t ts)
  have ne: "key \<noteq> []" "\<not> no_brace key" using Cons.prems(1) by (auto simp: placeholder_def no_brace_def)
  consider "t = key" | "no_brace t" | "placeholder t" "t \<noteq> key" using Cons.prems(2) by auto
  then show ?case
  proof cases
    case 1
    with Cons ne show ?thesis by (simp add: subst_all_hit)
  next
    case 2
    then have "t \<noteq> key" using ne by auto
    with Cons no_brace_skip [OF Cons.prems(1) 2] show ?thesis by simp
  next
    case 3
    then obtain w where w: "t = CHR ''{'' # w @ ''}''" "no_brace (w @ ''}'')" by (auto simp: placeholder_def no_brace_def)
    have "\<not> starts_with (t @ concat ts) key" using placeholder_prefix [OF Cons.prems(1) 3(1)] 3(2) by auto
    then have "subst_all key into (t @ concat ts) = CHR ''{'' # subst_all key into ((w @ ''}'') @ concat ts)"
      using w(1) by (simp add: subst_all_miss)
    also have "\<dots> = t @ subst_all key into (concat ts)"
      unfolding no_brace_skip [OF Cons.prems(1) w(2)] by (simp add: w(1))
    finally show ?thesis using Cons 3(2) by simp
  qed
qed simp

text \<open>C40. The four passes of \<^verbatim>\<open>Expand\<close> are one simultaneous substitution: every placeholder of a record's text stands
  for its path, every other character for itself, and no path that is filled in is expanded again.
  The paths and the rest of the text have no opening brace.\<close>

theorem expand_simultaneous:
  assumes "\<forall>c. Lit c \<in> set ps \<longrightarrow> c \<noteq> CHR ''{''"
    and "no_brace (ctx_root ctx)" "no_brace (ctx_store ctx)" "no_brace (ctx_self ctx)"
  shows "Expand (concat (map piece_text ps)) ctx = concat (map (piece_value ctx) ps)"
proof -
  let ?s = "\<lambda>key into ts. map (\<lambda>t. if t = key then into else t) ts"
  have lit: "no_brace [c]" if "Lit c \<in> set ps" for c using assms(1) that by (auto simp: no_brace_def)
  have ok0: "\<forall>t \<in> set (map piece_text ps). no_brace t \<or> placeholder t"
  proof
    fix t assume "t \<in> set (map piece_text ps)"
    then obtain p where p: "p \<in> set ps" "t = piece_text p" by auto
    then show "no_brace t \<or> placeholder t" using lit placeholder_keys by (cases p rule: piece.exhaust) auto
  qed
  have keep: "\<forall>t \<in> set (?s key into ts). no_brace t \<or> placeholder t"
    if "no_brace into" "\<forall>t \<in> set ts. no_brace t \<or> placeholder t" for key into ts using that by auto
  note ok1 = keep [OF assms(2) ok0] note ok2 = keep [OF assms(3) ok1] note ok3 = keep [OF assms(4) ok2]
  have "Expand (concat (map piece_text ps)) ctx = concat (?s ''{argv0}'' (ctx_argv0 ctx) (?s ''{self}'' (ctx_self ctx)
      (?s ''{store}'' (ctx_store ctx) (?s ''{root}'' (ctx_root ctx) (map piece_text ps)))))"
    unfolding Expand_def foldl.simps prod.case replace_loop_0
      subst_blocks [OF placeholder_keys(1) ok0] subst_blocks [OF placeholder_keys(2) ok1 [of "''{root}''"]]
      subst_blocks [OF placeholder_keys(3) ok2 [of "''{store}''" "''{root}''"]]
      subst_blocks [OF placeholder_keys(4) ok3 [of "''{self}''" "''{store}''" "''{root}''"]] ..
  also have "\<dots> = concat (map (piece_value ctx) ps)"
  proof -
    have "(let t1 = (if piece_text p = ''{root}'' then ctx_root ctx else piece_text p);
               t2 = (if t1 = ''{store}'' then ctx_store ctx else t1);
               t3 = (if t2 = ''{self}'' then ctx_self ctx else t2)
           in if t3 = ''{argv0}'' then ctx_argv0 ctx else t3) = piece_value ctx p" if "p \<in> set ps" for p
    proof -
      have b: "no_brace t \<Longrightarrow> t \<noteq> ''{store}'' \<and> t \<noteq> ''{self}'' \<and> t \<noteq> ''{argv0}''" for t by (auto simp: no_brace_def)
      show ?thesis using b [OF assms(2)] b [OF assms(3)] b [OF assms(4)] by (cases p) (auto simp: Let_def)
    qed
    then show ?thesis by (simp add: Let_def comp_def cong: map_cong)
  qed
  finally show ?thesis .
qed

theorem expand_simultaneous_witness:
  "Expand ''{store}/x:{root}'' \<lparr>ctx_root = ''/s/p'', ctx_store = ''/s'', ctx_self = ''/s/p/bin/f'', ctx_argv0 = ''{root}''\<rparr> = ''/s/x:/s/p''"
  using expand_simultaneous [of "[Store, Lit (CHR ''/''), Lit (CHR ''x''), Lit (CHR '':''), Root]"
      "\<lparr>ctx_root = ''/s/p'', ctx_store = ''/s'', ctx_self = ''/s/p/bin/f'', ctx_argv0 = ''{root}''\<rparr>"]
  by (simp add: no_brace_def)

section \<open>Environments\<close>

lemma apply_op_cases:
  assumes "apply_op pl n sep ctx item e = Inr e'"
  shows "e' = e \<or> pl_unset pl n e = Inr e' \<or> (\<exists>v. pl_set pl n v e = Inr e')"
proof (cases "fst item = ''sep''")
  case True
  with assms show ?thesis by (simp add: apply_op_def case_prod_unfold)
next
  case False
  obtain cur where cur: "pl_get pl n e = Inr cur"
    using assms False by (cases "pl_get pl n e") (simp_all add: apply_op_def case_prod_unfold)
  obtain a b c d where ops: "a \<longleftrightarrow> fst item = ''unset''" "b \<longleftrightarrow> fst item = ''set''" "c \<longleftrightarrow> fst item = ''default''"
    "d \<longleftrightarrow> fst item = ''prepend'' \<or> fst item = ''append''" by blast
  have "apply_op pl n sep ctx item e = Inr e' \<Longrightarrow> ?thesis"
    unfolding apply_op_def case_prod_unfold ops [symmetric] cur and_then_simps
    using False by (cases "StringList (snd item) ctx") (simp_all add: Let_def split: if_split_asm, blast+)
  with assms show ?thesis by blast
qed

text \<open>What the record's operations need of a system: a variable that is set reads back, and no other one
  changes.  \<open>same\<close> says which names are one variable.\<close>

locale environment =
  fixes pl :: "'e platform"
    and valid :: "string \<Rightarrow> bool"
    and storable_value :: "string \<Rightarrow> bool"
    and same :: "string \<Rightarrow> string \<Rightarrow> bool"
  assumes set_get: "\<lbrakk>valid n; storable_value v\<rbrakk> \<Longrightarrow> \<exists>e'. pl_set pl n v e = Inr e' \<and> pl_get pl n e' = Inr (Some v)"
    and set_other: "\<lbrakk>pl_set pl n v e = Inr e'; \<not> same n m\<rbrakk> \<Longrightarrow> pl_get pl m e' = pl_get pl m e"
    and unset_other: "\<lbrakk>pl_unset pl n e = Inr e'; \<not> same n m\<rbrakk> \<Longrightarrow> pl_get pl m e' = pl_get pl m e"
begin

lemma apply_op_other:
  assumes "apply_op pl n sep ctx item e = Inr e'" "\<not> same n m"
  shows "pl_get pl m e' = pl_get pl m e"
  using apply_op_cases [OF assms(1)] assms(2) set_other unset_other by metis

lemma seq_ops_other:
  "\<lbrakk>seq_state (apply_op pl n sep ctx) items e = Inr e'; \<not> same n m\<rbrakk> \<Longrightarrow> pl_get pl m e' = pl_get pl m e"
proof (induction items arbitrary: e)
  case (Cons x items)
  then show ?case using apply_op_other by (fastforce simp: and_then_Inr)
qed simp

lemma ApplyEnv_other:
  assumes "ApplyEnv pl ctx (n, spec) e = Inr e'" "\<not> same n m"
  shows "pl_get pl m e' = pl_get pl m e"
  using assms seq_ops_other by (auto simp: ApplyEnv_def and_then_Inr split: json.splits option.splits)

lemma vars_other:
  "\<lbrakk>seq_state (ApplyEnv pl ctx) vars e = Inr e'; \<forall>n \<in> fst ` set vars. \<not> same n m\<rbrakk> \<Longrightarrow> pl_get pl m e' = pl_get pl m e"
proof (induction vars arbitrary: e)
  case (Cons x vars)
  then obtain e1 where "ApplyEnv pl ctx (fst x, snd x) e = Inr e1" "seq_state (ApplyEnv pl ctx) vars e1 = Inr e'"
    by (auto simp: and_then_Inr)
  with Cons ApplyEnv_other [of ctx "fst x" "snd x" e e1 m] show ?case by simp
qed simp

text \<open>One operation that puts values beside what the variable holds.\<close>

lemma prepend_sets:
  assumes "valid n" "pl_get pl n e = Inr cur" "StringList val ctx = Inr parts" "oper = ''prepend'' \<or> oper = ''append''"
    and "all = (case cur of Some c \<Rightarrow> if c = [] then parts else if oper = ''prepend'' then parts @ [c] else c # parts | None \<Rightarrow> parts)"
    and "storable_value (Launch_Join all sep)"
  shows "\<exists>e'. apply_op pl n sep ctx (oper, val) e = Inr e' \<and> pl_get pl n e' = Inr (Some (Launch_Join all sep))"
proof -
  obtain e' where "pl_set pl n (Launch_Join all sep) e = Inr e'" "pl_get pl n e' = Inr (Some (Launch_Join all sep))"
    using set_get [OF assms(1,6)] by blast
  then show ?thesis using assms(2-5) by (auto simp: apply_op_def Let_def)
qed

end

lemma cstr_id: "CHR 0x00 \<notin> set s \<Longrightarrow> cstr s = s"
  by (auto simp: cstr_def)

interpretation posix_vars: environment "posix h" env_name_ok "\<lambda>v. CHR 0x00 \<notin> set v" "\<lambda>n m. cstr n = cstr m" for h
  by unfold_locales
     (auto simp: posix_def SetEnv_def GetEnv_def UnsetEnv_def cstr_id split: if_splits)

text \<open>Windows: the conversions undo each other on the value, and the second query gives the length of the
  first.\<close>

definition win_value_ok :: "win_host \<Rightarrow> string \<Rightarrow> bool" where
  "win_value_ok h v \<longleftrightarrow> v = [] \<or> (\<exists>w. wh_wide h v = Some w \<and> w \<noteq> [] \<and> 0 \<notin> set w \<and> wh_narrow h w = Some v)"

definition win_name_ok :: "win_host \<Rightarrow> string \<Rightarrow> bool" where
  "win_name_ok h n \<longleftrightarrow> (\<forall>val. wh_refetch h val = length val) \<and> (\<exists>w. Wide h n = Inr w \<and> wh_set_ok h (wcstr w))"

definition win_same :: "win_host \<Rightarrow> string \<Rightarrow> string \<Rightarrow> bool" where
  "win_same h n m \<longleftrightarrow> (\<exists>v w. Wide h n = Inr v \<and> Wide h m = Inr w \<and> wh_fold h (wcstr v) = wh_fold h (wcstr w))"

lemma wcstr_id: "0 \<notin> set w \<Longrightarrow> wcstr w = w"
  by (induction w) (auto simp: wcstr_def)

lemma win_set_get:
  assumes "win_name_ok h n" "win_value_ok h v"
  shows "\<exists>e'. win_SetEnv h n v e = Inr e' \<and> win_GetEnv h n e' = Inr (Some v)"
proof -
  obtain wn where n: "Wide h n = Inr wn" "wh_set_ok h (wcstr wn)" and r: "\<And>val. wh_refetch h val = length val"
    using assms(1) by (auto simp: win_name_ok_def)
  obtain wv where "Wide h v = Inr wv" "wcstr wv = wv" "Narrow h wv = Inr v"
  proof (cases "v = []")
    case True
    then show ?thesis using that [of "[]"] by (simp add: Wide_def Narrow_def wcstr_def)
  next
    case False
    then obtain w where "wh_wide h v = Some w" "w \<noteq> []" "0 \<notin> set w" "wh_narrow h w = Some v"
      using assms(2) by (auto simp: win_value_ok_def)
    then show ?thesis using that [of w] False by (simp add: Wide_def Narrow_def wcstr_id)
  qed
  then show ?thesis by (simp add: win_SetEnv_def win_GetEnv_def n r)
qed

lemma win_other:
  assumes "\<not> win_same h n m" "Wide h n = Inr wn"
  shows "win_GetEnv h m (e(wh_fold h (wcstr wn) := x)) = win_GetEnv h m e"
  using assms by (cases "Wide h m") (auto simp: win_same_def win_GetEnv_def)

interpretation win_vars: environment "windows h" "win_name_ok h" "win_value_ok h" "win_same h" for h
  by unfold_locales
     (use win_set_get win_other in \<open>auto simp: windows_def win_SetEnv_def win_UnsetEnv_def and_then_Inr split: if_splits\<close>)

section \<open>Search paths\<close>

lemma join_from_eq: "0 < i \<Longrightarrow> join_from i parts sep out = out @ concat (map (\<lambda>p. sep @ p) parts)"
  by (induction parts arbitrary: i out) auto

lemma Launch_Join_eq: "Launch_Join parts sep = (case parts of [] \<Rightarrow> [] | p # ps \<Rightarrow> p @ concat (map (\<lambda>p. sep @ p) ps))"
  by (cases parts) (auto simp: Launch_Join_def join_from_eq)

lemma set_Launch_Join: "set (Launch_Join parts sep) \<subseteq> \<Union> (set ` set parts) \<union> set sep"
  by (auto simp: Launch_Join_eq split: list.splits)

lemma split_char_glue: "split_char c (a @ c # b) = split_char c a @ split_char c b"
  by (induction a) auto

lemma split_join_parts:
  "parts \<noteq> [] \<Longrightarrow> split_char c (Launch_Join parts [c]) = concat (map (split_char c) parts)"
proof (induction parts)
  case (Cons p ps)
  have j: "Launch_Join (p # q # qs) [c] = p @ c # Launch_Join (q # qs) [c]" for q qs by (simp add: Launch_Join_eq)
  from Cons show ?case by (cases ps) (simp_all add: j split_char_glue Launch_Join_eq)
qed simp

text \<open>A search path keeps its entries: after a record prepended or appended values to a variable, the entries
  between the separators are those of the values in their order, in front of or behind the entries the
  variable had; a variable that was not set or empty adds none.\<close>

lemma search_path_entries:
  assumes "env_name_ok n" "e (cstr n) = cur" "StringList val ctx = Inr parts" "parts \<noteq> []"
    and "oper = ''prepend'' \<or> oper = ''append''"
    and "\<forall>p \<in> set parts \<union> set_option cur. CHR 0x00 \<notin> set p" "c \<noteq> CHR 0x00"
  defines "old \<equiv> (case cur of Some v \<Rightarrow> if v = [] then [] else split_char c v | None \<Rightarrow> [])"
    and "new \<equiv> concat (map (split_char c) parts)"
  shows "\<exists>e' v. apply_op (posix h) n [c] ctx (oper, val) e = Inr e' \<and> e' (cstr n) = Some v
    \<and> split_char c v = (if oper = ''prepend'' then new @ old else old @ new)
    \<and> (\<forall>x. x \<noteq> cstr n \<longrightarrow> e' x = e x)"
proof -
  define all where "all = (case cur of Some v \<Rightarrow> if v = [] then parts else if oper = ''prepend'' then parts @ [v] else v # parts
    | None \<Rightarrow> parts)"
  have "CHR 0x00 \<notin> set (Launch_Join all [c])"
    using assms(6,7) set_Launch_Join [of all "[c]"] by (fastforce simp: all_def split: option.splits if_splits)
  from posix_vars.prepend_sets [OF assms(1) _ assms(3,5) all_def this, of h e]
  obtain e' where e': "apply_op (posix h) n [c] ctx (oper, val) e = Inr e'" "e' (cstr n) = Some (Launch_Join all [c])"
    using assms(2) by (auto simp: posix_def GetEnv_def)
  have "e' x = e x" if "x \<noteq> cstr n" for x
    using apply_op_cases [OF e'(1)] that by (auto simp: posix_def SetEnv_def UnsetEnv_def split: if_splits)
  moreover have "split_char c (Launch_Join all [c]) = (if oper = ''prepend'' then new @ old else old @ new)"
  proof -
    have "all \<noteq> []" using assms(4) by (auto simp: all_def split: option.splits)
    then show ?thesis
      unfolding split_join_parts [OF \<open>all \<noteq> []\<close>] by (auto simp: all_def old_def new_def split: option.splits)
  qed
  ultimately show ?thesis using e' by blast
qed

definition example_launch_host :: launch_host where
  "example_launch_host =
     \<lparr>l_canonical = (\<lambda>p. Inr p), l_absolute = (\<lambda>p. p), l_access = (\<lambda>_. True),
      l_read_symlink = [''/u/f'' \<mapsto> ''/s/p/bin/f'', ''/s/p/bin/f'' \<mapsto> ''../../l/bin/launch''],
      l_read = [''/s/p/bin/.f.launch'' \<mapsto> ''R''],
      l_json = (\<lambda>_. JObject [(''program'', JString ''{store}/py/bin/python''), (''args'', JString ''{root}/bin/.f''),
                 (''env'', JObject [(''LANG'', JObject [(''set'', JString ''C'')])])]),
      l_errno = [], l_exec = (\<lambda>_. True)\<rparr>"

definition example_context :: context_paths where
  "example_context = context_of ''/u/f'' ''/s/p/bin/f''"

theorem search_path_entries_witness:
  "\<exists>e' v. apply_op (posix example_launch_host) ''PATH'' '':'' example_context
        (''prepend'', JArray [JString ''/a'', JString ''/b'']) [''PATH'' \<mapsto> ''/u:/v''] = Inr e'
     \<and> e' ''PATH'' = Some v \<and> split_char CHR '':'' v = [''/a'', ''/b'', ''/u'', ''/v'']"
proof -
  have n: "env_name_ok ''PATH''" "cstr ''PATH'' = ''PATH''" by (simp_all add: env_name_ok_def cstr_def)
  have l: "StringList (JArray [JString ''/a'', JString ''/b'']) example_context = Inr [''/a'', ''/b'']" by code_simp
  from search_path_entries [OF n(1) _ l, of "[''PATH'' \<mapsto> ''/u:/v'']" "Some ''/u:/v''" "''prepend''" "CHR '':''" example_launch_host]
  show ?thesis by (simp add: n(2)) blast
qed

section \<open>What the program is started with\<close>

definition env_names :: "(string \<times> json) list \<Rightarrow> string set" where
  "env_names mem = (case map_of mem ''env'' of Some (JObject vars) \<Rightarrow> cstr ` fst ` set vars | _ \<Rightarrow> {})"

lemma json_items_set [simp]: "set (json_items mem) = set mem"
  by (simp add: json_items_def)

lemma vars_frame:
  assumes "seq_state (ApplyEnv (posix h) ctx) (json_items vars) e = Inr e'" "x \<notin> cstr ` fst ` set vars" "CHR 0x00 \<notin> set x"
  shows "e' x = e x"
proof -
  have "\<forall>n \<in> fst ` set (json_items vars). cstr n \<noteq> cstr x" using assms(2,3) by (auto simp: cstr_id image_iff)
  from posix_vars.vars_other [OF assms(1) this] show ?thesis by (simp add: posix_def GetEnv_def cstr_id [OF assms(3)])
qed

lemma guarded_Inr: "(if b then Inr x else Die what arg) = Inr y \<longleftrightarrow> b \<and> x = y"
  by (simp add: Die_def)



section \<open>The command line of Windows\<close>

text \<open>How a program splits its command line, by the documented rules: the first word is the program's name,
  taken up to the closing quote or a blank without any escapes.  Behind it, backslashes are themselves
  unless a quote follows; half of those in front of a quote are kept, and an odd one makes the quote a
  character.\<close>

definition wblank :: "nat \<Rightarrow> bool" where "wblank c \<longleftrightarrow> c = wspace \<or> c = wtab"

fun split_args :: "wstring \<Rightarrow> nat \<Rightarrow> bool \<Rightarrow> wstring \<Rightarrow> bool \<Rightarrow> wstring list" where
  "split_args [] s q cur started = (if started then [cur @ replicate s wslash] else [])"
| "split_args (c # cs) s q cur started =
     (if c = wslash then split_args cs (s + 1) q cur True
      else if c = wquote then
        (if even s then split_args cs 0 (\<not> q) (cur @ replicate (s div 2) wslash) True
         else split_args cs 0 q (cur @ replicate (s div 2) wslash @ [wquote]) True)
      else if wblank c \<and> \<not> q then
        (if started then (cur @ replicate s wslash) # split_args cs 0 False [] False else split_args cs 0 False [] False)
      else split_args cs 0 q (cur @ replicate s wslash @ [c]) True)"

definition CommandLineToArgv :: "wstring \<Rightarrow> wstring list" where
  "CommandLineToArgv line =
     (if line \<noteq> [] \<and> hd line = wquote
      then takeWhile (\<lambda>c. c \<noteq> wquote) (tl line) # split_args (drop 1 (dropWhile (\<lambda>c. c \<noteq> wquote) (tl line))) 0 False [] False
      else takeWhile (\<lambda>c. \<not> wblank c) line # split_args (dropWhile (\<lambda>c. \<not> wblank c) line) 0 False [] False)"

text \<open>The rest of an argument's text after so many backslashes are held back.\<close>

fun arg_rest :: "nat \<Rightarrow> wstring \<Rightarrow> wstring" where
  "arg_rest s [] = replicate (s * 2) wslash @ [wquote]"
| "arg_rest s (c # cs) =
     (if c = wslash then arg_rest (s + 1) cs
      else replicate (if c = wquote then s * 2 + 1 else s) wslash @ c # arg_rest 0 cs)"

lemma arg_fold: "(case foldl arg_char (line, s) arg of (l, k) \<Rightarrow> l @ replicate (k * 2) wslash @ [wquote]) = line @ arg_rest s arg"
  by (induction arg arbitrary: line s) (auto simp: arg_char_def)

lemma AppendArg_eq: "AppendArg line arg = line @ [wspace, wquote] @ arg_rest 0 arg"
  using arg_fold [of "line @ [wspace, wquote]" 0 arg] by (simp add: AppendArg_def)

lemma split_slashes: "split_args (replicate n wslash @ r) s q cur started = split_args r (s + n) q cur (started \<or> 0 < n)"
  by (induction n arbitrary: s started) (auto simp: add.commute)

lemma split_arg_rest:
  "split_args (arg_rest s arg @ r) 0 True cur True = split_args r 0 False (cur @ replicate s wslash @ arg) True"
proof (induction s arg arbitrary: cur rule: arg_rest.induct)
  case (1 s)
  show ?case by (simp add: split_slashes)
next
  case (2 s c cs)
  show ?case
  proof (cases "c = wslash")
    case True
    with 2(1) show ?thesis by (simp add: replicate_append_same [symmetric])
  next
    case False
    with 2(2) show ?thesis by (cases "c = wquote") (simp_all add: split_slashes)
  qed
qed

definition blank_start :: "wstring \<Rightarrow> bool" where
  "blank_start r \<longleftrightarrow> r = [] \<or> wblank (hd r)"

lemma split_ended: "blank_start r \<Longrightarrow> split_args r 0 False cur True = cur # split_args r 0 False [] False"
  by (cases r) (auto simp: blank_start_def wblank_def)

lemma split_args_list:
  "blank_start r \<Longrightarrow> split_args (concat (map (\<lambda>a. [wspace, wquote] @ arg_rest 0 a) args) @ r) 0 False [] False
     = args @ split_args r 0 False [] False"
proof (induction args)
  case (Cons a args)
  let ?r = "concat (map (\<lambda>a. [wspace, wquote] @ arg_rest 0 a) args) @ r"
  have "blank_start ?r" using Cons.prems by (cases args) (auto simp: blank_start_def wblank_def)
  then have "split_args (arg_rest 0 a @ ?r) 0 True [] True = a # split_args ?r 0 False [] False"
    by (simp only: split_arg_rest split_ended) simp
  with Cons show ?case by (simp add: wblank_def)
qed simp

lemma append_args: "foldl AppendArg line args = line @ concat (map (\<lambda>a. [wspace, wquote] @ arg_rest 0 a) args)"
  by (induction args arbitrary: line) (simp_all add: AppendArg_eq)

lemma arg_rest_plain: "\<lbrakk>wquote \<notin> set arg; arg = [] \<and> s = 0 \<or> arg \<noteq> [] \<and> last arg \<noteq> wslash\<rbrakk> \<Longrightarrow> arg_rest s arg = replicate s wslash @ arg @ [wquote]"
proof (induction s arg rule: arg_rest.induct)
  case (2 s c cs)
  then show ?case by (cases "c = wslash") (auto simp: replicate_append_same [symmetric] split: if_splits)
qed simp

lemma UserArgs_split: "tl (CommandLineToArgv own) = split_args (UserArgs own) 0 False [] False"
proof (cases "own \<noteq> [] \<and> hd own = wquote")
  case True
  then obtain r where own: "own = wquote # r" by (cases own) auto
  have "(case str_find own [wquote] 1 of None \<Rightarrow> [] | Some e \<Rightarrow> drop (e + 1) own) = drop 1 (dropWhile (\<lambda>c. c \<noteq> wquote) r)"
  proof (cases "wquote \<in> set r")
    case True
    then show ?thesis by (simp add: own str_find_char dropWhile_eq_drop)
  next
    case False
    then have "dropWhile (\<lambda>c. c \<noteq> wquote) r = []" by auto
    then have "drop 1 (dropWhile (\<lambda>c. c \<noteq> wquote) r) = []" by (simp only: drop_Nil)
    moreover have "str_find own [wquote] 1 = None" using False by (simp add: own str_find_char)
    ultimately show ?thesis by (simp only: option.case)
  qed
  with True have u: "UserArgs own = drop 1 (dropWhile (\<lambda>c. c \<noteq> wquote) r)" by (simp add: UserArgs_def)
  show ?thesis unfolding u by (simp add: CommandLineToArgv_def own)
qed (auto simp: CommandLineToArgv_def UserArgs_def wblank_def)

text \<open>C26. The command line the launcher gives to the child on Windows is read back as meant: the program sees the
  name it is given, the record's arguments exactly, whatever quotes and backslashes they hold, and then the
  arguments the launcher itself was started with.  A name has no quote and no trailing backslash.\<close>

theorem command_line_reads_back:
  assumes "wquote \<notin> set argv0" "argv0 = [] \<or> last argv0 \<noteq> wslash" "blank_start (UserArgs own)"
  shows "CommandLineToArgv (drop 1 (command_line argv0 pre own)) = argv0 # pre @ tl (CommandLineToArgv own)"
proof -
  let ?pre = "concat (map (\<lambda>a. [wspace, wquote] @ arg_rest 0 a) pre)"
  have "arg_rest 0 argv0 = argv0 @ [wquote]" using arg_rest_plain [of argv0 0] assms(1,2) by auto
  then have line: "drop 1 (command_line argv0 pre own) = wquote # argv0 @ wquote # ?pre @ UserArgs own"
    by (simp add: command_line_def append_args AppendArg_eq)
  have "takeWhile (\<lambda>c. c \<noteq> wquote) (argv0 @ wquote # x) = argv0" "dropWhile (\<lambda>c. c \<noteq> wquote) (argv0 @ wquote # x) = wquote # x" for x
    using assms(1) by (induction argv0) auto
  then show ?thesis
    unfolding line UserArgs_split by (simp add: CommandLineToArgv_def split_args_list [OF assms(3), simplified])
qed

theorem command_line_reads_back_witness:
  "CommandLineToArgv (drop 1 (command_line [97] [[wslash, wslash, wquote, 98, wslash], []] [120, wspace, 121])) =
     [[97], [wslash, wslash, wquote, 98, wslash], [], [121]]"
proof -
  have "UserArgs [120, wspace, 121] = [wspace, 121]" "CommandLineToArgv [120, wspace, 121] = [[120], [121]]"
    by (simp_all add: UserArgs_def CommandLineToArgv_def wblank_def)
  then show ?thesis
    using command_line_reads_back [of "[97]" "[120, wspace, 121]" "[[wslash, wslash, wquote, 98, wslash], []]"]
    by (simp add: blank_start_def wblank_def)
qed

end
