(* ===== verification/Dl_Audit.thy ===== *)
theory Dl_Audit
  imports Cpp_Path
begin

text \<open>
  The auditing module of the dynamic loader (\<^verbatim>\<open>pkgs/dl/dlaudit/src/dlaudit.cc\<close>): the global
  state with its buffer of 256 bytes and one definition per callback.  The callbacks the loader makes are
  the events of a run.  The calls of \<^verbatim>\<open>write\<close> are collected in the state;
  \<^verbatim>\<open>getenv\<close> and \<^verbatim>\<open>open\<close> are arguments.  The module is proved to write
  the names of \<open>failed_lookups\<close>, which reads off the sequence of events.
\<close>

section \<open>Model\<close>

definition kGlibcOwn :: "string list" where
  "kGlibcOwn = [''libnss_'', ''libnsl'', ''libidn2'', ''libgcc_s.so'']"

definition kMaxName :: nat where "kMaxName = 255"

record audit_state =
  au_out :: int
  au_pending :: string
  au_pending_len :: nat
  au_writes :: "(int \<times> string) list"

definition audit_init :: audit_state where
  "audit_init = \<lparr>au_out = - 1, au_pending = replicate (kMaxName + 1) CHR 0x00, au_pending_len = 0, au_writes = []\<rparr>"

definition Ignored :: "string \<Rightarrow> bool" where
  "Ignored name \<longleftrightarrow> str_contains name ''/'' \<or> length name > kMaxName \<or> list_ex (starts_with name) kGlibcOwn"

definition audit_flush :: "audit_state \<Rightarrow> audit_state" where
  "audit_flush s =
     (let s1 =
        (if au_pending_len s > 0 \<and> au_out s \<ge> 0
         then (let buf = (au_pending s)[au_pending_len s := CHR 0x0A]
               in s\<lparr>au_pending := buf, au_writes := au_writes s @ [(au_out s, take (au_pending_len s + 1) buf)]\<rparr>)
         else s)
      in s1\<lparr>au_pending_len := 0\<rparr>)"

definition audit_pending :: "audit_state \<Rightarrow> string" where
  "audit_pending s = take (au_pending_len s) (au_pending s)"

definition la_version :: "string option \<Rightarrow> (string \<Rightarrow> int) \<Rightarrow> audit_state \<Rightarrow> audit_state" where
  "la_version env open_fd s = (case env of Some path \<Rightarrow> s\<lparr>au_out := open_fd path\<rparr> | None \<Rightarrow> s)"

definition LA_SER_ORIG :: nat where "LA_SER_ORIG = 1"

definition la_objsearch :: "string \<Rightarrow> nat \<Rightarrow> audit_state \<Rightarrow> audit_state" where
  "la_objsearch wanted flag s =
     (if flag = LA_SER_ORIG
      then (let s1 = audit_flush s in
            if Ignored wanted then s1
            else s1\<lparr>au_pending := wanted @ drop (length wanted) (au_pending s1), au_pending_len := length wanted\<rparr>)
      else s)"

definition la_objopen :: "string \<Rightarrow> audit_state \<Rightarrow> audit_state" where
  "la_objopen l_name s =
     (let op = (case str_rfind l_name ''/'' of Some i \<Rightarrow> drop (i + 1) l_name | None \<Rightarrow> l_name)
      in if au_pending_len s > 0 \<and> starts_with op (audit_pending s) then s\<lparr>au_pending_len := 0\<rparr> else s)"

definition la_preinit :: "audit_state \<Rightarrow> audit_state" where
  "la_preinit s = audit_flush s"

definition dlaudit_fini :: "audit_state \<Rightarrow> audit_state" where
  "dlaudit_fini s = audit_flush s"

text \<open>The callbacks of the loader in the order it makes them.\<close>

datatype audit_event = Search string nat | Opened string | Preinit | Fini

fun audit_do :: "audit_event \<Rightarrow> audit_state \<Rightarrow> audit_state" where
  "audit_do (Search wanted flag) s = la_objsearch wanted flag s"
| "audit_do (Opened l_name) s = la_objopen l_name s"
| "audit_do Preinit s = la_preinit s"
| "audit_do Fini s = dlaudit_fini s"

definition run_audit :: "string option \<Rightarrow> (string \<Rightarrow> int) \<Rightarrow> audit_event list \<Rightarrow> audit_state" where
  "run_audit env open_fd es = fold audit_do es (la_version env open_fd audit_init)"

section \<open>Specification\<close>

text \<open>
  The window of a search reaches to the next search, the end of the start-up phase or the exit.  A lookup
  failed when its window is over and no object was opened in it whose file name starts with the name.
\<close>

fun closes_window :: "audit_event \<Rightarrow> bool" where
  "closes_window (Search n flag) = (flag = LA_SER_ORIG)"
| "closes_window (Opened l) = False"
| "closes_window e = True"

definition opened_in_window :: "string \<Rightarrow> audit_event list \<Rightarrow> bool" where
  "opened_in_window n es \<longleftrightarrow> (\<exists>l. Opened l \<in> set (takeWhile (\<lambda>e. \<not> closes_window e) es) \<and> starts_with (path_filename l) n)"

definition lookup_failed :: "string \<Rightarrow> audit_event list \<Rightarrow> bool" where
  "lookup_failed n es \<longleftrightarrow> n \<noteq> [] \<and> (\<exists>e \<in> set es. closes_window e) \<and> \<not> opened_in_window n es"

fun failed_lookups :: "audit_event list \<Rightarrow> string list" where
  "failed_lookups [] = []"
| "failed_lookups (Search n flag # es) =
     (if flag = LA_SER_ORIG \<and> \<not> Ignored n \<and> lookup_failed n es then n # failed_lookups es else failed_lookups es)"
| "failed_lookups (e # es) = failed_lookups es"

section \<open>The state\<close>

definition audit_inv :: "audit_state \<Rightarrow> bool" where
  "audit_inv s \<longleftrightarrow> length (au_pending s) = kMaxName + 1 \<and> au_pending_len s \<le> kMaxName"

lemma flush_inv: "audit_inv s \<Longrightarrow> audit_inv (audit_flush s)"
  by (auto simp: audit_inv_def audit_flush_def Let_def)

lemma search_inv: "audit_inv s \<Longrightarrow> audit_inv (la_objsearch n flag s)"
  using flush_inv [of s] by (auto simp: la_objsearch_def Let_def audit_inv_def Ignored_def)

lemma open_inv: "audit_inv s \<Longrightarrow> audit_inv (la_objopen l s)"
  by (auto simp: la_objopen_def Let_def audit_inv_def)

definition audit_step :: "audit_state \<Rightarrow> audit_state \<Rightarrow> bool" where
  "audit_step s t \<longleftrightarrow> (\<exists>e. t = audit_do e s)"

interpretation audit: invariant_system "\<lambda>s. \<exists>env open_fd. s = la_version env open_fd audit_init" audit_step audit_inv
proof
  fix s t assume "audit_inv s" "audit_step s t"
  then obtain e where "t = audit_do e s" by (auto simp: audit_step_def)
  with \<open>audit_inv s\<close> show "audit_inv t"
    by (cases e) (auto simp: la_preinit_def dlaudit_fini_def flush_inv search_inv open_inv)
qed (auto simp: la_version_def audit_init_def audit_inv_def split: option.splits)

lemma rfind_slash_None: "str_rfind s ''/'' = None \<longleftrightarrow> slash \<notin> set s"
  by (induction s) (auto simp: starts_with_def split: option.splits)

lemma drop_rfind_slash: "(case str_rfind l ''/'' of Some i \<Rightarrow> drop (i + 1) l | None \<Rightarrow> l) = path_filename l"
proof (induction l)
  case (Cons c l)
  show ?case
  proof (cases "str_rfind l ''/''")
    case None
    then have "slash \<notin> set l" by (simp add: rfind_slash_None)
    then show ?thesis using None by (auto simp: path_filename_def takeWhile_append starts_with_def)
  next
    case (Some i)
    then have "slash \<in> set l" using rfind_slash_None [of l] by auto
    then show ?thesis using Some Cons by (auto simp: path_filename_def takeWhile_append)
  qed
qed (simp add: path_filename_def)

text \<open>What is written at the end, from any state: the line of the pending name if its lookup fails, then the
  lines of the later searches.\<close>

definition failed_lines :: "int \<Rightarrow> string \<Rightarrow> audit_event list \<Rightarrow> (int \<times> string) list" where
  "failed_lines fd n es =
     (if fd < 0 then [] else map (\<lambda>n. (fd, n @ [CHR 0x0A])) ((if lookup_failed n es then [n] else []) @ failed_lookups es))"

lemma flush_effect:
  assumes "audit_inv s"
  shows "au_writes (audit_flush s) = au_writes s
      @ (if audit_pending s = [] \<or> au_out s < 0 then [] else [(au_out s, audit_pending s @ [CHR 0x0A])])"
    and "audit_pending (audit_flush s) = []" "au_out (audit_flush s) = au_out s"
proof -
  from assms have "au_pending_len s < length (au_pending s)" by (simp add: audit_inv_def)
  then have "take (au_pending_len s + 1) ((au_pending s)[au_pending_len s := CHR 0x0A]) = audit_pending s @ [CHR 0x0A]"
    "audit_pending s = [] \<longleftrightarrow> au_pending_len s = 0"
    by (auto simp: audit_pending_def take_Suc_conv_app_nth)
  then show "au_writes (audit_flush s) = au_writes s
      @ (if audit_pending s = [] \<or> au_out s < 0 then [] else [(au_out s, audit_pending s @ [CHR 0x0A])])"
    by (auto simp: audit_flush_def Let_def)
qed (auto simp: audit_flush_def Let_def audit_pending_def)

lemma search_effect:
  assumes "audit_inv s"
  shows "au_writes (la_objsearch n LA_SER_ORIG s) = au_writes (audit_flush s)"
    "audit_pending (la_objsearch n LA_SER_ORIG s) = (if Ignored n then [] else n)"
    "au_out (la_objsearch n LA_SER_ORIG s) = au_out s"
  using flush_effect [OF assms] by (auto simp: la_objsearch_def Let_def audit_pending_def)

lemma open_effect:
  assumes "audit_inv s"
  shows "au_writes (la_objopen l s) = au_writes s" "au_out (la_objopen l s) = au_out s"
    "audit_pending (la_objopen l s) =
       (if starts_with (path_filename l) (audit_pending s) then [] else audit_pending s)"
  using assms by (auto simp: la_objopen_def Let_def drop_rfind_slash audit_pending_def audit_inv_def)

lemma lookup_failed_close: "closes_window e \<Longrightarrow> lookup_failed n (e # es) \<longleftrightarrow> n \<noteq> []"
  by (auto simp: lookup_failed_def opened_in_window_def)

lemma lookup_failed_open:
  "lookup_failed n (Opened l # es) \<longleftrightarrow> \<not> starts_with (path_filename l) n \<and> lookup_failed n es"
  by (auto simp: lookup_failed_def opened_in_window_def)

lemma lookup_failed_retry: "flag \<noteq> LA_SER_ORIG \<Longrightarrow> lookup_failed n (Search m flag # es) \<longleftrightarrow> lookup_failed n es"
  by (auto simp: lookup_failed_def opened_in_window_def)

lemma lookup_failed_none: "\<not> lookup_failed [] es"
  by (simp add: lookup_failed_def)

lemmas lookup_failed_steps = lookup_failed_close lookup_failed_open lookup_failed_retry lookup_failed_none

lemma audit_run_lines:
  "audit_inv s \<Longrightarrow> au_writes (fold audit_do es s) = au_writes s @ failed_lines (au_out s) (audit_pending s) es"
proof (induction es arbitrary: s)
  case (Cons e es)
  have "audit_inv (audit_do e s)" using audit.inv_step [OF Cons.prems] by (auto simp: audit_step_def)
  note IH = Cons.IH [OF this]
  note eff = flush_effect [OF Cons.prems] search_effect [OF Cons.prems] open_effect [OF Cons.prems]
  show ?case
  proof (cases e)
    case (Search n flag)
    show ?thesis
    proof (cases "flag = LA_SER_ORIG")
      case True
      then show ?thesis using IH by (auto simp: Search eff failed_lines_def lookup_failed_steps)
    next
      case False
      then show ?thesis using IH by (simp add: Search la_objsearch_def failed_lines_def lookup_failed_steps)
    qed
  qed (use IH in \<open>auto simp: eff failed_lines_def lookup_failed_steps la_preinit_def dlaudit_fini_def\<close>)
qed (simp add: failed_lines_def lookup_failed_def)

section \<open>Properties\<close>

text \<open>C28. The module writes one line for each lookup by name that opened nothing, in order, and no other: the name
  was searched as the program gave it, is none of the ignored ones, and up to the next search, the end of the
  start-up phase or the exit no object was opened whose file name starts with it.  Without a file to write to
  nothing is written.\<close>

theorem audit_names_failed_lookups:
  "au_writes (run_audit env open_fd es) =
     (case env of
        None \<Rightarrow> []
      | Some path \<Rightarrow> if open_fd path < 0 then [] else map (\<lambda>n. (open_fd path, n @ [CHR 0x0A])) (failed_lookups es))"
proof -
  have "audit_inv (la_version env open_fd audit_init)" by (rule audit.inv_init) blast
  from audit_run_lines [OF this] show ?thesis
    by (simp add: run_audit_def la_version_def audit_init_def audit_pending_def failed_lines_def lookup_failed_def split: option.splits)
qed

end
