(* ===== verification/Crt_Interp.thy ===== *)
theory Crt_Interp
  imports Cpp_Path "HOL-Library.Word"
begin

unbundle bit_operations_syntax

text \<open>
  \<^verbatim>\<open>pkgs/cr/crt-interp/src/crt_interp.c\<close>: the entry stub that finds the dynamic linker relative to the
  executable, maps it and enters it.  Numbers are 64 bit words and wrap.  The memory of the process is a
  function from addresses to bytes with the protection of every byte; the initial stack is the list of its words,
  apart from that memory.  What the kernel answers is a record of functions; the effect of a mapping that succeeds
  is written out.  The assembly that makes the system calls and jumps to the result is not modelled.
\<close>

section \<open>Model: memory and kernel\<close>

type_synonym u64 = "64 word"

definition AT_NULL :: u64 where "AT_NULL = 0"
definition AT_PHDR :: u64 where "AT_PHDR = 3"
definition AT_PHNUM :: u64 where "AT_PHNUM = 5"
definition AT_PAGESZ :: u64 where "AT_PAGESZ = 6"
definition AT_BASE :: u64 where "AT_BASE = 7"
definition AT_ENTRY :: u64 where "AT_ENTRY = 9"
definition AT_EXECFN :: u64 where "AT_EXECFN = 31"
definition PT_NULL :: "32 word" where "PT_NULL = 0"
definition PT_LOAD :: "32 word" where "PT_LOAD = 1"
definition PT_INTERP :: "32 word" where "PT_INTERP = 3"
definition PT_PHDR :: "32 word" where "PT_PHDR = 6"
definition PROT_READ :: "32 word" where "PROT_READ = 1"
definition PROT_WRITE :: "32 word" where "PROT_WRITE = 2"
definition PROT_EXEC :: "32 word" where "PROT_EXEC = 4"

type_synonym bytes = "u64 \<Rightarrow> char"

record address_space =
  as_mem :: bytes
  as_prot :: "u64 \<Rightarrow> 32 word"

record kernel =
  k_exe :: "string option"
  k_open :: "string \<Rightarrow> string option"
  k_pread :: "string \<Rightarrow> int"
  k_reserve :: "u64 \<Rightarrow> u64"
  k_map :: "u64 \<Rightarrow> u64 \<Rightarrow> bool"
  k_mprotect :: "u64 \<Rightarrow> u64 \<Rightarrow> 32 word \<Rightarrow> bool"
  k_junk :: bytes

text \<open>How a run ends that does not enter the linker: with a message and status 127, or never.\<close>

datatype stub_end = Died string | Hung

type_synonym 'a stub = "stub_end + 'a"

definition die :: "string \<Rightarrow> 'a stub" where
  "die m = Inl (Died (''reloc-interp: '' @ m @ [newline]))"

definition stub_bind :: "'a stub \<Rightarrow> ('a \<Rightarrow> 'b stub) \<Rightarrow> 'b stub" where
  "stub_bind r f = (case r of Inl e \<Rightarrow> Inl e | Inr x \<Rightarrow> f x)"

definition need :: "bool \<Rightarrow> string \<Rightarrow> unit stub" where
  "need ok m = (if ok then Inr () else die m)"

text \<open>Little endian fields in memory.\<close>

definition mem_le :: "bytes \<Rightarrow> u64 \<Rightarrow> nat \<Rightarrow> nat" where
  "mem_le m a n = foldr (\<lambda>i v. of_char (m (a + of_nat i)) + 256 * v) [0..<n] 0"

record seg_header =
  p_type :: "32 word"
  p_flags :: "32 word"
  p_offset :: u64
  p_vaddr :: u64
  p_filesz :: u64
  p_memsz :: u64

definition Phdr_size :: u64 where "Phdr_size = 56"

definition read_Phdr :: "bytes \<Rightarrow> u64 \<Rightarrow> seg_header" where
  "read_Phdr m a =
     \<lparr>p_type = of_nat (mem_le m a 4), p_flags = of_nat (mem_le m (a + 4) 4), p_offset = of_nat (mem_le m (a + 8) 8),
      p_vaddr = of_nat (mem_le m (a + 16) 8), p_filesz = of_nat (mem_le m (a + 32) 8), p_memsz = of_nat (mem_le m (a + 40) 8)\<rparr>"

definition Phdrs :: "bytes \<Rightarrow> u64 \<Rightarrow> nat \<Rightarrow> (u64 \<times> seg_header) list" where
  "Phdrs m a n = map (\<lambda>i. (a + of_nat i * Phdr_size, read_Phdr m (a + of_nat i * Phdr_size))) [0..<n]"

text \<open>The length of a C string; not returning is \<^term>\<open>None\<close>.\<close>

partial_function (option) slen_from :: "bytes \<Rightarrow> u64 \<Rightarrow> nat \<Rightarrow> nat option" where
  "slen_from m s n = (if m (s + of_nat n) = CHR 0x00 then Some n else slen_from m s (n + 1))"

declare slen_from.simps [code]

definition slen :: "bytes \<Rightarrow> u64 \<Rightarrow> nat option" where
  "slen m s = slen_from m s 0"

definition read_chars :: "bytes \<Rightarrow> u64 \<Rightarrow> nat \<Rightarrow> string" where
  "read_chars m s n = map (\<lambda>i. m (s + of_nat i)) [0..<n]"

definition prot_of :: "32 word \<Rightarrow> 32 word" where
  "prot_of flags =
     (if flags AND 4 \<noteq> 0 then PROT_READ else 0) OR (if flags AND 2 \<noteq> 0 then PROT_WRITE else 0)
       OR (if flags AND 1 \<noteq> 0 then PROT_EXEC else 0)"

definition page_down :: "u64 \<Rightarrow> u64 \<Rightarrow> u64" where
  "page_down PG x = x AND NOT (PG - 1)"

definition page_up :: "u64 \<Rightarrow> u64 \<Rightarrow> u64" where
  "page_up PG x = (x + PG - 1) AND NOT (PG - 1)"

text \<open>Mappings: the bytes of a file, zero behind its end, or zeros.\<close>

definition file_byte :: "string \<Rightarrow> u64 \<Rightarrow> char" where
  "file_byte f off = (if unat off < length f then f ! unat off else CHR 0x00)"

definition mmap_file :: "string \<Rightarrow> u64 \<Rightarrow> u64 \<Rightarrow> 32 word \<Rightarrow> u64 \<Rightarrow> address_space \<Rightarrow> address_space" where
  "mmap_file f addr len prot off s =
     \<lparr>as_mem = (\<lambda>a. if a - addr < len then file_byte f (off + (a - addr)) else as_mem s a),
      as_prot = (\<lambda>a. if a - addr < len then prot else as_prot s a)\<rparr>"

definition mmap_zero :: "u64 \<Rightarrow> u64 \<Rightarrow> 32 word \<Rightarrow> address_space \<Rightarrow> address_space" where
  "mmap_zero addr len prot s =
     \<lparr>as_mem = (\<lambda>a. if a - addr < len then CHR 0x00 else as_mem s a),
      as_prot = (\<lambda>a. if a - addr < len then prot else as_prot s a)\<rparr>"

definition mprotect :: "u64 \<Rightarrow> u64 \<Rightarrow> 32 word \<Rightarrow> address_space \<Rightarrow> address_space" where
  "mprotect addr len prot s = s\<lparr>as_prot := (\<lambda>a. if a - addr < len then prot else as_prot s a)\<rparr>"

section \<open>Model: the program itself\<close>

text \<open>The words of the auxiliary vector up to its end, in pairs.\<close>

definition auxv_of :: "u64 list \<Rightarrow> u64 list" where
  "auxv_of stack = drop 1 (dropWhile (\<lambda>x. x \<noteq> 0) (drop (unat (stack ! 0) + 2) stack))"

record self_info =
  si_ph :: u64
  si_phnum :: u64
  si_pg :: u64
  si_execfn :: u64

fun scan_auxv :: "u64 list \<Rightarrow> self_info \<Rightarrow> self_info" where
  "scan_auxv (t # v # rest) si =
     (if t = AT_NULL then si
      else
        (let si1 = (if t = AT_PHDR then si\<lparr>si_ph := v\<rparr> else si);
             si2 = (if t = AT_PHNUM then si1\<lparr>si_phnum := v\<rparr> else si1);
             si3 = (if t = AT_PAGESZ then si2\<lparr>si_pg := v\<rparr> else si2);
             si4 = (if t = AT_EXECFN then si3\<lparr>si_execfn := v\<rparr> else si3)
         in scan_auxv rest si4))"
| "scan_auxv _ si = si"

definition find_self :: "u64 list \<Rightarrow> self_info" where
  "find_self stack = scan_auxv (auxv_of stack) \<lparr>si_ph = 0, si_phnum = 0, si_pg = 4096, si_execfn = 0\<rparr>"

record own_scan =
  os_bias :: u64
  os_have_phdr :: bool
  os_interp :: u64

definition scan_own :: "u64 \<Rightarrow> own_scan \<Rightarrow> u64 \<times> seg_header \<Rightarrow> own_scan" where
  "scan_own self_ph os entry =
     (case entry of (addr, ph) \<Rightarrow>
        (let os1 = (if p_type ph = PT_PHDR then os\<lparr>os_bias := self_ph - p_vaddr ph, os_have_phdr := True\<rparr> else os)
         in if p_type ph = PT_NULL \<and> p_filesz ph > 1 then os1\<lparr>os_interp := addr\<rparr> else os1))"

definition own_headers :: "bytes \<Rightarrow> self_info \<Rightarrow> (u64 \<times> seg_header) list" where
  "own_headers m si = Phdrs m (si_ph si) (unat (si_phnum si))"

definition own_scan_of :: "bytes \<Rightarrow> self_info \<Rightarrow> own_scan" where
  "own_scan_of m si = foldl (scan_own (si_ph si)) \<lparr>os_bias = 0, os_have_phdr = False, os_interp = 0\<rparr> (own_headers m si)"

definition phdr_prot_of :: "bytes \<Rightarrow> self_info \<Rightarrow> own_scan \<Rightarrow> 32 word" where
  "phdr_prot_of m si os =
     (let phdr_vaddr = os_interp os - os_bias os in
      foldl (\<lambda>prot (addr, ph).
          if p_type ph = PT_LOAD \<and> phdr_vaddr - p_vaddr ph < p_memsz ph then prot_of (p_flags ph) else prot)
        PROT_READ (own_headers m si))"

text \<open>The two builds: linked into the program, whose entry is a symbol, or implanted, with the entry in the header of
  the stub.\<close>

datatype build = Linked u64 | Implanted u64

definition real_entry :: "build \<Rightarrow> own_scan \<Rightarrow> u64 stub" where
  "real_entry b os =
     (case b of
        Implanted entry \<Rightarrow> stub_bind (need (os_have_phdr os) ''no PT_PHDR'') (\<lambda>_. Inr (os_bias os + entry))
      | Linked start \<Rightarrow> Inr start)"

definition path_size :: nat where "path_size = 4096"

definition c_string :: "bytes \<Rightarrow> u64 \<Rightarrow> string stub" where
  "c_string m s = (case slen m s of None \<Rightarrow> Inl Hung | Some n \<Rightarrow> Inr (read_chars m s n))"

definition own_path :: "kernel \<Rightarrow> bytes \<Rightarrow> u64 \<Rightarrow> string stub" where
  "own_path k m execfn =
     (let path = (case k_exe k of Some p \<Rightarrow> take (path_size - 1) p | None \<Rightarrow> []) in
      if path \<noteq> [] then Inr path
      else stub_bind (need (execfn \<noteq> 0) ''neither /proc/self/exe nor AT_EXECFN'') (\<lambda>_.
           stub_bind (c_string m execfn) (\<lambda>fn.
           stub_bind (need (length fn < path_size) ''path too long'') (\<lambda>_. Inr fn))))"

text \<open>The path with the last component cut off: the loop that steps back to a slash.\<close>

fun dirname_len :: "string \<Rightarrow> nat \<Rightarrow> nat" where
  "dirname_len path 0 = 0"
| "dirname_len path (Suc n) = (if path ! n \<noteq> slash then dirname_len path n else Suc n)"

definition interp_path :: "kernel \<Rightarrow> bytes \<Rightarrow> u64 \<Rightarrow> u64 \<Rightarrow> string stub" where
  "interp_path k m execfn rel_addr =
     stub_bind (own_path k m execfn) (\<lambda>path.
     stub_bind (c_string m rel_addr) (\<lambda>rel.
       let n = (if m rel_addr = slash then 0 else dirname_len path (length path)) in
       stub_bind (need (n + length rel + 1 \<le> path_size) ''path too long'') (\<lambda>_. Inr (take n path @ rel))))"

section \<open>Model: the dynamic linker\<close>

text \<open>A word read as a signed number is negative when its top bit is set.\<close>

definition negative :: "u64 \<Rightarrow> bool" where
  "negative r \<longleftrightarrow> r \<ge> 0x8000000000000000"

text \<open>The 4096 bytes of \<^verbatim>\<open>hdr\<close>: what was read of the file; what was not read, or is behind the buffer, is not known.\<close>

definition hdr_bytes :: "kernel \<Rightarrow> string \<Rightarrow> bytes" where
  "hdr_bytes k f = (\<lambda>a. if int (unat a) < k_pread k f then f ! unat a else k_junk k a)"

definition Ehdr_size :: int where "Ehdr_size = 64"
definition hdr_size :: u64 where "hdr_size = 4096"

definition e_entry :: "bytes \<Rightarrow> u64" where "e_entry hdr = of_nat (mem_le hdr 24 8)"
definition e_phoff :: "bytes \<Rightarrow> u64" where "e_phoff hdr = of_nat (mem_le hdr 32 8)"
definition e_phnum :: "bytes \<Rightarrow> nat" where "e_phnum hdr = mem_le hdr 56 2"

definition interp_headers :: "bytes \<Rightarrow> seg_header list" where
  "interp_headers hdr = map snd (Phdrs hdr (e_phoff hdr) (e_phnum hdr))"

definition widen :: "u64 \<times> u64 \<Rightarrow> seg_header \<Rightarrow> u64 \<times> u64" where
  "widen r ph =
     (case r of (lo, hi) \<Rightarrow>
        if p_type ph = PT_LOAD
        then (if p_vaddr ph < lo then p_vaddr ph else lo,
              if p_vaddr ph + p_memsz ph > hi then p_vaddr ph + p_memsz ph else hi)
        else (lo, hi))"

definition load_range :: "u64 \<Rightarrow> seg_header list \<Rightarrow> u64 \<times> u64" where
  "load_range PG phs = (case foldl widen (- 1, 0) phs of (lo, hi) \<Rightarrow> (page_down PG lo, page_up PG hi))"

function zero_fill :: "u64 \<Rightarrow> u64 \<Rightarrow> bytes \<Rightarrow> bytes" where
  "zero_fill z e m = (if z < e then zero_fill (z + 1) e (m(z := CHR 0x00)) else m)"
  by pat_completeness auto
termination
proof (relation "measure (\<lambda>(z, e, m). unat e - unat z)", goal_cases)
  case (2 z e m)
  then have "unat z < unat e" by (simp add: word_less_nat_alt)
  moreover have "unat z + 1 < 2 ^ 64"
    using calculation unsigned_less [of e, where ?'a = nat] by simp
  then have "unat (z + 1) = unat z + 1" by (simp add: unat_word_ariths)
  ultimately show ?case by simp
qed simp

declare zero_fill.simps [simp del]

definition map_fixed :: "kernel \<Rightarrow> u64 \<Rightarrow> u64 \<Rightarrow> string \<Rightarrow> address_space \<Rightarrow> address_space stub" where
  "map_fixed k addr len m s1 = (if k_map k addr len \<and> \<not> negative addr then Inr s1 else die m)"

definition map_segment :: "kernel \<Rightarrow> u64 \<Rightarrow> u64 \<Rightarrow> string \<Rightarrow> seg_header \<Rightarrow> address_space \<Rightarrow> address_space stub" where
  "map_segment k PG bias f ph s =
     (if p_type ph \<noteq> PT_LOAD then Inr s
      else
        (let seg_start = page_down PG (p_vaddr ph);
             off = page_down PG (p_offset ph);
             file_end = p_vaddr ph + p_filesz ph;
             mem_end = p_vaddr ph + p_memsz ph;
             prot = prot_of (p_flags ph);
             map_len = page_up PG file_end - seg_start
         in stub_bind
              (if map_len \<noteq> 0
               then map_fixed k (bias + seg_start) map_len ''mmap segment failed'' (mmap_file f (bias + seg_start) map_len prot off s)
               else Inr s)
              (\<lambda>s1.
                 if mem_end > file_end then
                   (let s2 = (if prot AND PROT_WRITE \<noteq> 0
                              then s1\<lparr>as_mem := zero_fill (bias + file_end) (bias + page_up PG file_end) (as_mem s1)\<rparr> else s1);
                        anon_start = page_up PG file_end;
                        anon_end = page_up PG mem_end
                    in if anon_end > anon_start
                       then map_fixed k (bias + anon_start) (anon_end - anon_start) ''mmap bss failed''
                              (mmap_zero (bias + anon_start) (anon_end - anon_start) prot s2)
                       else Inr s2)
                 else Inr s1)))"

fun map_segments :: "kernel \<Rightarrow> u64 \<Rightarrow> u64 \<Rightarrow> string \<Rightarrow> seg_header list \<Rightarrow> address_space \<Rightarrow> address_space stub" where
  "map_segments k PG bias f [] s = Inr s"
| "map_segments k PG bias f (ph # phs) s = stub_bind (map_segment k PG bias f ph s) (map_segments k PG bias f phs)"

definition load_interp :: "kernel \<Rightarrow> u64 \<Rightarrow> string \<Rightarrow> address_space \<Rightarrow> (u64 \<times> u64 \<times> address_space) stub" where
  "load_interp k PG path s =
     (case k_open k path of
        None \<Rightarrow> die ''cannot open interpreter (relative path)''
      | Some f \<Rightarrow>
          (let hdr = hdr_bytes k f; phs = interp_headers hdr in
           stub_bind (need (k_pread k f \<ge> Ehdr_size) ''short read'') (\<lambda>_.
           stub_bind (need (e_phoff hdr + of_nat (e_phnum hdr) * Phdr_size \<le> hdr_size) ''phdrs out of first page'') (\<lambda>_.
             case load_range PG phs of (lo, hi) \<Rightarrow>
               (let base = k_reserve k (hi - lo); bias = base - lo in
                stub_bind (need (\<not> (negative base \<and> base > - 4096)) ''mmap reserve failed'') (\<lambda>_.
                stub_bind (map_segments k PG bias f phs (mmap_zero base (hi - lo) 0 s)) (\<lambda>s1.
                  Inr (bias, bias + e_entry hdr, s1))))))))"

section \<open>Model: entering it\<close>

definition enable_interp :: "u64 \<Rightarrow> bytes \<Rightarrow> bytes" where
  "enable_interp a m = m(a := CHR 0x03, a + 1 := CHR 0x00, a + 2 := CHR 0x00, a + 3 := CHR 0x00)"

definition restore_interp :: "kernel \<Rightarrow> u64 \<Rightarrow> u64 \<Rightarrow> 32 word \<Rightarrow> address_space \<Rightarrow> address_space stub" where
  "restore_interp k PG interp_ph phdr_prot s =
     (let pg_lo = page_down PG interp_ph; len = page_up PG (interp_ph + Phdr_size) - pg_lo in
      if \<not> k_mprotect k pg_lo len (phdr_prot OR PROT_WRITE) then die ''mprotect phdr rw''
      else (let s1 = mprotect pg_lo len (phdr_prot OR PROT_WRITE) s;
                s2 = s1\<lparr>as_mem := enable_interp interp_ph (as_mem s1)\<rparr>
            in Inr (if k_mprotect k pg_lo len phdr_prot then mprotect pg_lo len phdr_prot s2 else s2)))"

fun patch_auxv :: "u64 \<Rightarrow> u64 \<Rightarrow> u64 list \<Rightarrow> bool \<times> bool \<times> u64 list" where
  "patch_auxv bias entry (t # v # rest) =
     (if t = AT_NULL then (False, False, t # v # rest)
      else case patch_auxv bias entry rest of (have_base, have_entry, rest1) \<Rightarrow>
        (have_base \<or> t = AT_BASE, have_entry \<or> t = AT_ENTRY,
         t # (if t = AT_ENTRY then entry else if t = AT_BASE then bias else v) # rest1))"
| "patch_auxv bias entry ws = (False, False, ws)"

text \<open>The address to jump to, the patched stack and the memory.\<close>

definition reloc_main :: "kernel \<Rightarrow> build \<Rightarrow> u64 list \<Rightarrow> address_space \<Rightarrow> (u64 \<times> u64 list \<times> address_space) stub" where
  "reloc_main k b stack s =
     (let m = as_mem s; auxv = auxv_of stack; si = find_self stack in
      stub_bind (need (si_ph si \<noteq> 0) ''no AT_PHDR'') (\<lambda>_.
        let os = own_scan_of m si; phdr_prot = phdr_prot_of m si os in
        stub_bind (need (os_interp os \<noteq> 0) ''no disabled PT_INTERP (PT_NULL with contents) found'') (\<lambda>_.
        stub_bind (real_entry b os) (\<lambda>entry.
        stub_bind (interp_path k m (si_execfn si) (os_bias os + p_vaddr (read_Phdr m (os_interp os)))) (\<lambda>path.
        stub_bind (load_interp k (si_pg si) path s) (\<lambda>(bias, ld_entry, s1).
        stub_bind (restore_interp k (si_pg si) (os_interp os) phdr_prot s1) (\<lambda>s2.
          case patch_auxv bias entry auxv of (have_base, have_entry, auxv1) \<Rightarrow>
            stub_bind (need (have_base \<and> have_entry) ''auxv lacks AT_BASE/AT_ENTRY'') (\<lambda>_.
              Inr (ld_entry, take (length stack - length auxv) stack @ auxv1, s2)))))))))"

section \<open>Pages\<close>

definition dn :: "nat \<Rightarrow> nat \<Rightarrow> nat" where "dn g n = n div 2 ^ g * 2 ^ g"
definition up :: "nat \<Rightarrow> nat \<Rightarrow> nat" where "up g n = dn g (n + (2 ^ g - 1))"

lemma dn_le: "dn g n \<le> n"
  by (simp add: dn_def)

lemma dn_gt: "n < dn g n + 2 ^ g"
proof -
  have "n mod 2 ^ g < 2 ^ g" "dn g n + n mod 2 ^ g = n" by (simp_all add: dn_def div_mult_mod_eq)
  then show ?thesis by linarith
qed

lemma dn_mono: "m \<le> n \<Longrightarrow> dn g m \<le> dn g n"
  by (simp add: dn_def div_le_mono)

lemma up_ge: "n \<le> up g n"
  using dn_gt [of "n + (2 ^ g - 1)" g] by (simp add: up_def)

lemma up_less: "up g n < n + 2 ^ g"
proof -
  have "0 < (2 :: nat) ^ g" by simp
  then show ?thesis using dn_le [of g "n + (2 ^ g - 1)"] unfolding up_def by linarith
qed

lemma up_mono: "m \<le> n \<Longrightarrow> up g m \<le> up g n"
  by (simp add: up_def dn_mono)

lemma dn_diff: "m mod 2 ^ g = n mod 2 ^ g \<Longrightarrow> dn g m + (n - dn g n) = m"
proof -
  assume "m mod 2 ^ g = n mod 2 ^ g"
  moreover have "n - dn g n = n mod 2 ^ g" "dn g m + m mod 2 ^ g = m"
    by (simp_all add: dn_def minus_div_mult_eq_mod div_mult_mod_eq)
  ultimately show ?thesis by simp
qed

lemma up_aligned: "n mod 2 ^ g = 0 \<Longrightarrow> up g n = n"
proof -
  assume "n mod 2 ^ g = 0"
  then obtain k where k: "n = 2 ^ g * k" by auto
  have "0 < (2 :: nat) ^ g" by simp
  then have "2 ^ g * k + (2 ^ g - 1) < 2 ^ g * Suc k" unfolding mult_Suc_right by linarith
  then have "(n + (2 ^ g - 1)) div 2 ^ g = k" unfolding k by (intro div_nat_eqI le_add1)
  then show ?thesis unfolding up_def dn_def by (simp add: k)
qed

lemma unat_small: "n < 2 ^ 64 \<Longrightarrow> unat (of_nat n :: u64) = n"
  by (simp add: unat_of_nat take_bit_nat_eq_self)

lemma of_nat_less_u64: "m < 2 ^ 64 \<Longrightarrow> n < 2 ^ 64 \<Longrightarrow> (of_nat m < (of_nat n :: u64)) = (m < n)"
  by (simp add: word_less_nat_alt unat_small)

lemma page_down_nat:
  assumes "g < 32" "n < 2 ^ 64"
  shows "page_down (2 ^ g) (of_nat n) = of_nat (dn g n)"
proof -
  have "page_down (2 ^ g) (of_nat n) = push_bit g (drop_bit g (of_nat n))"
    unfolding page_down_def by (rule bit_word_eqI) (auto simp: bit_simps simp flip: mask_eq_exp_minus_1)
  moreover have "unat (push_bit g (drop_bit g (of_nat n :: u64))) = take_bit 64 (push_bit g (drop_bit g n))"
    using assms(2) by (simp add: unsigned_push_bit_eq unsigned_drop_bit_eq unat_small take_bit_nat_eq_self)
  moreover have "push_bit g (drop_bit g n) = dn g n" by (simp add: push_bit_eq_mult drop_bit_eq_div dn_def)
  moreover have "dn g n < 2 ^ 64" using le_less_trans [OF dn_le [of g n] assms(2)] .
  ultimately show ?thesis by (simp add: word_unat_eq_iff unat_small take_bit_nat_eq_self)
qed

lemma page_up_nat:
  assumes "g < 32" "n + 2 ^ g \<le> 2 ^ 64"
  shows "page_up (2 ^ g) (of_nat n) = of_nat (up g n)"
proof -
  have "(of_nat n + 2 ^ g - 1 :: u64) = of_nat n + of_nat (2 ^ g - 1)" by (simp only: of_nat_diff one_le_power) simp
  then have "(of_nat n + 2 ^ g - 1 :: u64) = of_nat (n + (2 ^ g - 1))" by (simp only: of_nat_add)
  moreover have "0 < (2 :: nat) ^ g" by simp
  then have "n + (2 ^ g - 1) < 2 ^ 64" using assms(2) by linarith
  ultimately show ?thesis
    using page_down_nat [OF assms(1), of "n + (2 ^ g - 1)"] by (simp add: page_up_def page_down_def up_def)
qed

text \<open>Ranges of addresses, as differences that wrap.\<close>

lemma in_range:
  assumes "n < 2 ^ 64" "m + l \<le> 2 ^ 64" "l < 2 ^ 64"
  shows "(of_nat n - of_nat m < (of_nat l :: u64)) = (m \<le> n \<and> n < m + l)"
proof (cases "m \<le> n")
  case True
  then have "of_nat n - of_nat m = (of_nat (n - m) :: u64)" by simp
  then show ?thesis using True assms of_nat_less_u64 [of "n - m" l] by auto
next
  case False
  define d where "d = m - n"
  with False assms have d: "0 < d" "d + l \<le> 2 ^ 64" "m = n + d" "d \<le> 2 ^ 64" by linarith+
  have w: "(of_nat (2 ^ 64) :: u64) = 0" by simp
  have "of_nat n - of_nat m = - (of_nat d :: u64)" by (simp add: d(3))
  also have "\<dots> = of_nat (2 ^ 64) - of_nat d" unfolding w by simp
  also have "\<dots> = of_nat (2 ^ 64 - d)" by (rule of_nat_diff [symmetric]) (rule d(4))
  finally have e: "of_nat n - of_nat m = (of_nat (2 ^ 64 - d) :: u64)" .
  have "2 ^ 64 - d < 2 ^ 64" using d(1) by simp
  with assms(3) have "(of_nat (2 ^ 64 - d) < (of_nat l :: u64)) = (2 ^ 64 - d < l)" by (intro of_nat_less_u64)
  also have "\<dots> = False" using d(2) by simp
  finally show ?thesis using False unfolding e by simp
qed

lemma between_diff: "z \<le> (e :: u64) \<Longrightarrow> (z \<le> a \<and> a < e) = (a - z < e - z)"
  using unsigned_less [of e, where ?'a = nat] by (auto simp: word_less_nat_alt word_le_nat_alt unat_sub_if_size word_size)

lemma zero_fill_eq: "zero_fill z e m a = (if z \<le> a \<and> a < e then CHR 0x00 else m a)"
proof (induction z e m rule: zero_fill.induct)
  case (1 z e m)
  show ?case
  proof (cases "z < e")
    case True
    then have "unat z + 1 < 2 ^ 64"
      using unsigned_less [of e, where ?'a = nat] by (simp add: word_less_nat_alt)
    then have "z + 1 \<le> a \<longleftrightarrow> z < a"
      by (auto simp: word_less_nat_alt word_le_nat_alt unat_word_ariths)
    then show ?thesis using True 1 by (subst zero_fill.simps) (auto simp: order_less_le fun_upd_def)
  next
    case False
    then show ?thesis by (subst zero_fill.simps) auto
  qed
qed

section \<open>Segments\<close>

text \<open>What a loadable segment of the linker must satisfy, as the ELF format says; \<open>g\<close> is the logarithm of the page size.  A
  tail of zeros that starts inside a page needs a writable segment.\<close>

definition seg_ok :: "nat \<Rightarrow> string \<Rightarrow> seg_header \<Rightarrow> bool" where
  "seg_ok g f ph \<longleftrightarrow>
     p_filesz ph \<le> p_memsz ph \<and> unat (p_vaddr ph) + unat (p_memsz ph) < 2 ^ 62
     \<and> unat (p_offset ph) + unat (p_filesz ph) \<le> length f \<and> length f < 2 ^ 62
     \<and> unat (p_vaddr ph) mod 2 ^ g = unat (p_offset ph) mod 2 ^ g
     \<and> (p_filesz ph < p_memsz ph \<longrightarrow> prot_of (p_flags ph) AND PROT_WRITE \<noteq> 0
          \<or> (unat (p_vaddr ph) + unat (p_filesz ph)) mod 2 ^ g = 0)"

abbreviation va :: "seg_header \<Rightarrow> nat" where "va ph \<equiv> unat (p_vaddr ph)"
definition fe :: "seg_header \<Rightarrow> nat" where "fe ph = unat (p_vaddr ph) + unat (p_filesz ph)"
definition me :: "seg_header \<Rightarrow> nat" where "me ph = unat (p_vaddr ph) + unat (p_memsz ph)"

definition seg_begin :: "nat \<Rightarrow> seg_header \<Rightarrow> nat" where
  "seg_begin g ph = dn g (unat (p_vaddr ph))"

definition seg_end :: "nat \<Rightarrow> seg_header \<Rightarrow> nat" where
  "seg_end g ph = up g (me ph)"

text \<open>A segment is in place: its bytes are those of the file, then zeros, with its protection; \<open>B\<close> is the load bias.\<close>

definition seg_loaded :: "nat \<Rightarrow> u64 \<Rightarrow> string \<Rightarrow> seg_header \<Rightarrow> address_space \<Rightarrow> bool" where
  "seg_loaded g B f ph s \<longleftrightarrow>
     (\<forall>i < unat (p_memsz ph). as_mem s (B + p_vaddr ph + of_nat i) =
        (if i < unat (p_filesz ph) then f ! (unat (p_offset ph) + i) else CHR 0x00))
     \<and> (\<forall>n. seg_begin g ph \<le> n \<longrightarrow> n < seg_end g ph \<longrightarrow> as_prot s (B + of_nat n) = prot_of (p_flags ph))"

text \<open>Two memories agree at an address.\<close>

definition same_at :: "address_space \<Rightarrow> address_space \<Rightarrow> u64 \<Rightarrow> bool" where
  "same_at s t a \<longleftrightarrow> as_mem s a = as_mem t a \<and> as_prot s a = as_prot t a"

lemma seg_bounds:
  assumes "seg_ok g f ph"
  shows "va ph \<le> (fe ph)" "fe ph \<le> (me ph)" "me ph < 2 ^ 62" "unat (p_offset ph) < 2 ^ 62"
  using assms by (auto simp: seg_ok_def fe_def me_def word_le_nat_alt)

lemma page_size: "g < 32 \<Longrightarrow> (2 :: nat) ^ g \<le> 2 ^ 31"
  by (intro power_increasing) auto

lemma seg_ups:
  assumes "g < 32" "seg_ok g f ph"
  shows "up g (fe ph) < 2 ^ 63" "up g (me ph) < 2 ^ 63" "dn g (va ph) \<le> (va ph)" "fe ph \<le> up g (fe ph)" "me ph \<le> up g (me ph)" "up g (fe ph) \<le> up g (me ph)"
  using up_less [of g "fe ph"] up_less [of g "me ph"] page_size [OF assms(1)] seg_bounds [OF assms(2)] dn_le up_ge up_mono by (auto intro: less_le_trans)

lemma seg_words:
  assumes "g < 32" "seg_ok g f ph"
  shows "page_down (2 ^ g) (p_vaddr ph) = of_nat (dn g (va ph))" "page_down (2 ^ g) (p_offset ph) = of_nat (dn g (unat (p_offset ph)))"
  "p_vaddr ph + p_filesz ph = of_nat (fe ph)" "p_vaddr ph + p_memsz ph = of_nat (me ph)"
  "page_up (2 ^ g) (of_nat (fe ph)) = of_nat (up g (fe ph))" "page_up (2 ^ g) (of_nat (me ph)) = of_nat (up g (me ph))"
  using fe_def [of ph] me_def [of ph] page_down_nat [OF assms(1), of "va ph"] page_down_nat [OF assms(1), of "unat (p_offset ph)"]
    page_up_nat [OF assms(1), of "fe ph"] page_up_nat [OF assms(1), of "me ph"] seg_bounds [OF assms(2)] page_size [OF assms(1)] by auto

lemma seg_lens:
  assumes "g < 32" "seg_ok g f ph"
  shows "(of_nat (up g (fe ph)) - of_nat (dn g (va ph)) :: u64) = of_nat (up g (fe ph) - dn g (va ph))"
  "(of_nat (up g (me ph)) - of_nat (up g (fe ph)) :: u64) = of_nat (up g (me ph) - up g (fe ph))"
  using seg_ups [OF assms] seg_bounds [OF assms(2)] by (simp_all add: of_nat_diff)

text \<open>The effect at an address \<open>B + n\<close> of each of the three steps.\<close>

lemma file_mapped:
  fixes s prot B
  assumes "g < 32" "seg_ok g f ph" "n < 2 ^ 64"
  defines "s1 \<equiv> mmap_file f (B + of_nat (dn g (va ph))) (of_nat (up g (fe ph) - dn g (va ph))) prot (of_nat (dn g (unat (p_offset ph)))) s"
  shows "\<not> (dn g (va ph) \<le> n \<and> n < up g (fe ph)) \<Longrightarrow> same_at s1 s (B + of_nat n)"
    and "dn g (va ph) \<le> n \<Longrightarrow> n < up g (fe ph) \<Longrightarrow> as_prot s1 (B + of_nat n) = prot"
    and "va ph \<le> n \<Longrightarrow> n < (fe ph) \<Longrightarrow> as_mem s1 (B + of_nat n) = f ! (unat (p_offset ph) + (n - (va ph)))"
proof -
  note ups = seg_ups [OF assms(1,2)] and bounds = seg_bounds [OF assms(2)] and ok = assms(2)
  have r: "(of_nat n - of_nat (dn g (va ph)) < (of_nat (up g (fe ph) - dn g (va ph)) :: u64)) = (dn g (va ph) \<le> n \<and> n < up g (fe ph))"
    using in_range [of n "dn g (va ph)" "up g (fe ph) - dn g (va ph)"] assms(3) ups bounds by auto
  show "\<not> (dn g (va ph) \<le> n \<and> n < up g (fe ph)) \<Longrightarrow> same_at s1 s (B + of_nat n)"
    and "dn g (va ph) \<le> n \<Longrightarrow> n < up g (fe ph) \<Longrightarrow> as_prot s1 (B + of_nat n) = prot"
    by (auto simp: s1_def mmap_file_def r same_at_def simp del: of_nat_diff)
  assume n: "va ph \<le> n" "n < (fe ph)"
  let ?o = "unat (p_offset ph)"
  have "dn g ?o + (n - dn g (va ph)) = ?o + (n - (va ph))"
    using dn_diff [of ?o g "va ph"] ok n ups(3) by (simp add: seg_ok_def)
  moreover have "of_nat (dn g ?o) + (of_nat n - of_nat (dn g (va ph))) = (of_nat (dn g ?o + (n - dn g (va ph))) :: u64)"
    using n ups(3) by simp
  ultimately have "of_nat (dn g ?o) + (of_nat n - of_nat (dn g (va ph))) = (of_nat (?o + (n - va ph)) :: u64)" by (simp only:)
  moreover have "?o + (n - va ph) < length f" "length f < 2 ^ 62" using ok n by (auto simp: seg_ok_def fe_def)
  ultimately show "as_mem s1 (B + of_nat n) = f ! (?o + (n - (va ph)))"
    using n r ups by (simp add: s1_def mmap_file_def file_byte_def unat_small del: of_nat_diff)
qed

lemma tail_zeroed:
  assumes "g < 32" "seg_ok g f ph" "n < 2 ^ 64" "B + of_nat (fe ph) \<le> B + of_nat (up g (fe ph))"
  shows "zero_fill (B + of_nat (fe ph)) (B + of_nat (up g (fe ph))) m (B + of_nat n) =
    (if fe ph \<le> n \<and> n < up g (fe ph) then CHR 0x00 else m (B + of_nat n))"
proof -
  note ups = seg_ups [OF assms(1,2)] and bounds = seg_bounds [OF assms(2)]
  have "B + of_nat (up g (fe ph)) - (B + of_nat (fe ph)) = (of_nat (up g (fe ph) - (fe ph)) :: u64)" using ups(4) by (simp add: of_nat_diff)
  then show ?thesis
    using in_range [of n "fe ph" "up g (fe ph) - fe ph"] assms(3) ups bounds
    by (auto simp: zero_fill_eq between_diff [OF assms(4)])
qed

lemma zero_mapped:
  fixes s prot B
  assumes "g < 32" "seg_ok g f ph" "n < 2 ^ 64"
  defines "s1 \<equiv> mmap_zero (B + of_nat (up g (fe ph))) (of_nat (up g (me ph) - up g (fe ph))) prot s"
  shows "\<not> (up g (fe ph) \<le> n \<and> n < up g (me ph)) \<Longrightarrow> same_at s1 s (B + of_nat n)"
    and "up g (fe ph) \<le> n \<Longrightarrow> n < up g (me ph) \<Longrightarrow> as_prot s1 (B + of_nat n) = prot \<and> as_mem s1 (B + of_nat n) = CHR 0x00"
  using in_range [of n "up g (fe ph)" "up g (me ph) - up g (fe ph)"] assms(3) seg_ups [OF assms(1,2)] seg_bounds [OF assms(2)]
  by (auto simp: s1_def mmap_zero_def same_at_def simp del: of_nat_diff)

text \<open>The kernel grants every mapping of the range from \<open>lo\<close> to \<open>hi\<close> above the bias \<open>B\<close>, and its addresses do not wrap.\<close>

definition granted :: "kernel \<Rightarrow> u64 \<Rightarrow> nat \<Rightarrow> nat \<Rightarrow> bool" where
  "granted k B lo hi \<longleftrightarrow> (\<forall>a len. k_map k a len) \<and> (\<forall>n. lo \<le> n \<longrightarrow> n \<le> hi \<longrightarrow> \<not> negative (B + of_nat n))
     \<and> (\<forall>m n. lo \<le> m \<longrightarrow> m \<le> n \<longrightarrow> n \<le> hi \<longrightarrow> B + of_nat m \<le> B + of_nat n)"

text \<open>The memory after each of the three steps of a segment.\<close>

definition seg_file :: "nat \<Rightarrow> u64 \<Rightarrow> string \<Rightarrow> seg_header \<Rightarrow> address_space \<Rightarrow> address_space" where
  "seg_file g B f ph s = mmap_file f (B + of_nat (dn g (va ph))) (of_nat (up g (fe ph) - dn g (va ph))) (prot_of (p_flags ph))
     (of_nat (dn g (unat (p_offset ph)))) s"

definition seg_tail :: "nat \<Rightarrow> u64 \<Rightarrow> seg_header \<Rightarrow> address_space \<Rightarrow> address_space" where
  "seg_tail g B ph s =
     (if prot_of (p_flags ph) AND PROT_WRITE \<noteq> 0
      then s\<lparr>as_mem := zero_fill (B + of_nat (fe ph)) (B + of_nat (up g (fe ph))) (as_mem s)\<rparr> else s)"

definition seg_zero :: "nat \<Rightarrow> u64 \<Rightarrow> seg_header \<Rightarrow> address_space \<Rightarrow> address_space" where
  "seg_zero g B ph s = mmap_zero (B + of_nat (up g (fe ph))) (of_nat (up g (me ph) - up g (fe ph))) (prot_of (p_flags ph)) s"

definition seg_image :: "nat \<Rightarrow> u64 \<Rightarrow> string \<Rightarrow> seg_header \<Rightarrow> address_space \<Rightarrow> address_space" where
  "seg_image g B f ph s =
     (if fe ph < me ph then seg_zero g B ph (seg_tail g B ph (seg_file g B f ph s)) else seg_file g B f ph s)"

lemmas seg_range_defs = seg_begin_def seg_end_def

lemma map_segment_image:
  assumes "g < 32" "seg_ok g f ph" "p_type ph = PT_LOAD" "granted k B lo hi" "lo \<le> seg_begin g ph" "seg_end g ph \<le> hi"
  shows "map_segment k (2 ^ g) B f ph s = Inr (seg_image g B f ph s)"
proof -
  note b = seg_ups [OF assms(1,2)] seg_bounds [OF assms(2)]
  note w = seg_words [OF assms(1,2)] and l = seg_lens [OF assms(1,2)]
  let ?s1 = "seg_file g B f ph s"
  let ?l1 = "of_nat (up g (fe ph) - dn g (va ph)) :: u64" and ?l2 = "of_nat (up g (me ph) - up g (fe ph)) :: u64"
  have c: "(of_nat (fe ph) < (of_nat (me ph) :: u64)) = (fe ph < me ph)"
    "(of_nat (up g (fe ph)) < (of_nat (up g (me ph)) :: u64)) = (up g (fe ph) < up g (me ph))"
    "(?l1 \<noteq> 0) = (up g (fe ph) - dn g (va ph) \<noteq> 0)"
    using b of_nat_less_u64 [of 0 "up g (fe ph) - dn g (va ph)"] by (auto simp: of_nat_less_u64 word_gt_0 simp del: of_nat_diff)
  have "\<not> negative (B + of_nat (dn g (va ph)))" "\<not> negative (B + of_nat (up g (fe ph)))"
    using assms(4,5,6) b by (auto simp: granted_def seg_range_defs)
  then have m: "map_fixed k (B + of_nat (dn g (va ph))) len x t = Inr t" "map_fixed k (B + of_nat (up g (fe ph))) len x t = Inr t" for len x t
    using assms(4) by (simp_all add: map_fixed_def granted_def)
  have first: "(if ?l1 \<noteq> 0 then map_fixed k (B + of_nat (dn g (va ph))) ?l1 x ?s1 else Inr s) = Inr ?s1" for x
    unfolding c(3) by (auto simp: m seg_file_def mmap_file_def simp del: of_nat_diff)
  have last: "(if up g (fe ph) < up g (me ph) then map_fixed k (B + of_nat (up g (fe ph))) ?l2 x (seg_zero g B ph t) else Inr t)
      = Inr (seg_zero g B ph t)" for x t
    by (auto simp: m seg_zero_def mmap_zero_def simp del: of_nat_diff)
  have "map_segment k (2 ^ g) B f ph s = stub_bind (Inr ?s1) (\<lambda>s1. if fe ph < me ph then
      (if up g (fe ph) < up g (me ph)
       then map_fixed k (B + of_nat (up g (fe ph))) ?l2 ''mmap bss failed'' (seg_zero g B ph (seg_tail g B ph s1))
       else Inr (seg_tail g B ph s1)) else Inr s1)"
    unfolding map_segment_def Let_def w l c(1,2) assms(3) seg_zero_def seg_tail_def
    by (simp only: simp_thms if_False first [unfolded seg_file_def] seg_file_def)
  then have "map_segment k (2 ^ g) B f ph s = (if fe ph < me ph then Inr (seg_zero g B ph (seg_tail g B ph ?s1)) else Inr ?s1)"
    by (simp only: stub_bind_def sum.case last)
  then show ?thesis by (simp add: seg_image_def)
qed

lemma tail_prot: "as_prot (seg_tail g B ph s) = as_prot s"
  by (simp add: seg_tail_def)

lemma seg_image_outside:
  assumes "g < 32" "seg_ok g f ph" "B + of_nat (fe ph) \<le> B + of_nat (up g (fe ph))"
    and "n < 2 ^ 64" "n < seg_begin g ph \<or> seg_end g ph \<le> n"
  shows "same_at (seg_image g B f ph s) s (B + of_nat n)"
proof -
  note b = seg_ups [OF assms(1,2)] seg_bounds [OF assms(2)]
  have "same_at (seg_file g B f ph s) s (B + of_nat n)"
    unfolding seg_file_def using assms(5) b by (intro file_mapped(1) [OF assms(1,2,4)]) (auto simp: seg_range_defs)
  moreover have "same_at (seg_tail g B ph t) t (B + of_nat n)" for t
    using tail_zeroed [OF assms(1,2,4,3), of "as_mem t"] assms(5) b by (auto simp: seg_tail_def same_at_def seg_range_defs)
  moreover have "same_at (seg_zero g B ph t) t (B + of_nat n)" for t
    unfolding seg_zero_def using assms(5) b by (intro zero_mapped(1) [OF assms(1,2,4)]) (auto simp: seg_range_defs)
  ultimately show ?thesis by (simp add: seg_image_def same_at_def)
qed

lemma seg_image_prot:
  assumes "g < 32" "seg_ok g f ph" and n: "seg_begin g ph \<le> n" "n < seg_end g ph"
  shows "as_prot (seg_image g B f ph s) (B + of_nat n) = prot_of (p_flags ph)"
proof -
  note b = seg_ups [OF assms(1,2)] seg_bounds [OF assms(2)]
  have n64: "n < 2 ^ 64" using n b by (simp add: seg_end_def)
  show ?thesis
  proof (cases "n < up g (fe ph)")
    case True
    then have "as_prot (seg_file g B f ph s) (B + of_nat n) = prot_of (p_flags ph)"
      unfolding seg_file_def using n by (intro file_mapped(2) [OF assms(1,2) n64]) (auto simp: seg_begin_def)
    moreover have "same_at (seg_zero g B ph t) t (B + of_nat n)" for t
      unfolding seg_zero_def using True by (intro zero_mapped(1) [OF assms(1,2) n64]) auto
    ultimately show ?thesis by (simp add: seg_image_def tail_prot same_at_def)
  next
    case False
    then have "fe ph < me ph" using n b by (auto simp: seg_end_def order.order_iff_strict)
    moreover have "as_prot (seg_zero g B ph t) (B + of_nat n) = prot_of (p_flags ph)" for t
      unfolding seg_zero_def using False n zero_mapped(2) [OF assms(1,2) n64] by (simp add: seg_end_def)
    ultimately show ?thesis by (simp add: seg_image_def)
  qed
qed

lemma seg_image_bytes:
  assumes "g < 32" "seg_ok g f ph" and le: "B + of_nat (fe ph) \<le> B + of_nat (up g (fe ph))" and n: "va ph \<le> n" "n < me ph"
  shows "as_mem (seg_image g B f ph s) (B + of_nat n) = (if n < fe ph then f ! (unat (p_offset ph) + (n - va ph)) else CHR 0x00)"
proof -
  note b = seg_ups [OF assms(1,2)] seg_bounds [OF assms(2)]
  have n64: "n < 2 ^ 64" using n b by simp
  let ?s1 = "seg_file g B f ph s"
  let ?s2 = "seg_tail g B ph ?s1"
  note z1 = zero_mapped(1) [OF assms(1,2) n64, of B "prot_of (p_flags ph)" ?s2, folded seg_zero_def]
    and z2 = zero_mapped(2) [OF assms(1,2) n64, of B "prot_of (p_flags ph)" ?s2, folded seg_zero_def]
    and t = tail_zeroed [OF assms(1,2) n64 le, of "as_mem ?s1"]
  consider "n < fe ph" | "fe ph \<le> n" "n < up g (fe ph)" | "up g (fe ph) \<le> n" by linarith
  then show ?thesis
  proof cases
    case 1
    then have "as_mem ?s1 (B + of_nat n) = f ! (unat (p_offset ph) + (n - va ph))"
      unfolding seg_file_def using n by (intro file_mapped(3) [OF assms(1,2) n64])
    moreover have "as_mem ?s2 (B + of_nat n) = as_mem ?s1 (B + of_nat n)" using 1 t by (simp add: seg_tail_def)
    moreover have "same_at (seg_zero g B ph ?s2) ?s2 (B + of_nat n)" using z1 1 b by auto
    ultimately show ?thesis using 1 by (simp add: seg_image_def same_at_def)
  next
    case 2
    then have "prot_of (p_flags ph) AND PROT_WRITE \<noteq> 0"
      using assms(2) n b up_aligned [of "fe ph" g] by (auto simp: seg_ok_def fe_def me_def word_less_nat_alt)
    then have "as_mem ?s2 (B + of_nat n) = CHR 0x00" using t 2 by (simp add: seg_tail_def)
    moreover have "same_at (seg_zero g B ph ?s2) ?s2 (B + of_nat n)" using z1 2 by auto
    ultimately show ?thesis using 2 n by (simp add: seg_image_def same_at_def)
  next
    case 3
    then have "as_mem (seg_zero g B ph ?s2) (B + of_nat n) = CHR 0x00" using z2 n b by simp
    then show ?thesis using 3 n b by (simp add: seg_image_def)
  qed
qed

lemma seg_image_loaded:
  assumes "g < 32" "seg_ok g f ph" "B + of_nat (fe ph) \<le> B + of_nat (up g (fe ph))"
  shows "seg_loaded g B f ph (seg_image g B f ph s)"
proof -
  have "as_mem (seg_image g B f ph s) (B + p_vaddr ph + of_nat i) =
      (if i < unat (p_filesz ph) then f ! (unat (p_offset ph) + i) else CHR 0x00)" if "i < unat (p_memsz ph)" for i
    using seg_image_bytes [OF assms, of "va ph + i"] that by (simp add: fe_def me_def add.assoc)
  then show ?thesis using seg_image_prot [OF assms(1,2)] by (simp add: seg_loaded_def)
qed

text \<open>A segment stays in place when its pages are left alone.\<close>

lemma seg_loaded_frame:
  assumes "g < 32" "seg_ok g f ph" "\<And>n. n < 2 ^ 64 \<Longrightarrow> seg_begin g ph \<le> n \<Longrightarrow> n < seg_end g ph \<Longrightarrow> same_at t s (B + of_nat n)"
    and "seg_loaded g B f ph s"
  shows "seg_loaded g B f ph t"
proof -
  note b = seg_ups [OF assms(1,2)] seg_bounds [OF assms(2)]
  have "same_at t s (B + p_vaddr ph + of_nat i)" if "i < unat (p_memsz ph)" for i
  proof -
    have "va ph + i < me ph" using that by (simp add: me_def)
    then have "same_at t s (B + of_nat (va ph + i))"
      using b by (intro assms(3)) (auto simp: seg_range_defs)
    then show ?thesis by (simp add: add.assoc)
  qed
  moreover have "n < 2 ^ 64" if "n < seg_end g ph" for n using that b by (simp add: seg_end_def)
  ultimately show ?thesis using assms(3,4) by (auto simp: seg_loaded_def same_at_def)
qed

section \<open>The whole linker\<close>

definition loads :: "seg_header list \<Rightarrow> seg_header list" where
  "loads phs = filter (\<lambda>ph. p_type ph = PT_LOAD) phs"

text \<open>The segments are well formed and lie in ascending order on pages of their own.\<close>

definition layout :: "nat \<Rightarrow> string \<Rightarrow> seg_header list \<Rightarrow> bool" where
  "layout g f phs \<longleftrightarrow> list_all (seg_ok g f) (loads phs) \<and> sorted_wrt (\<lambda>a b. seg_end g a \<le> seg_begin g b) (loads phs)"

lemma map_segments_load:
  assumes "g < 32" "layout g f phs" "granted k B lo hi" "\<forall>ph \<in> set (loads phs). lo \<le> seg_begin g ph \<and> seg_end g ph \<le> hi"
  shows "\<exists>s'. map_segments k (2 ^ g) B f phs s = Inr s' \<and> (\<forall>ph \<in> set (loads phs). seg_loaded g B f ph s')
    \<and> (\<forall>n < 2 ^ 64. (\<forall>ph \<in> set (loads phs). n < seg_begin g ph \<or> seg_end g ph \<le> n) \<longrightarrow> same_at s' s (B + of_nat n))"
  using assms(2,4)
proof (induction phs arbitrary: s)
  case Nil
  then show ?case by (simp add: loads_def same_at_def)
next
  case (Cons ph phs)
  show ?case
  proof (cases "p_type ph = PT_LOAD")
    case False
    with Cons show ?thesis by (simp add: loads_def layout_def map_segment_def stub_bind_def)
  next
    case True
    then have L: "loads (ph # phs) = ph # loads phs" by (simp add: loads_def)
    let ?s1 = "seg_image g B f ph s"
    have ok: "seg_ok g f ph" "layout g f phs" "\<forall>p \<in> set (loads phs). seg_end g ph \<le> seg_begin g p"
      using Cons.prems(1) by (auto simp: layout_def L)
    have r: "lo \<le> seg_begin g ph" "seg_end g ph \<le> hi" using Cons.prems(2) by (auto simp: L)
    have le: "B + of_nat (fe ph) \<le> B + of_nat (up g (fe ph))"
      using assms(3) r seg_ups [OF assms(1) ok(1)] seg_bounds [OF ok(1)] by (auto simp: granted_def seg_range_defs)
    from Cons.IH [OF ok(2), of ?s1] Cons.prems(2) obtain s' where s': "map_segments k (2 ^ g) B f phs ?s1 = Inr s'"
      "\<forall>p \<in> set (loads phs). seg_loaded g B f p s'"
      "\<forall>n < 2 ^ 64. (\<forall>p \<in> set (loads phs). n < seg_begin g p \<or> seg_end g p \<le> n) \<longrightarrow> same_at s' ?s1 (B + of_nat n)"
      by (auto simp: L)
    have "seg_loaded g B f ph s'"
      by (rule seg_loaded_frame [OF assms(1) ok(1) _ seg_image_loaded [OF assms(1) ok(1) le]]) (use s'(3) ok(3) in fastforce)
    moreover have "same_at s' s (B + of_nat n)"
      if "n < 2 ^ 64" "\<forall>p \<in> set (loads (ph # phs)). n < seg_begin g p \<or> seg_end g p \<le> n" for n
      using seg_image_outside [OF assms(1) ok(1) le that(1), of s] s'(3) that by (auto simp: L same_at_def)
    ultimately show ?thesis
      using s'(1,2) map_segment_image [OF assms(1) ok(1) True assms(3) r] by (auto simp: L stub_bind_def)
  qed
qed

text \<open>The length of a string that ends is found.\<close>

lemma slen_from_stops:
  "m (s + of_nat n) = CHR 0x00 \<Longrightarrow> \<forall>j. i \<le> j \<and> j < n \<longrightarrow> m (s + of_nat j) \<noteq> CHR 0x00 \<Longrightarrow> i \<le> n \<Longrightarrow> slen_from m s i = Some n"
proof (induction "n - i" arbitrary: i)
  case 0
  then show ?case by (subst slen_from.simps) simp
next
  case (Suc d)
  then have "slen_from m s (i + 1) = Some n" by (intro Suc.hyps(1)) auto
  moreover have "m (s + of_nat i) \<noteq> CHR 0x00" using Suc by auto
  ultimately show ?case by (subst slen_from.simps) simp
qed

lemma c_string_ends:
  assumes "m (s + of_nat n) = CHR 0x00" "\<forall>j < n. m (s + of_nat j) \<noteq> CHR 0x00"
  shows "c_string m s = Inr (read_chars m s n)"
  using slen_from_stops [of m s n 0] assms by (simp add: c_string_def slen_def)

lemma widen_fold:
  "foldl widen (lo, hi) phs = (lo', hi') \<Longrightarrow> lo' \<le> lo \<and> hi \<le> hi'
     \<and> (\<forall>ph \<in> set (loads phs). lo' \<le> p_vaddr ph \<and> p_vaddr ph + p_memsz ph \<le> hi')
     \<and> (hi' = hi \<or> (\<exists>ph \<in> set (loads phs). hi' = p_vaddr ph + p_memsz ph))"
proof (induction phs arbitrary: lo hi)
  case (Cons ph phs)
  show ?case
  proof (cases "p_type ph = PT_LOAD")
    case True
    let ?lo = "if p_vaddr ph < lo then p_vaddr ph else lo" and ?hi = "if p_vaddr ph + p_memsz ph > hi then p_vaddr ph + p_memsz ph else hi"
    have "lo' \<le> ?lo \<and> ?hi \<le> hi' \<and> (\<forall>ph \<in> set (loads phs). lo' \<le> p_vaddr ph \<and> p_vaddr ph + p_memsz ph \<le> hi')
        \<and> (hi' = ?hi \<or> (\<exists>ph \<in> set (loads phs). hi' = p_vaddr ph + p_memsz ph))"
      using Cons True by (intro Cons.IH) (simp add: widen_def)
    with True show ?thesis by (auto simp: loads_def split: if_splits)
  next
    case False
    then show ?thesis using Cons by (simp add: widen_def loads_def)
  qed
qed (simp add: loads_def)

lemma load_range_nat:
  assumes "g < 32" "layout g f phs" "loads phs \<noteq> []"
  obtains LO HI where "load_range (2 ^ g) phs = (of_nat LO, of_nat HI)" "LO \<le> HI" "HI < 2 ^ 63"
    "\<forall>ph \<in> set (loads phs). LO \<le> seg_begin g ph \<and> seg_end g ph \<le> HI"
proof -
  obtain lo hi where r: "foldl widen (- 1, 0) phs = (lo, hi)" by fastforce
  note b = widen_fold [OF r]
  have ok: "seg_ok g f ph" if "ph \<in> set (loads phs)" for ph using assms(2) that by (auto simp: layout_def list_all_iff)
  have w: "unat (p_vaddr ph + p_memsz ph) = me ph" "me ph < 2 ^ 62" if "ph \<in> set (loads phs)" for ph
    using seg_words(4) [OF assms(1) ok [OF that]] seg_bounds(3) [OF ok [OF that]] by (simp_all add: unat_small)
  have small: "unat hi < 2 ^ 62" using b w assms(3) by auto
  have in_r: "unat lo \<le> va ph \<and> me ph \<le> unat hi" if "ph \<in> set (loads phs)" for ph
    using b that w(1) [OF that] by (auto simp: word_le_nat_alt)
  obtain p where p: "p \<in> set (loads phs)" using assms(3) by (cases "loads phs") auto
  have P: "(2 :: nat) ^ g \<le> 2 ^ 31" by (rule page_size [OF assms(1)])
  show ?thesis
  proof
    show "load_range (2 ^ g) phs = (of_nat (dn g (unat lo)), of_nat (up g (unat hi)))"
      using page_down_nat [OF assms(1), of "unat lo"] page_up_nat [OF assms(1), of "unat hi"] small P
        unsigned_less [of lo, where ?'a = nat]
      by (simp add: load_range_def r)
    show "dn g (unat lo) \<le> up g (unat hi)"
      using dn_le [of g "unat lo"] up_ge [of "unat hi" g] in_r [OF p] seg_bounds [OF ok [OF p]] by linarith
    show "up g (unat hi) < 2 ^ 63" using up_less [of g "unat hi"] small P by simp
    show "\<forall>ph \<in> set (loads phs). dn g (unat lo) \<le> seg_begin g ph \<and> seg_end g ph \<le> up g (unat hi)"
      using in_r by (auto simp: seg_range_defs intro: dn_mono up_mono)
  qed
qed

lemma granted_reserved:
  assumes "\<forall>a len. k_map k a len" "unat base + (HI - LO) < 2 ^ 63" "LO \<le> HI"
  shows "granted k (base - of_nat LO) LO HI"
proof -
  have u: "unat (base - of_nat LO + of_nat n) = unat base + (n - LO)" if "LO \<le> n" "n \<le> HI" for n
  proof -
    have "base - of_nat LO + of_nat n = of_nat (unat base + (n - LO))" using that by simp
    moreover have "unat base + (n - LO) < 2 ^ 64" using that assms(2) by simp
    ultimately show ?thesis by (metis unat_small)
  qed
  have "\<not> negative (base - of_nat LO + of_nat n)" if "LO \<le> n" "n \<le> HI" for n
  proof -
    have "unat (base - of_nat LO + of_nat n) < 2 ^ 63" unfolding u [OF that] using that assms(2) by linarith
    then show ?thesis by (simp add: negative_def word_le_nat_alt)
  qed
  moreover have "base - of_nat LO + of_nat m \<le> base - of_nat LO + of_nat n" if "LO \<le> m" "m \<le> n" "n \<le> HI" for m n
    unfolding word_le_nat_alt u [OF that(1) order_trans [OF that(2,3)]] u [OF order_trans [OF that(1,2)] that(3)] using that(2) by simp
  ultimately show ?thesis using assms(1) unfolding granted_def by blast
qed

text \<open>The value of an entry of the auxiliary vector.\<close>

fun aux_val :: "u64 list \<Rightarrow> u64 \<Rightarrow> u64 option" where
  "aux_val (t # v # rest) x = (if t = AT_NULL then None else if t = x then Some v else aux_val rest x)"
| "aux_val _ x = None"

lemma patch_auxv_vals:
  assumes "patch_auxv bias entry ws = (hb, he, ws')"
  shows "hb = (aux_val ws AT_BASE \<noteq> None)" "he = (aux_val ws AT_ENTRY \<noteq> None)" "length ws' = length ws"
    "aux_val ws' x = (if x = AT_ENTRY \<and> he then Some entry else if x = AT_BASE \<and> hb then Some bias else aux_val ws x)"
  using assms
  by (induction bias entry ws arbitrary: hb he ws' rule: patch_auxv.induct)
     (auto simp: AT_BASE_def AT_ENTRY_def AT_NULL_def split: if_splits prod.splits)

lemma auxv_of_replace:
  assumes "auxv_of stack \<noteq> []"
  shows "auxv_of (take (length stack - length (auxv_of stack)) stack @ ws) = ws"
proof -
  let ?n = "unat (stack ! 0) + 2"
  let ?env = "takeWhile (\<lambda>x. x \<noteq> 0) (drop ?n stack)"
  define D where "D = dropWhile (\<lambda>x. x \<noteq> 0) (drop ?n stack)"
  have "auxv_of stack = drop 1 D" by (simp add: auxv_of_def D_def)
  then obtain a where "D = a # auxv_of stack" using assms by (cases D) auto
  then have a: "dropWhile (\<lambda>x. x \<noteq> 0) (drop ?n stack) = a # auxv_of stack" unfolding D_def .
  then have a0: "a = 0" using hd_dropWhile [of "\<lambda>x. x \<noteq> 0" "drop ?n stack"] by auto
  have st: "stack = take ?n stack @ ?env @ 0 # auxv_of stack"
    using a a0 takeWhile_dropWhile_id [of "\<lambda>x. x \<noteq> 0" "drop ?n stack"] append_take_drop_id [of ?n stack] by metis
  have len: "?n \<le> length stack" using a by (cases "?n \<le> length stack") auto
  have env: "\<forall>x \<in> set ?env. x \<noteq> 0" by (auto dest: set_takeWhileD)
  have gen: "take (length xs - length q) xs = p" if "xs = p @ q" for xs p q :: "u64 list" using that by simp
  have "take (length stack - length (auxv_of stack)) stack = take ?n stack @ ?env @ [0]"
    by (rule gen) (use st in simp)
  moreover have "(take ?n stack @ xs) ! 0 = stack ! 0" for xs using len by (simp add: nth_append)
  ultimately show ?thesis
    using len env by (simp add: auxv_of_def dropWhile_append2)
qed

text \<open>The addresses that switching the program's own header on touches.\<close>

definition header_page :: "u64 \<Rightarrow> u64 \<Rightarrow> u64 \<Rightarrow> bool" where
  "header_page PG a x \<longleftrightarrow> x - page_down PG a < page_up PG (a + Phdr_size) - page_down PG a \<or> x - a < 4"

lemma restore_interp_effect:
  assumes "\<forall>a len p. k_mprotect k a len p"
  obtains s' where "restore_interp k PG a prot s = Inr s'" "\<And>x. \<not> header_page PG a x \<Longrightarrow> same_at s' s x"
    "p_type (read_Phdr (as_mem s') a) = PT_INTERP"
proof -
  obtain s' where s': "restore_interp k PG a prot s = Inr s'" "as_mem s' = enable_interp a (as_mem s)"
    "\<And>x. \<not> header_page PG a x \<Longrightarrow> as_prot s' x = as_prot s x"
    using assms by (auto simp: restore_interp_def Let_def mprotect_def header_page_def)
  moreover have "enable_interp a m x = m x" if "\<not> header_page PG a x" for m x
    using that by (auto simp: enable_interp_def header_page_def)
  moreover have "mem_le (enable_interp a m) a 4 = 3" for m
  proof -
    have "[0..<4] = [0, 1, 2, 3 :: nat]" by code_simp
    then show ?thesis by (simp add: mem_le_def enable_interp_def)
  qed
  ultimately show ?thesis using that by (simp add: same_at_def read_Phdr_def PT_INTERP_def)
qed

lemma load_interp_loads:
  fixes k f g
  defines "phs \<equiv> interp_headers (hdr_bytes k f)"
  defines "lo \<equiv> fst (load_range (2 ^ g) phs)" and "hi \<equiv> snd (load_range (2 ^ g) phs)"
  defines "base \<equiv> k_reserve k (hi - lo)"
  assumes "k_open k path = Some f" "g < 32" "Ehdr_size \<le> k_pread k f"
    and "e_phoff (hdr_bytes k f) + of_nat (e_phnum (hdr_bytes k f)) * Phdr_size \<le> hdr_size"
    and "layout g f phs" "loads phs \<noteq> []"
    and "\<forall>a len. k_map k a len" "unat base + unat (hi - lo) < 2 ^ 63"
  obtains s' where "load_interp k (2 ^ g) path s = Inr (base - lo, base - lo + e_entry (hdr_bytes k f), s')"
    "\<forall>ph \<in> set (loads phs). seg_loaded g (base - lo) f ph s'"
    "\<And>ph n. ph \<in> set (loads phs) \<Longrightarrow> seg_begin g ph \<le> n \<Longrightarrow> n < seg_end g ph \<Longrightarrow> base - lo + of_nat n - base < hi - lo"
proof -
  obtain LO HI where r: "load_range (2 ^ g) phs = (of_nat LO, of_nat HI)" "LO \<le> HI" "HI < 2 ^ 63"
    "\<forall>ph \<in> set (loads phs). LO \<le> seg_begin g ph \<and> seg_end g ph \<le> HI"
    using load_range_nat [OF assms(6,9,10)] by blast
  have w: "lo = of_nat LO" "hi = of_nat HI" by (simp_all add: lo_def hi_def r(1))
  have d: "hi - lo = of_nat (HI - LO)" using r(2) by (simp add: w)
  then have "unat (hi - lo) = HI - LO" using r(3) unat_small [of "HI - LO"] by simp
  with assms(12) have ub: "unat base + (HI - LO) < 2 ^ 63" by simp
  then have nn: "\<not> negative base" by (simp add: negative_def word_le_nat_alt)
  from map_segments_load [OF assms(6,9) granted_reserved [OF assms(11) ub r(2)] r(4)]
  obtain s' where s': "map_segments k (2 ^ g) (base - lo) f phs (mmap_zero base (hi - lo) 0 s) = Inr s'"
    "\<forall>ph \<in> set (loads phs). seg_loaded g (base - lo) f ph s'" unfolding w by blast
  have "load_range (2 ^ g) phs = (lo, hi)" by (simp add: lo_def hi_def)
  then have "load_interp k (2 ^ g) path s = Inr (base - lo, base - lo + e_entry (hdr_bytes k f), s')"
    using assms(5,7,8) nn s'(1)
    by (simp add: load_interp_def Let_def need_def stub_bind_def flip: phs_def base_def)
  moreover have "base - lo + of_nat n - base < hi - lo" if "ph \<in> set (loads phs)" "seg_begin g ph \<le> n" "n < seg_end g ph" for ph n
  proof -
    have "LO \<le> n" "n < HI" using r(4) that by (meson order_trans, meson less_le_trans)
    then have "of_nat n - of_nat LO < (of_nat (HI - LO) :: u64)" using in_range [of n LO "HI - LO"] r(2,3) by simp
    then show ?thesis unfolding d unfolding w by (simp add: algebra_simps)
  qed
  ultimately show ?thesis using s'(2) that by blast
qed

section \<open>Properties\<close>

text \<open>C4. The program enters its dynamic linker with the linker in place.  Given a linker file whose segments are
  well formed, and a kernel that grants the mappings, the stub does not fail; every loadable segment of the file has
  its bytes at its address above the reserved base, zeros after them and its protection; the program's interpreter
  header is visible again; \<^verbatim>\<open>AT_BASE\<close> and \<^verbatim>\<open>AT_ENTRY\<close> of the auxiliary vector name the linker and the program, every
  other entry is kept; and the address returned is the entry of the linker.\<close>

theorem interpreter_entered:
  fixes k b stack s g path f entry
  defines "si \<equiv> find_self stack"
  defines "os \<equiv> own_scan_of (as_mem s) si"
  defines "hdr \<equiv> hdr_bytes k f"
  defines "phs \<equiv> interp_headers hdr"
  defines "lo \<equiv> fst (load_range (2 ^ g) phs)" and "hi \<equiv> snd (load_range (2 ^ g) phs)"
  defines "base \<equiv> k_reserve k (hi - lo)"
  assumes own: "si_ph si \<noteq> 0" "si_pg si = 2 ^ g" "g < 32" "os_interp os \<noteq> 0" "real_entry b os = Inr entry"
    and path: "interp_path k (as_mem s) (si_execfn si) (os_bias os + p_vaddr (read_Phdr (as_mem s) (os_interp os))) = Inr path"
    and linker: "k_open k path = Some f" "Ehdr_size \<le> k_pread k f" "e_phoff hdr + of_nat (e_phnum hdr) * Phdr_size \<le> hdr_size"
      "layout g f phs" "loads phs \<noteq> []"
    and kernel: "\<forall>a len. k_map k a len" "\<forall>a len p. k_mprotect k a len p" "unat base + unat (hi - lo) < 2 ^ 63"
      "\<forall>x. x - base < hi - lo \<longrightarrow> \<not> header_page (2 ^ g) (os_interp os) x"
    and auxv: "aux_val (auxv_of stack) AT_BASE \<noteq> None" "aux_val (auxv_of stack) AT_ENTRY \<noteq> None"
  shows "\<exists>stack' s'. reloc_main k b stack s = Inr (base - lo + e_entry hdr, stack', s')
    \<and> (\<forall>ph \<in> set (loads phs). seg_loaded g (base - lo) f ph s')
    \<and> p_type (read_Phdr (as_mem s') (os_interp os)) = PT_INTERP
    \<and> aux_val (auxv_of stack') AT_BASE = Some (base - lo) \<and> aux_val (auxv_of stack') AT_ENTRY = Some entry
    \<and> (\<forall>t. t \<noteq> AT_BASE \<longrightarrow> t \<noteq> AT_ENTRY \<longrightarrow> aux_val (auxv_of stack') t = aux_val (auxv_of stack) t)"
proof -
  obtain s1 where s1: "load_interp k (2 ^ g) path s = Inr (base - lo, base - lo + e_entry hdr, s1)"
    "\<forall>ph \<in> set (loads phs). seg_loaded g (base - lo) f ph s1"
    "\<And>ph n. ph \<in> set (loads phs) \<Longrightarrow> seg_begin g ph \<le> n \<Longrightarrow> n < seg_end g ph \<Longrightarrow> base - lo + of_nat n - base < hi - lo"
    using load_interp_loads [of k path f g s] linker own(3) kernel(1,3)
    unfolding hdr_def phs_def lo_def hi_def base_def by blast
  obtain s2 where s2: "restore_interp k (2 ^ g) (os_interp os) (phdr_prot_of (as_mem s) si os) s1 = Inr s2"
    "\<And>x. \<not> header_page (2 ^ g) (os_interp os) x \<Longrightarrow> same_at s2 s1 x" "p_type (read_Phdr (as_mem s2) (os_interp os)) = PT_INTERP"
    using restore_interp_effect [OF kernel(2)] by blast
  obtain hb he ws where p: "patch_auxv (base - lo) entry (auxv_of stack) = (hb, he, ws)" by (metis prod_cases3)
  note v = patch_auxv_vals [OF p]
  let ?stack = "take (length stack - length (auxv_of stack)) stack @ ws"
  have "auxv_of stack \<noteq> []" using auxv(1) by (cases "auxv_of stack") auto
  then have st: "auxv_of ?stack = ws" by (rule auxv_of_replace)
  have "reloc_main k b stack s = Inr (base - lo + e_entry hdr, ?stack, s2)"
    using own path s1(1) s2(1) v(1,2) auxv p
    by (simp add: reloc_main_def Let_def need_def stub_bind_def flip: si_def os_def)
  moreover have "seg_loaded g (base - lo) f ph s2" if ph: "ph \<in> set (loads phs)" for ph
  proof (rule seg_loaded_frame [OF own(3)])
    show "seg_ok g f ph" using linker(4) ph by (auto simp: layout_def list_all_iff)
    show "seg_loaded g (base - lo) f ph s1" using s1(2) ph by blast
    show "same_at s2 s1 (base - lo + of_nat n)" if "seg_begin g ph \<le> n" "n < seg_end g ph" for n
      using s2(2) kernel(4) s1(3) [OF ph that] by blast
  qed
  moreover have "AT_BASE \<noteq> AT_ENTRY" by (simp add: AT_BASE_def AT_ENTRY_def)
  ultimately show ?thesis
    using s2(3) v(1,2) v(4) auxv st by (intro exI [of _ ?stack] exI [of _ s2]) auto
qed

text \<open>An example: a linker of 120 bytes with one segment, 64 byte pages, and a program with its headers at 64.\<close>

definition example_linker :: string where
  "example_linker = (replicate 120 CHR 0x00)[24 := CHR 0x64, 32 := CHR 0x40, 56 := CHR 0x01, 64 := CHR 0x01, 68 := CHR 0x06,
     96 := CHR 0x78, 104 := CHR 0x82]"

definition example_space :: address_space where
  "example_space = \<lparr>as_mem = (\<lambda>_. CHR 0x00)(64 := CHR 0x06, 80 := CHR 0x40, 136 := CHR 0xB0, 152 := CHR 0x03, 176 := CHR ''l'',
     177 := CHR ''d''), as_prot = (\<lambda>_. 1)\<rparr>"

definition example_kernel :: kernel where
  "example_kernel = \<lparr>k_exe = Some ''/p/x'', k_open = (\<lambda>p. if p = ''/p/ld'' then Some example_linker else None), k_pread = (\<lambda>_. 120),
     k_reserve = (\<lambda>_. 65536), k_map = (\<lambda>_ _. True), k_mprotect = (\<lambda>_ _ _. True), k_junk = (\<lambda>_. CHR 0x00)\<rparr>"

definition example_stack :: "u64 list" where
  "example_stack = [0, 0, 0, 3, 64, 5, 2, 6, 64, 7, 0, 9, 0, 0, 0]"

definition example_seg :: seg_header where
  "example_seg = \<lparr>p_type = 1, p_flags = 6, p_offset = 0, p_vaddr = 0, p_filesz = 120, p_memsz = 130\<rparr>"

lemmas AT_defs = AT_NULL_def AT_PHDR_def AT_PHNUM_def AT_PAGESZ_def AT_BASE_def AT_ENTRY_def AT_EXECFN_def

lemma example_self: "auxv_of example_stack = [3, 64, 5, 2, 6, 64, 7, 0, 9, 0, 0, 0]"
  "find_self example_stack = \<lparr>si_ph = 64, si_phnum = 2, si_pg = 64, si_execfn = 0\<rparr>"
  by (simp_all add: find_self_def auxv_of_def example_stack_def AT_defs)

lemma upto_bytes: "[0..<8] = [0, 1, 2, 3, 4, 5, 6, 7 :: nat]" "[0..<4] = [0, 1, 2, 3 :: nat]" "[0..<2] = [0, 1 :: nat]"
  by (simp_all add: upt_rec)

lemma example_own_headers:
  "read_Phdr (as_mem example_space) 64 = \<lparr>p_type = 6, p_flags = 0, p_offset = 0, p_vaddr = 64, p_filesz = 0, p_memsz = 0\<rparr>"
  "read_Phdr (as_mem example_space) 120 = \<lparr>p_type = 0, p_flags = 0, p_offset = 0, p_vaddr = 176, p_filesz = 3, p_memsz = 0\<rparr>"
  by (simp_all add: read_Phdr_def mem_le_def upto_bytes example_space_def)

lemma example_own: "own_scan_of (as_mem example_space) \<lparr>si_ph = 64, si_phnum = 2, si_pg = 64, si_execfn = 0\<rparr>
    = \<lparr>os_bias = 0, os_have_phdr = True, os_interp = 120\<rparr>"
  by (simp add: own_scan_of_def own_headers_def Phdrs_def Phdr_size_def upto_bytes scan_own_def example_own_headers PT_PHDR_def PT_NULL_def)

lemma example_path: "interp_path example_kernel (as_mem example_space) 0 176 = Inr ''/p/ld''"
proof -
  have "slen (as_mem example_space) 176 = Some 2"
    by (simp add: slen_def slen_from.simps [of _ _ 0] slen_from.simps [of _ _ "Suc 0"] slen_from.simps [of _ _ "Suc (Suc 0)"] example_space_def)
  then have "c_string (as_mem example_space) 176 = Inr ''ld''"
    by (simp add: c_string_def read_chars_def upto_bytes example_space_def)
  moreover have "own_path example_kernel (as_mem example_space) 0 = Inr ''/p/x''"
    by (simp add: own_path_def example_kernel_def path_size_def)
  moreover have "dirname_len ''/p/x'' 4 = 3" by code_simp
  ultimately show ?thesis
    by (simp add: interp_path_def stub_bind_def need_def path_size_def example_space_def)
qed

lemma example_headers: "interp_headers (hdr_bytes example_kernel example_linker) = [example_seg]"
  "e_phoff (hdr_bytes example_kernel example_linker) = 64" "e_phnum (hdr_bytes example_kernel example_linker) = 1"
  "e_entry (hdr_bytes example_kernel example_linker) = 100"
proof -
  have u: "(uint a < 120) = (unat a < 120)" for a :: u64
  proof -
    have "uint a = int (unat a)" by simp
    then show ?thesis by linarith
  qed
  have b: "hdr_bytes example_kernel example_linker a =
      (if a = 24 then CHR 0x64 else if a = 32 then CHR 0x40 else if a = 56 \<or> a = 64 then CHR 0x01 else if a = 68 then CHR 0x06
       else if a = 96 then CHR 0x78 else if a = 104 then CHR 0x82 else CHR 0x00)" for a
    by (auto simp: hdr_bytes_def example_kernel_def example_linker_def nth_list_update word_unat_eq_iff u)
  show off: "e_phoff (hdr_bytes example_kernel example_linker) = 64" and num: "e_phnum (hdr_bytes example_kernel example_linker) = 1"
    and "e_entry (hdr_bytes example_kernel example_linker) = 100"
    by (simp_all add: e_phoff_def e_phnum_def e_entry_def mem_le_def upto_bytes b)
  show "interp_headers (hdr_bytes example_kernel example_linker) = [example_seg]"
    by (simp add: interp_headers_def off num Phdrs_def read_Phdr_def mem_le_def upto_bytes b example_seg_def)
qed

lemma example_range: "load_range 64 [example_seg] = (0, 192)"
  by (simp add: load_range_def widen_def example_seg_def PT_LOAD_def page_down_def page_up_def word_gt_0)

lemma example_layout: "layout 6 example_linker [example_seg]" "loads [example_seg] = [example_seg]"
  by (simp_all add: layout_def loads_def seg_ok_def example_seg_def PT_LOAD_def prot_of_def PROT_WRITE_def PROT_READ_def PROT_EXEC_def example_linker_def)

lemma example_kernel_answers: "k_open example_kernel ''/p/ld'' = Some example_linker" "k_pread example_kernel f = 120"
  "k_reserve example_kernel n = 65536" "k_map example_kernel a n" "k_mprotect example_kernel a n p"
  by (simp_all add: example_kernel_def)

theorem interpreter_entered_witness:
  "\<exists>stack' s'. reloc_main example_kernel (Linked 7) example_stack example_space = Inr (65536 + 100, stack', s')
     \<and> as_mem s' (65536 + 24) = CHR 0x64 \<and> as_mem s' (65536 + 125) = CHR 0x00 \<and> as_prot s' (65536 + 191) = 3
     \<and> aux_val (auxv_of stack') 7 = Some 65536 \<and> aux_val (auxv_of stack') 9 = Some 7"
proof -
  note ex = example_self example_own example_headers example_range example_layout
  have far: "\<forall>x :: u64. x - 65536 < 192 \<longrightarrow> \<not> header_page 64 120 x"
  proof (intro allI impI)
    fix x :: u64
    assume "x - 65536 < 192"
    then have "65536 \<le> unat x" "unat x < 65728"
      by (auto simp: word_less_nat_alt unat_sub_if_size word_size split: if_splits)
    then show "\<not> header_page 64 120 x"
      by (auto simp: header_page_def page_down_def page_up_def Phdr_size_def word_less_nat_alt unat_sub_if_size word_size split: if_splits)
  qed
  obtain stack' s' where r: "reloc_main example_kernel (Linked 7) example_stack example_space = Inr (65536 + 100, stack', s')"
    and l: "seg_loaded 6 65536 example_linker example_seg s'"
    and a: "aux_val (auxv_of stack') AT_BASE = Some 65536" "aux_val (auxv_of stack') AT_ENTRY = Some 7"
    using interpreter_entered [where k = example_kernel and b = "Linked 7" and stack = example_stack and s = example_space
        and g = 6 and path = "''/p/ld''" and f = example_linker and entry = 7] far
    by (auto simp: ex example_own_headers example_path [simplified] example_kernel_answers [simplified] real_entry_def
        Ehdr_size_def hdr_size_def Phdr_size_def AT_BASE_def AT_ENTRY_def AT_NULL_def)
  have m: "as_mem s' (65536 + of_nat i) = (if i < 120 then example_linker ! i else CHR 0x00)" if "i < 130" for i
    using l that by (simp add: seg_loaded_def example_seg_def)
  have "as_prot s' (65536 + of_nat n) = prot_of 6" if "n < 192" for n
    using l that by (simp add: seg_loaded_def example_seg_def seg_range_defs me_def up_def dn_def)
  from this [of 191] have "as_prot s' (65536 + 191) = 3" by (simp add: prot_of_def PROT_READ_def PROT_WRITE_def PROT_EXEC_def)
  moreover have "as_mem s' (65536 + 24) = CHR 0x64" "as_mem s' (65536 + 125) = CHR 0x00"
    using m [of 24] m [of 125] by (simp_all add: example_linker_def nth_list_update)
  ultimately show ?thesis using r a by (simp add: AT_BASE_def AT_ENTRY_def)
qed

end
