(* ===== verification/Reloc_Path.thy ===== *)
theory Reloc_Path
  imports Cpp_Path
begin

text \<open>
  \<^verbatim>\<open>pkgs/cr/crt-interp/src/reloc.h\<close> with the ways to name the file an address is mapped from:
  \<^verbatim>\<open>reloc_self_linux.h\<close> over the text of \<^verbatim>\<open>/proc/self/maps\<close>, and the macOS and Windows variants over what the system
  answers.  A buffer is the C string it holds.  The memo of \<^verbatim>\<open>reloc_path\<close> keeps pointers to the caller's strings; a
  pointer is a number and the strings are a function of it.
\<close>

section \<open>Model\<close>

definition cut_nul :: "string \<Rightarrow> string" where
  "cut_nul s = takeWhile (\<lambda>c. c \<noteq> CHR 0x00) s"

text \<open>\<^verbatim>\<open>fgets\<close> with room for \<open>n\<close> characters: the line and what is left.\<close>

fun fgets :: "nat \<Rightarrow> string \<Rightarrow> string \<times> string" where
  "fgets 0 s = ([], s)"
| "fgets (Suc n) [] = ([], [])"
| "fgets (Suc n) (c # s) = (if c = newline then ([c], s) else (case fgets n s of (l, r) \<Rightarrow> (c # l, r)))"

text \<open>\<^verbatim>\<open>%lx\<close> of \<^verbatim>\<open>sscanf\<close> on the plain hexadecimal numbers the kernel prints; a number that is too large gives the
  largest one.\<close>

definition scan_lx :: "string \<Rightarrow> (nat \<times> string) option" where
  "scan_lx s =
     (let t = dropWhile isspace s; ds = takeWhile (is_base_digit 16) t in
      if ds = [] then None else Some (min (digits_value 16 ds) (2 ^ 64 - 1), drop (length ds) t))"

definition scan_range :: "string \<Rightarrow> (nat \<times> nat) option" where
  "scan_range line =
     (case scan_lx line of
        None \<Rightarrow> None
      | Some (lo, r) \<Rightarrow>
          if starts_with r ''-'' then (case scan_lx (drop 1 r) of None \<Rightarrow> None | Some (hi, _) \<Rightarrow> Some (lo, hi)) else None)"

definition line_size :: nat where "line_size = 4096 + 128"

definition self_path :: "nat \<Rightarrow> string \<Rightarrow> string option" where
  "self_path self line =
     (let path = dropWhile (\<lambda>c. c \<noteq> slash) (cut_nul line) in
      case scan_range (cut_nul line) of
        None \<Rightarrow> None
      | Some (lo, hi) \<Rightarrow> if lo \<le> self \<and> self < hi \<and> path \<noteq> [] then Some (takeWhile (\<lambda>c. c \<noteq> newline) path) else None)"

lemma fgets_length: "fgets n s = (l, r) \<Longrightarrow> length r + length l = length s"
  by (induction n s arbitrary: l r rule: fgets.induct) (auto split: if_splits prod.splits)

function scan_maps :: "nat \<Rightarrow> string \<Rightarrow> string option" where
  "scan_maps self maps =
     (case fgets (line_size - 1) maps of (line, rest) \<Rightarrow>
        if line = [] then None
        else case self_path self line of Some path \<Rightarrow> Some path | None \<Rightarrow> scan_maps self rest)"
  by pat_completeness auto
termination
  by (relation "measure (\<lambda>(self, maps). length maps)") (auto dest!: sym [of _ "fgets _ _"] fgets_length simp flip: length_greater_0_conv)

declare scan_maps.simps [simp del]

text \<open>The three variants write to a buffer of \<open>n\<close> bytes that holds \<open>out\<close>.\<close>

definition reloc_self :: "string option \<Rightarrow> nat \<Rightarrow> nat \<Rightarrow> string \<Rightarrow> string" where
  "reloc_self maps self n out =
     (case maps of
        None \<Rightarrow> out
      | Some m \<Rightarrow> (case scan_maps self m of Some path \<Rightarrow> take (n - 1) path | None \<Rightarrow> out))"

definition reloc_self_macos :: "string option \<Rightarrow> nat \<Rightarrow> string \<Rightarrow> string" where
  "reloc_self_macos fname n out = (case fname of Some path \<Rightarrow> take (n - 1) path | None \<Rightarrow> out)"

definition reloc_self_windows :: "(nat \<Rightarrow> string) option \<Rightarrow> nat \<Rightarrow> string \<Rightarrow> string" where
  "reloc_self_windows module_name n out =
     map (\<lambda>c. if c = CHR 0x5C then slash else c) (case module_name of Some name \<Rightarrow> name n | None \<Rightarrow> out)"

definition PATH_MAX :: nat where "PATH_MAX = 4096"

record reloc_state =
  rs_dir :: string
  rs_seen :: "(nat \<times> string) list"

definition reloc_init :: reloc_state where
  "reloc_init = \<lparr>rs_dir = [], rs_seen = []\<rparr>"

text \<open>\<open>self\<close> is the variant of the system, applied to the address of \<^verbatim>\<open>reloc_dir\<close>.\<close>

definition reloc_dir :: "(nat \<Rightarrow> string \<Rightarrow> string) \<Rightarrow> reloc_state \<Rightarrow> string \<times> reloc_state" where
  "reloc_dir self st =
     (if rs_dir st \<noteq> [] then (rs_dir st, st)
      else (let d = self PATH_MAX (rs_dir st);
                dir = (case str_rfind d ''/'' of Some i \<Rightarrow> take (i + 1) d | None \<Rightarrow> d)
            in (dir, st\<lparr>rs_dir := dir\<rparr>)))"

fun seen_abs :: "(nat \<Rightarrow> string) \<Rightarrow> nat \<Rightarrow> (nat \<times> string) list \<Rightarrow> string option" where
  "seen_abs strs rel [] = None"
| "seen_abs strs rel ((p, a) # seen) = (if p = rel \<or> strs p = strs rel then Some a else seen_abs strs rel seen)"

definition seen_size :: nat where "seen_size = 32"

text \<open>The string the result points to; \<open>ok\<close> is whether \<^verbatim>\<open>malloc\<close> succeeds.\<close>

definition reloc_path :: "(nat \<Rightarrow> string \<Rightarrow> string) \<Rightarrow> (nat \<Rightarrow> string) \<Rightarrow> nat \<Rightarrow> bool \<Rightarrow> reloc_state \<Rightarrow> string \<times> reloc_state" where
  "reloc_path self strs rel ok st =
     (case seen_abs strs rel (rs_seen st) of
        Some a \<Rightarrow> (a, st)
      | None \<Rightarrow>
          (case reloc_dir self st of (dir, st1) \<Rightarrow>
             if \<not> ok then (strs rel, st1)
             else (let a = dir @ strs rel in
                   (a, if length (rs_seen st1) < seen_size then st1\<lparr>rs_seen := rs_seen st1 @ [(rel, a)]\<rparr> else st1))))"

fun reloc_calls :: "(nat \<Rightarrow> string \<Rightarrow> string) \<Rightarrow> (nat \<Rightarrow> string) \<Rightarrow> (nat \<times> bool) list \<Rightarrow> reloc_state \<Rightarrow> string list" where
  "reloc_calls self strs [] st = []"
| "reloc_calls self strs ((rel, ok) # calls) st =
     (case reloc_path self strs rel ok st of (a, st1) \<Rightarrow> a # reloc_calls self strs calls st1)"

section \<open>The memo\<close>

definition dir_of :: "(nat \<Rightarrow> string \<Rightarrow> string) \<Rightarrow> string" where
  "dir_of self = fst (reloc_dir self reloc_init)"

definition reloc_inv :: "(nat \<Rightarrow> string \<Rightarrow> string) \<Rightarrow> (nat \<Rightarrow> string) \<Rightarrow> reloc_state \<Rightarrow> bool" where
  "reloc_inv self strs st \<longleftrightarrow> rs_dir st \<in> {[], dir_of self} \<and> length (rs_seen st) \<le> seen_size
     \<and> (\<forall>(p, a) \<in> set (rs_seen st). a = dir_of self @ strs p)"

lemma reloc_dir_inv:
  assumes "reloc_inv self strs st" "reloc_dir self st = (dir, st1)"
  shows "dir = dir_of self" "reloc_inv self strs st1" "rs_seen st1 = rs_seen st"
  using assms by (auto simp: reloc_dir_def reloc_inv_def dir_of_def reloc_init_def Let_def split: if_splits)

lemma seen_abs_inv:
  "\<forall>(p, a) \<in> set seen. a = d @ strs p \<Longrightarrow> seen_abs strs rel seen = Some a \<Longrightarrow> a = d @ strs rel"
  by (induction strs rel seen rule: seen_abs.induct) (auto split: if_splits)

lemma reloc_path_step:
  assumes "reloc_inv self strs st" "reloc_path self strs rel ok st = (a, st1)"
  shows "(a = dir_of self @ strs rel \<or> \<not> ok \<and> a = strs rel) \<and> reloc_inv self strs st1"
proof (cases "seen_abs strs rel (rs_seen st)")
  case (Some b)
  then show ?thesis using assms seen_abs_inv [of "rs_seen st" "dir_of self" strs rel b] by (auto simp: reloc_path_def reloc_inv_def)
next
  case None
  obtain dir st2 where d: "reloc_dir self st = (dir, st2)" by fastforce
  show ?thesis
    using assms(2) reloc_dir_inv [OF assms(1) d] None
    by (auto simp: reloc_path_def d reloc_inv_def Let_def split: if_splits)
qed

lemma reloc_calls_answers:
  "reloc_inv self strs st \<Longrightarrow>
   list_all2 (\<lambda>(rel, ok) a. a = dir_of self @ strs rel \<or> \<not> ok \<and> a = strs rel) calls (reloc_calls self strs calls st)"
proof (induction self strs calls st rule: reloc_calls.induct)
  case (2 self strs rel ok calls st)
  obtain a st1 where r: "reloc_path self strs rel ok st = (a, st1)" by fastforce
  from reloc_path_step [OF "2.prems" r] "2.IH" [OF r [symmetric]] show ?case by (simp add: r)
qed simp

section \<open>The map of the process\<close>

text \<open>A line of \<^verbatim>\<open>/proc/self/maps\<close>: the range, the other columns, and the file if there is one.\<close>

record mapping =
  mp_lo :: nat
  mp_hi :: nat
  mp_cols :: string
  mp_file :: string

definition map_line :: "mapping \<Rightarrow> string" where
  "map_line mp = to_base 16 (mp_lo mp) @ ''-'' @ to_base 16 (mp_hi mp) @ '' '' @ mp_cols mp @ mp_file mp @ [newline]"

definition mapping_ok :: "mapping \<Rightarrow> bool" where
  "mapping_ok mp \<longleftrightarrow> mp_lo mp < 2 ^ 64 \<and> mp_hi mp < 2 ^ 64
     \<and> list_all (\<lambda>c. c \<noteq> slash \<and> c \<noteq> newline \<and> c \<noteq> CHR 0x00) (mp_cols mp)
     \<and> list_all (\<lambda>c. c \<noteq> newline \<and> c \<noteq> CHR 0x00) (mp_file mp) \<and> (mp_file mp = [] \<or> hd (mp_file mp) = slash)
     \<and> length (map_line mp) < line_size"

definition covers :: "mapping \<Rightarrow> nat \<Rightarrow> bool" where
  "covers mp self \<longleftrightarrow> mp_lo mp \<le> self \<and> self < mp_hi mp"

lemma hex_chars:
  assumes "c \<in> set (to_base 16 n)"
  shows "is_base_digit 16 c" "c \<noteq> slash" "c \<noteq> newline" "c \<noteq> CHR 0x00" "\<not> isspace c"
proof -
  show d: "is_base_digit 16 c" using to_base_digits [OF _ _ assms] by simp
  then have "48 \<le> (of_char c :: nat)" by (auto simp: is_base_digit_def digit_value_def Let_def split: if_splits)
  moreover have "\<not> is_base_digit 16 slash" by code_simp
  ultimately show "c \<noteq> slash" "c \<noteq> newline" "c \<noteq> CHR 0x00" "\<not> isspace c" using d by (auto simp: isspace_def)
qed

lemma hex_no_sep [simp]: "slash \<notin> set (to_base 16 n)" "newline \<notin> set (to_base 16 n)" "CHR 0x00 \<notin> set (to_base 16 n)"
  using hex_chars(2-4) by blast+

lemma takeWhile_stop: "\<forall>x \<in> set xs. P x \<Longrightarrow> \<not> P y \<Longrightarrow> takeWhile P (xs @ y # ys) = xs \<and> dropWhile P (xs @ y # ys) = y # ys"
  by (induction xs) auto

lemma scan_lx_hex:
  assumes "n < 2 ^ 64" "\<not> is_base_digit 16 c"
  shows "scan_lx (to_base 16 n @ c # r) = Some (n, c # r)"
proof -
  obtain d ds where d: "to_base 16 n = d # ds" by (cases "to_base 16 n") (auto simp: to_base_nonempty)
  then have "dropWhile isspace (to_base 16 n @ c # r) = to_base 16 n @ c # r" using hex_chars(5) [of d n] by simp
  moreover have "takeWhile (is_base_digit 16) (to_base 16 n @ c # r) = to_base 16 n"
    using takeWhile_stop [of "to_base 16 n" "is_base_digit 16" c r] hex_chars(1) assms(2) by blast
  ultimately show ?thesis using assms(1) by (simp add: scan_lx_def digits_value_to_base)
qed

lemma fgets_line: "newline \<notin> set l \<Longrightarrow> length l < n \<Longrightarrow> fgets n (l @ newline # r) = (l @ [newline], r)"
proof (induction l arbitrary: n)
  case Nil
  then show ?case by (cases n) auto
next
  case (Cons c l)
  then show ?case by (cases n) auto
qed

lemma mapping_chars:
  assumes "mapping_ok mp"
  shows "slash \<notin> set (mp_cols mp)" "newline \<notin> set (mp_cols mp)" "CHR 0x00 \<notin> set (mp_cols mp)"
    "newline \<notin> set (mp_file mp)" "CHR 0x00 \<notin> set (mp_file mp)" "mp_file mp = [] \<or> hd (mp_file mp) = slash"
  using assms unfolding mapping_ok_def list_all_iff by blast+

lemma map_line_fgets:
  assumes "mapping_ok mp"
  shows "fgets (line_size - 1) (map_line mp @ r) = (map_line mp, r)" "cut_nul (map_line mp) = map_line mp"
proof -
  let ?l = "to_base 16 (mp_lo mp) @ ''-'' @ to_base 16 (mp_hi mp) @ '' '' @ mp_cols mp @ mp_file mp"
  have l: "map_line mp = ?l @ [newline]" by (simp add: map_line_def)
  have nl: "newline \<notin> set ?l" and nul: "CHR 0x00 \<notin> set ?l"
    using mapping_chars [OF assms] by simp_all
  have "length (map_line mp) < line_size" using assms by (simp add: mapping_ok_def)
  then have len: "length ?l < line_size - 1" unfolding l length_append list.size by linarith
  show "fgets (line_size - 1) (map_line mp @ r) = (map_line mp, r)"
    unfolding l using fgets_line [OF nl len, of r] by (simp only: append.assoc append_Cons append_Nil)
  show "cut_nul (map_line mp) = map_line mp"
    unfolding cut_nul_def takeWhile_eq_all_conv using nul by (auto simp: l)
qed

lemma map_line_path:
  assumes "mapping_ok mp"
  shows "self_path self (map_line mp) = (if covers mp self \<and> mp_file mp \<noteq> [] then Some (mp_file mp) else None)"
proof -
  let ?cols = "to_base 16 (mp_lo mp) @ ''-'' @ to_base 16 (mp_hi mp) @ '' '' @ mp_cols mp"
  have b: "mp_lo mp < 2 ^ 64" "mp_hi mp < 2 ^ 64" using assms by (auto simp: mapping_ok_def)
  have "\<not> is_base_digit 16 CHR ''-''" "\<not> is_base_digit 16 CHR '' ''" by code_simp+
  then have r: "scan_range (map_line mp) = Some (mp_lo mp, mp_hi mp)"
    using scan_lx_hex [OF b(1), of "CHR ''-''"] scan_lx_hex [OF b(2), of "CHR '' ''"]
    by (simp add: scan_range_def map_line_def starts_with_def)
  have cols: "slash \<notin> set ?cols" using mapping_chars [OF assms] by simp
  have path: "takeWhile (\<lambda>c. c \<noteq> newline) (dropWhile (\<lambda>c. c \<noteq> slash) (map_line mp)) = mp_file mp"
    "dropWhile (\<lambda>c. c \<noteq> slash) (map_line mp) = [] \<longleftrightarrow> mp_file mp = []"
  proof -
    have l: "map_line mp = ?cols @ (mp_file mp @ [newline])" by (simp add: map_line_def)
    have d: "dropWhile (\<lambda>c. c \<noteq> slash) (map_line mp) = dropWhile (\<lambda>c. c \<noteq> slash) (mp_file mp @ [newline])"
      unfolding l by (rule dropWhile_append2) (metis cols)
    have e: "dropWhile (\<lambda>c. c \<noteq> slash) (mp_file mp @ [newline]) = (if mp_file mp = [] then [] else mp_file mp @ [newline])"
      using mapping_chars(6) [OF assms] by (cases "mp_file mp") auto
    have f: "\<forall>c \<in> set (mp_file mp). c \<noteq> newline" using mapping_chars(4) [OF assms] by metis
    show "takeWhile (\<lambda>c. c \<noteq> newline) (dropWhile (\<lambda>c. c \<noteq> slash) (map_line mp)) = mp_file mp"
      "dropWhile (\<lambda>c. c \<noteq> slash) (map_line mp) = [] \<longleftrightarrow> mp_file mp = []"
      using takeWhile_stop [OF f, of newline "[]"] by (simp_all add: d e)
  qed
  show ?thesis
    unfolding self_path_def Let_def map_line_fgets(2) [OF assms] r using path by (auto simp: covers_def)
qed

lemma scan_maps_finds:
  assumes "list_all mapping_ok (ms @ [mp])" "\<forall>m \<in> set ms. \<not> (covers m self \<and> mp_file m \<noteq> [])" "covers mp self" "mp_file mp \<noteq> []"
  shows "scan_maps self (concat (map map_line (ms @ [mp])) @ r) = Some (mp_file mp)"
  using assms(1,2)
proof (induction ms)
  case Nil
  have "map_line mp \<noteq> []" by (simp add: map_line_def)
  with Nil show ?case using assms(3,4) by (subst scan_maps.simps) (simp add: map_line_fgets [simplified] map_line_path)
next
  case (Cons m ms)
  have "map_line m \<noteq> []" by (simp add: map_line_def)
  with Cons show ?case by (subst scan_maps.simps) (auto simp: map_line_fgets [simplified] map_line_path)
qed

section \<open>Properties\<close>

text \<open>C27. A compiled-in path is found beside the file it was linked into: when the process map has a line for the file
  the code is mapped from, every call of \<^verbatim>\<open>reloc_path\<close>, in any order and however often, gives the directory of that file
  with the relative path behind it, whether it comes from the memo or not; only a call without memory gives the
  relative path itself.\<close>

theorem reloc_path_beside_file:
  assumes "list_all mapping_ok (ms @ [mp])" "\<forall>m \<in> set ms. \<not> (covers m self \<and> mp_file m \<noteq> [])" "covers mp self"
    and "mp_file mp = dir @ slash # name" "slash \<notin> set name" "length (mp_file mp) < PATH_MAX"
  shows "list_all2 (\<lambda>(rel, ok) a. a = dir @ slash # strs rel \<or> \<not> ok \<and> a = strs rel) calls
    (reloc_calls (reloc_self (Some (concat (map map_line (ms @ [mp])) @ r)) self) strs calls reloc_init)"
proof -
  let ?self = "reloc_self (Some (concat (map map_line (ms @ [mp])) @ r)) self"
  have "?self PATH_MAX [] = mp_file mp"
    using scan_maps_finds [OF assms(1,2,3), of r] assms(4,6) by (simp add: reloc_self_def)
  moreover have "str_rfind (dir @ slash # name) ''/'' = Some (length dir)"
  proof (induction dir)
    case Nil
    have "str_rfind name ''/'' = None" using assms(5) by (induction name) (auto simp: starts_with_def split: option.splits)
    then show ?case by (simp add: starts_with_def)
  qed simp
  ultimately have "dir_of ?self = dir @ [slash]"
    by (simp add: dir_of_def reloc_dir_def reloc_init_def assms(4) Let_def)
  moreover have "reloc_inv ?self strs reloc_init" by (simp add: reloc_inv_def reloc_init_def)
  ultimately show ?thesis using reloc_calls_answers [of ?self strs reloc_init calls] by simp
qed

definition example_mapping :: mapping where
  "example_mapping = \<lparr>mp_lo = 16, mp_hi = 32, mp_cols = ''r-xp 0000 08:01 7 '', mp_file = ''/p/bin/x''\<rparr>"

theorem reloc_path_beside_file_witness:
  "reloc_calls (reloc_self (Some (map_line example_mapping)) 24) (\<lambda>p. if p = 1 then ''../share'' else ''a'')
     [(1, True), (2, True), (1, True)] reloc_init = [''/p/bin/../share'', ''/p/bin/a'', ''/p/bin/../share'']"
proof -
  have d: "digit_char 0 = CHR ''0''" "digit_char (Suc 0) = CHR ''1''" "digit_char 2 = CHR ''2''" by code_simp+
  have l: "map_line example_mapping = ''10-20 r-xp 0000 08:01 7 /p/bin/x'' @ [newline]"
    by (simp add: map_line_def example_mapping_def to_base.simps [of 16 16] to_base.simps [of 16 32] to_base.simps [of 16 "Suc 0"]
        to_base.simps [of 16 2] d)
  have "mapping_ok example_mapping"
    by (simp add: mapping_ok_def l) (simp add: example_mapping_def line_size_def)
  then show ?thesis
    using reloc_path_beside_file [of "[]" example_mapping 24 "''/p/bin''" "''x''" "\<lambda>p. if p = 1 then ''../share'' else ''a''"
        "[(1, True), (2, True), (1, True)]" "[]"]
    by (simp add: covers_def example_mapping_def PATH_MAX_def list_all2_Cons1)
qed

end
