(* ===== verification/Gcc_Shim.thy ===== *)
theory Gcc_Shim
  imports Main "HOL-Library.Word"
begin

text \<open>
  \<^verbatim>\<open>pkgs/li/libgcc-shim/src/gcc_s.c\<close>: the integer routines of \<^verbatim>\<open>libgcc\<close>.  The compiler's built-in functions count bits;
  those for leading and trailing zeros have no value for zero, as the compiler documents it.
\<close>

section \<open>Model\<close>

definition builtin_popcountll :: "64 word \<Rightarrow> nat" where
  "builtin_popcountll w = length (filter (bit w) [0..<64])"

definition builtin_clzll :: "64 word \<Rightarrow> nat option" where
  "builtin_clzll w = (if w = 0 then None else Some (length (takeWhile (\<lambda>i. \<not> bit w i) (rev [0..<64]))))"

definition builtin_ctzll :: "64 word \<Rightarrow> nat option" where
  "builtin_ctzll w = (if w = 0 then None else Some (length (takeWhile (\<lambda>i. \<not> bit w i) [0..<64])))"

definition popcountdi2 :: "64 word \<Rightarrow> nat" where
  "popcountdi2 v = builtin_popcountll v"

text \<open>The shift of a signed 128 bit number copies its sign.\<close>

definition popcountti2 :: "128 word \<Rightarrow> nat" where
  "popcountti2 v = builtin_popcountll (ucast v) + builtin_popcountll (ucast (signed_drop_bit 64 v))"

definition clzdi2 :: "64 word \<Rightarrow> nat option" where
  "clzdi2 v = builtin_clzll v"

definition ctzdi2 :: "64 word \<Rightarrow> nat option" where
  "ctzdi2 v = builtin_ctzll v"

section \<open>What the routines count\<close>

lemma popcountti2_counts: "popcountti2 v = length (filter (bit v) [0..<128])"
proof -
  have lo: "bit (ucast v :: 64 word) i = bit v i" if "i < 64" for i using that by (simp add: bit_simps)
  have hi: "bit (ucast (signed_drop_bit 64 v) :: 64 word) i = bit v (64 + i)" if "i < 64" for i
    using that by (auto simp: bit_simps min_def)
  have "[0..<128] = [0..<64] @ map (\<lambda>i. 64 + i) [0..<64]"
    using upt_add_eq_append [of 0 64 64] map_add_upt [of 64 64] by (simp add: add.commute)
  then have "length (filter (bit v) [0..<128]) = length (filter (bit v) [0..<64]) + length (filter (\<lambda>i. bit v (64 + i)) [0..<64])"
    by (simp add: filter_map comp_def)
  moreover have "filter (bit (ucast v :: 64 word)) [0..<64] = filter (bit v) [0..<64]" by (rule filter_cong) (auto simp: lo)
  moreover have "filter (bit (ucast (signed_drop_bit 64 v) :: 64 word)) [0..<64] = filter (\<lambda>i. bit v (64 + i)) [0..<64]"
    by (rule filter_cong) (auto simp: hi)
  ultimately show ?thesis by (simp only: popcountti2_def builtin_popcountll_def)
qed

lemma ctzdi2_lowest:
  assumes "ctzdi2 v = Some n"
  shows "bit v n \<and> (\<forall>i < n. \<not> bit v i)"
proof -
  let ?t = "takeWhile (\<lambda>i. \<not> bit v i) [0..<64]"
  have n: "n = length ?t" "v \<noteq> 0" using assms by (auto simp: ctzdi2_def builtin_ctzll_def split: if_splits)
  obtain j where "bit v j" using n(2) by (metis bit_eqI bit_0_eq bot_apply bot_bool_def)
  then have "j < 64" using bit_imp_le_length [of v j] by simp
  have "n < 64"
  proof (rule ccontr)
    assume "\<not> n < 64"
    then have "length ?t = length [0..<64]" using length_takeWhile_le [of "\<lambda>i. \<not> bit v i" "[0..<64]"] n by simp
    then have "?t = [0..<64]" by (metis takeWhile_eq_take take_all order_refl)
    then have "\<not> bit v j" using \<open>j < 64\<close> set_takeWhileD [of j "\<lambda>i. \<not> bit v i" "[0..<64]"] by auto
    with \<open>bit v j\<close> show False by contradiction
  qed
  then have "bit v ([0..<64] ! n)" using nth_length_takeWhile [of "\<lambda>i. \<not> bit v i" "[0..<64]"] n by simp
  moreover have "\<not> bit v i" if "i < n" for i
    using takeWhile_nth [of i "\<lambda>i. \<not> bit v i" "[0..<64]"] nth_mem [of i ?t] that n \<open>n < 64\<close>
    by (auto dest: set_takeWhileD)
  ultimately show ?thesis using \<open>n < 64\<close> by simp
qed

end
