(* ===== verification/Jsem_Broker.thy ===== *)
theory Jsem_Broker
  imports Jig_Base
begin

text \<open>
  The semaphore broker \<^verbatim>\<open>pkgs/js/jsem/src\<close>: connections to the daemon, the source of job slots, one tick
  of the broker, its loop, and the start of the program.  \<^verbatim>\<open>Tick\<close> is a function of the semaphore's count
  and the slots held; where other processes use the semaphore between its calls, it is the step relation
  \<open>jsem_step\<close>, whose states name the point the broker has reached.  The specification the repository keeps
  beside the code, \<^verbatim>\<open>broker.qnt\<close>, is \<open>spec_tick\<close>.
\<close>

section \<open>Model\<close>

subsection \<open>Connections\<close>

text \<open>A connection is a script: how much each \<^verbatim>\<open>send\<close> takes (0 is an error), what each \<^verbatim>\<open>poll\<close> says,
  what each \<^verbatim>\<open>read\<close> gives (nothing is the end or an error).\<close>

record conn =
  cn_sends :: "nat list"
  cn_sent :: string
  cn_polls :: "bool list"
  cn_reads :: "string list"

definition Conn_Open :: "nat \<Rightarrow> conn option \<Rightarrow> string \<Rightarrow> conn option" where
  "Conn_Open sun_path connected socket_path =
     (if socket_path = [] \<or> sun_path \<le> length socket_path then None else connected)"

fun conn_send :: "nat list \<Rightarrow> string \<Rightarrow> string \<Rightarrow> bool \<times> nat list \<times> string" where
  "conn_send ks line out = (if line = [] then (True, ks, out)
     else case ks of
       [] \<Rightarrow> (False, [], out)
     | k # ks' \<Rightarrow> if k = 0 then (False, ks', out) else conn_send ks' (drop k line) (out @ take k line))"

definition Conn_Send :: "string \<Rightarrow> conn \<Rightarrow> bool \<times> conn" where
  "Conn_Send line c =
     (case conn_send (cn_sends c) line (cn_sent c) of (ok, ks, out) \<Rightarrow> (ok, c\<lparr>cn_sends := ks, cn_sent := out\<rparr>))"

definition Conn_Readable :: "conn \<Rightarrow> bool \<times> conn" where
  "Conn_Readable c =
     (case cn_polls c of [] \<Rightarrow> (False, c) | b # bs \<Rightarrow> (b, c\<lparr>cn_polls := bs\<rparr>))"

fun conn_reply :: "string list \<Rightarrow> string \<Rightarrow> string option" where
  "conn_reply reads reply = (if ends_with reply [newline] then Some reply
     else case reads of
       [] \<Rightarrow> None
     | got # reads' \<Rightarrow> if got = [] then None else conn_reply reads' (reply @ got))"

definition Conn_Ok :: "conn \<Rightarrow> bool" where
  "Conn_Ok c \<longleftrightarrow> conn_reply (cn_reads c) [] = Some (''OK'' @ [newline])"

text \<open>The order in flight is the state of the source; a token is the connection it came over.\<close>

definition DaemonSource :: "nat \<Rightarrow> conn option \<Rightarrow> string \<Rightarrow> string \<Rightarrow> bool \<Rightarrow> conn option \<Rightarrow> conn option \<times> conn option" where
  "DaemonSource sun_path connected socket_path build want order =
     (if \<not> want then (None, None)
      else
        (case (case order of
                 Some c \<Rightarrow> Some c
               | None \<Rightarrow>
                   (case Conn_Open sun_path connected socket_path of
                      None \<Rightarrow> None
                    | Some c \<Rightarrow> (case Conn_Send (''SLOT '' @ build @ [newline]) c of (ok, c') \<Rightarrow> if ok then Some c' else None))) of
           None \<Rightarrow> (None, None)
         | Some c \<Rightarrow>
             (case Conn_Readable c of
                (False, c') \<Rightarrow> (None, Some c')
              | (True, c') \<Rightarrow> (if Conn_Ok c' then Some c' else None, None))))"

subsection \<open>The broker\<close>

text \<open>The named semaphores that are linked, with their counts.  A \<^verbatim>\<open>Sem\<close> is the name it has to unlink, empty if it did
  not create the semaphore; \<open>creates\<close> is whether \<^verbatim>\<open>sem_open\<close> can make a new one.\<close>

type_synonym sems = "string \<Rightarrow> nat option"

definition Sem_Create :: "bool \<Rightarrow> string \<Rightarrow> nat \<Rightarrow> sems \<Rightarrow> string option \<times> sems" where
  "Sem_Create creates name tokens sems =
     (let sems1 = sems(name := None) in if creates then (Some name, sems1(name \<mapsto> tokens)) else (None, sems1))"

definition Sem_Open :: "string \<Rightarrow> sems \<Rightarrow> string option" where
  "Sem_Open name sems = (if sems name = None then None else Some [])"

definition Sem_destroy :: "string \<Rightarrow> sems \<Rightarrow> sems" where
  "Sem_destroy name sems = (if name \<noteq> [] then sems(name := None) else sems)"

definition DaemonUp :: "nat \<Rightarrow> conn option \<Rightarrow> string \<Rightarrow> bool" where
  "DaemonUp sun_path connected socket_path \<longleftrightarrow> Conn_Open sun_path connected socket_path \<noteq> None"

definition Sem_TryWait :: "nat \<Rightarrow> bool \<times> nat" where
  "Sem_TryWait sem = (if sem = 0 then (False, sem) else (True, sem - 1))"

definition Sem_Post :: "nat \<Rightarrow> nat" where
  "Sem_Post sem = sem + 1"

function drain :: "nat \<Rightarrow> nat \<Rightarrow> nat \<times> nat" where
  "drain sem idle =
     (case Sem_TryWait sem of
        (True, sem') \<Rightarrow> drain sem' (idle + 1)
      | (False, sem') \<Rightarrow> (sem', idle))"
  by pat_completeness auto
termination
  by (relation "measure fst") (auto simp: Sem_TryWait_def split: if_splits)

declare drain.simps [simp del]

text \<open>\<open>drop_tokens\<close> is what the destructors of dropped tokens do to the state of the source.\<close>

definition settle :: "('tok list \<Rightarrow> 'src \<Rightarrow> 'src) \<Rightarrow> (bool \<Rightarrow> 'src \<Rightarrow> 'tok option \<times> 'src) \<Rightarrow> nat \<Rightarrow> 'tok list \<Rightarrow> 'src
    \<Rightarrow> bool \<times> 'tok list \<times> 'src" where
  "settle drop_tokens source idle held src =
     (let in_use = length held - min (length held) idle;
          n = min (length held) (in_use + 1);
          kept = take n held;
          src1 = drop_tokens (drop n held) src;
          spare = (length kept = in_use + 1)
      in case source (\<not> spare) src1 of (token, src2) \<Rightarrow>
           let held' = kept @ (case token of None \<Rightarrow> [] | Some t \<Rightarrow> [t])
           in (in_use < length held', held', src2))"

definition Tick :: "('tok list \<Rightarrow> 'src \<Rightarrow> 'src) \<Rightarrow> (bool \<Rightarrow> 'src \<Rightarrow> 'tok option \<times> 'src) \<Rightarrow> nat \<times> 'tok list \<times> 'src
    \<Rightarrow> nat \<times> 'tok list \<times> 'src" where
  "Tick drop_tokens source st =
     (case st of (sem, held, src) \<Rightarrow>
        case drain sem 0 of (sem1, idle) \<Rightarrow>
          case settle drop_tokens source idle held src of (post, held', src') \<Rightarrow>
            (if post then Sem_Post sem1 else sem1, held', src'))"

function finish_loop :: "nat \<Rightarrow> nat \<Rightarrow> nat \<Rightarrow> nat" where
  "finish_loop held i sem =
     (if i < held then
        (case Sem_TryWait sem of
           (True, sem') \<Rightarrow> finish_loop held (i + 1) sem'
         | (False, sem') \<Rightarrow> sem')
      else sem)"
  by pat_completeness auto
termination
  by (relation "measure (\<lambda>(held, i, sem). held - i)") auto

declare finish_loop.simps [simp del]

definition Broker_destroy :: "nat \<Rightarrow> 'tok list \<Rightarrow> nat" where
  "Broker_destroy sem held = finish_loop (length held) 0 sem"

subsection \<open>The program\<close>

definition kAliveEvery :: nat where "kAliveEvery = 50"

text \<open>The loop ends only when the semaphore is found unlinked: \<open>alive\<close> is what \<^verbatim>\<open>Sem::Open\<close> finds at a tick.\<close>

partial_function (option) RunBroker :: "(nat \<Rightarrow> bool) \<Rightarrow> (nat \<Rightarrow> 's \<Rightarrow> 's) \<Rightarrow> nat \<Rightarrow> 's \<Rightarrow> (nat \<times> 's) option" where
  "RunBroker alive tick_at tick s =
     (if tick mod kAliveEvery = 0 \<and> \<not> alive tick then Some (tick, s)
      else RunBroker alive tick_at (tick + 1) (tick_at tick s))"

fun JsemName :: "string list \<Rightarrow> string" where
  "JsemName [] = []"
| "JsemName (arg # args) =
     (if \<not> starts_with arg ''-jsem'' then JsemName args
      else let name = dropWhile (\<lambda>c. c = CHR '' '') (drop 5 arg) in
           if name \<noteq> [] then name else if args \<noteq> [] then hd args else JsemName args)"

definition lock_file :: "string \<Rightarrow> string \<Rightarrow> string" where
  "lock_file dir name = dir @ ''/.jsem'' @ map (\<lambda>c. if c = CHR ''/'' then CHR ''_'' else c) name @ ''.lock''"

datatype jsem_action = Usage | TakeLock string | OpenFailed string | ForkBroker string | Exec "string list"

text \<open>What the program does, given whether the daemon answers, the lock is free, the semaphore opens.\<close>

definition jsem_main :: "(string \<Rightarrow> string option) \<Rightarrow> (string \<Rightarrow> bool) \<Rightarrow> (string \<Rightarrow> bool) \<Rightarrow> (string \<Rightarrow> bool) \<Rightarrow> string
    \<Rightarrow> string list \<Rightarrow> jsem_action list" where
  "jsem_main env daemon_up lock_free sem_opens default_sock args =
     (if length args < 2 then [Usage]
      else
        (let socket_path = Env env ''JIG_SOCK'' default_sock;
             name = JsemName (drop 2 args);
             name = (if name \<noteq> [] \<and> \<not> starts_with name ''/'' then ''/'' @ name else name);
             file = lock_file (Env env ''NIX_BUILD_TOP'' (Env env ''TMPDIR'' ''/tmp'')) name
         in (if name \<noteq> [] \<and> daemon_up socket_path
             then TakeLock file #
                  (if lock_free file then (if \<not> sem_opens name then [OpenFailed name] else [ForkBroker name]) else [])
             else [])
            @ [Exec (tl args)]))"

text \<open>The lock of a broker: \<open>locks\<close> are the files locked by brokers that run.  A failed \<^verbatim>\<open>open\<close> and a file locked by
  another process are the same to the caller; the lock is kept by the forked broker and given up without one.\<close>

definition take_lock :: "(string \<Rightarrow> bool) \<Rightarrow> string set \<Rightarrow> string \<Rightarrow> bool" where
  "take_lock openable locks name \<longleftrightarrow> openable name \<and> name \<notin> locks"

definition broker_locks :: "jsem_action list \<Rightarrow> string set \<Rightarrow> string set" where
  "broker_locks acts locks = (if \<exists>name. ForkBroker name \<in> set acts then locks \<union> {l. TakeLock l \<in> set acts} else locks)"

lemma sem_lifetime:
  assumes "Sem_Create creates name tokens sems = (Some owner, sems1)" "name \<noteq> []"
  shows "sems1 name = Some tokens" "Sem_Open name sems1 = Some handle \<Longrightarrow> Sem_destroy handle sems1 = sems1"
    "Sem_Open name (Sem_destroy owner sems1) = None"
  using assms by (auto simp: Sem_Create_def Sem_Open_def Sem_destroy_def Let_def split: if_splits)

text \<open>A second program that names the lock of a running broker starts none.\<close>

lemma one_broker_per_lock:
  assumes "ForkBroker name \<in> set (jsem_main env up (take_lock openable locks) opens sock args)"
    and "locks' = broker_locks (jsem_main env up (take_lock openable locks) opens sock args) locks"
    and "TakeLock l \<in> set (jsem_main env up (take_lock openable locks) opens sock args)"
    and "TakeLock l \<in> set (jsem_main env' up' (take_lock openable' locks') opens' sock' args')"
  shows "ForkBroker name' \<notin> set (jsem_main env' up' (take_lock openable' locks') opens' sock' args')"
proof -
  have "l \<in> locks'" using assms(1-3) by (auto simp: broker_locks_def)
  with assms(4) show ?thesis
    by (auto simp: jsem_main_def Let_def take_lock_def split: if_splits)
qed

section \<open>One tick against its specification\<close>

text \<open>The action \<^verbatim>\<open>tick\<close> of \<^verbatim>\<open>broker.qnt\<close>, for a broker that holds \<open>h\<close> slots while \<open>avail\<close> are free:
  the semaphore, the slots held and the free slots after it.\<close>

definition spec_tick :: "nat \<Rightarrow> nat \<Rightarrow> nat \<Rightarrow> nat \<times> nat \<times> nat" where
  "spec_tick sem h avail =
     (let idle = sem;
          inUse = h - min h idle;
          h1 = min h (inUse + 1);
          spare = (h1 = inUse + 1);
          granted = (if \<not> spare \<and> 0 < avail - (h - h1) then 1 else 0);
          h2 = h1 + granted;
          post = (if inUse < h2 then 1 else 0)
      in (sem - idle + post, h2, avail + h - h2))"

text \<open>A daemon with a number of free slots that grants an order at once; a dropped slot is free again.\<close>

definition free_slot :: "bool \<Rightarrow> nat \<Rightarrow> unit option \<times> nat" where
  "free_slot want avail = (if want \<and> 0 < avail then (Some (), avail - 1) else (None, avail))"

lemma drain_all: "drain sem idle = (0, idle + sem)"
  by (induction sem arbitrary: idle; subst drain.simps) (simp_all add: Sem_TryWait_def)

lemma finish_loop_eq: "finish_loop held i sem = sem - (held - i)"
proof (induction held i sem rule: finish_loop.induct)
  case (1 held i sem)
  then show ?case by (subst finish_loop.simps) (auto simp: Sem_TryWait_def)
qed

text \<open>C11. A tick of the broker does what the specification beside it says, for every count of the semaphore,
  every number of slots held and of slots free: same count, same slots held, same slots left.\<close>

theorem tick_refines_spec:
  "(case Tick (\<lambda>dropped avail. avail + length dropped) free_slot (sem, held, avail) of
      (sem', held', avail') \<Rightarrow> (sem', length held', avail')) = spec_tick sem (length held) avail"
  by (auto simp: Tick_def settle_def drain_all spec_tick_def free_slot_def Sem_Post_def Let_def min_def split: prod.split)

section \<open>Ticks among other processes\<close>

datatype order = NoOrder | Waiting | Granted

datatype broker_pc = Ready | Draining nat | Posting | Finishing nat | Gone

text \<open>The semaphore's count, the capabilities ghc processes took from it, the broker's slots, the daemon's
  free slots, the order in flight, whether cabal still runs, and the point the broker is at.\<close>

record jsem =
  sem :: nat
  running :: nat
  held :: nat
  free :: nat
  order :: order
  alive :: bool
  pc :: broker_pc

definition jsem_init :: "nat \<Rightarrow> nat \<Rightarrow> jsem \<Rightarrow> bool" where
  "jsem_init C D s \<longleftrightarrow>
     s = \<lparr>sem = C, running = 0, held = 0, free = D, order = NoOrder, alive = True, pc = Ready\<rparr>"

text \<open>What \<open>settle\<close> does with the counts: what it keeps of the slots, whether it asks for another one.\<close>

definition kept_slots :: "nat \<Rightarrow> nat \<Rightarrow> nat" where
  "kept_slots h idle = min h (h - min h idle + 1)"

definition wants_slot :: "nat \<Rightarrow> nat \<Rightarrow> bool" where
  "wants_slot h idle \<longleftrightarrow> kept_slots h idle \<noteq> h - min h idle + 1"

lemma settle_counts:
  "settle (\<lambda>dropped src. dt dropped src) source idle hs src =
     (let n = kept_slots (length hs) idle;
          (token, src') = source (wants_slot (length hs) idle) (dt (drop n hs) src);
          hs' = take n hs @ (case token of None \<Rightarrow> [] | Some t \<Rightarrow> [t])
      in (length hs - min (length hs) idle < length hs', hs', src'))"
  by (simp add: settle_def kept_slots_def wants_slot_def Let_def)

definition freed_order :: "order \<Rightarrow> nat" where
  "freed_order o1 = (if o1 = Granted then 1 else 0)"

inductive jsem_step :: "jsem \<Rightarrow> jsem \<Rightarrow> bool" where
  acquire: "\<lbrakk>alive s; 0 < sem s\<rbrakk> \<Longrightarrow> jsem_step s (s\<lparr>sem := sem s - 1, running := running s + 1\<rparr>)"
| release: "\<lbrakk>0 < running s\<rbrakk> \<Longrightarrow> jsem_step s (s\<lparr>sem := sem s + 1, running := running s - 1\<rparr>)"
| cabal_exits: "\<lbrakk>alive s; running s = 0\<rbrakk> \<Longrightarrow> jsem_step s (s\<lparr>alive := False\<rparr>)"
| grant: "\<lbrakk>order s = Waiting; 0 < free s\<rbrakk> \<Longrightarrow> jsem_step s (s\<lparr>order := Granted, free := free s - 1\<rparr>)"
| lost: "\<lbrakk>order s = Waiting\<rbrakk> \<Longrightarrow> jsem_step s (s\<lparr>order := NoOrder\<rparr>)"
| tick: "\<lbrakk>pc s = Ready\<rbrakk> \<Longrightarrow> jsem_step s (s\<lparr>pc := Draining 0\<rparr>)"
| drained: "\<lbrakk>pc s = Draining i; 0 < sem s\<rbrakk> \<Longrightarrow> jsem_step s (s\<lparr>sem := sem s - 1, pc := Draining (i + 1)\<rparr>)"
| satisfied: "\<lbrakk>pc s = Draining i; sem s = 0; n = kept_slots (held s) i; \<not> wants_slot (held s) i\<rbrakk> \<Longrightarrow>
    jsem_step s (s\<lparr>held := n, free := free s + (held s - n) + freed_order (order s), order := NoOrder, pc := Posting\<rparr>)"
| ordered: "\<lbrakk>pc s = Draining i; sem s = 0; n = kept_slots (held s) i; wants_slot (held s) i; order s \<noteq> Granted\<rbrakk> \<Longrightarrow>
    jsem_step s (s\<lparr>held := n, free := free s + (held s - n), order := Waiting, pc := Ready\<rparr>)"
| got: "\<lbrakk>pc s = Draining i; sem s = 0; n = kept_slots (held s) i; wants_slot (held s) i; order s = Granted\<rbrakk> \<Longrightarrow>
    jsem_step s (s\<lparr>held := n + 1, free := free s + (held s - n), order := NoOrder, pc := Posting\<rparr>)"
| posted: "\<lbrakk>pc s = Posting\<rbrakk> \<Longrightarrow> jsem_step s (s\<lparr>sem := sem s + 1, pc := Ready\<rparr>)"
| finish: "\<lbrakk>pc s = Ready; \<not> alive s\<rbrakk> \<Longrightarrow> jsem_step s (s\<lparr>pc := Finishing 0\<rparr>)"
| taken: "\<lbrakk>pc s = Finishing i; i < held s; 0 < sem s\<rbrakk> \<Longrightarrow> jsem_step s (s\<lparr>sem := sem s - 1, pc := Finishing (i + 1)\<rparr>)"
| finished: "\<lbrakk>pc s = Finishing i; \<not> (i < held s \<and> 0 < sem s)\<rbrakk> \<Longrightarrow>
    jsem_step s (s\<lparr>held := 0, free := free s + held s + freed_order (order s), order := NoOrder, pc := Gone\<rparr>)"

inductive_cases jsem_stepE: "jsem_step s t"

text \<open>Slots are conserved; tokens on offer, in use and in the broker's hand are backed.\<close>

definition slots_inv :: "nat \<Rightarrow> jsem \<Rightarrow> bool" where
  "slots_inv D s \<longleftrightarrow> held s + free s + freed_order (order s) = D"

definition tokens_inv :: "nat \<Rightarrow> jsem \<Rightarrow> bool" where
  "tokens_inv C s \<longleftrightarrow>
     (case pc s of
        Ready \<Rightarrow> sem s + running s \<le> C + held s
      | Draining i \<Rightarrow> sem s + i + running s \<le> C + held s
      | Posting \<Rightarrow> sem s + running s + 1 \<le> C + held s
      | Finishing i \<Rightarrow> sem s + i \<le> C + held s \<and> i \<le> held s
      | Gone \<Rightarrow> sem s \<le> C)"

definition jsem_inv :: "nat \<Rightarrow> nat \<Rightarrow> jsem \<Rightarrow> bool" where
  "jsem_inv C D s \<longleftrightarrow> slots_inv D s \<and> tokens_inv C s \<and> (\<not> alive s \<longrightarrow> running s = 0)
     \<and> (case pc s of Finishing _ \<Rightarrow> \<not> alive s | Gone \<Rightarrow> \<not> alive s | _ \<Rightarrow> True)"

lemma kept_slots_le: "kept_slots h i \<le> h"
  by (simp add: kept_slots_def)

lemma kept_enough:
  "\<not> wants_slot h i \<Longrightarrow> r + i \<le> C + h \<Longrightarrow> r + 1 \<le> C + kept_slots h i"
  "wants_slot h i \<Longrightarrow> r + i \<le> C + h \<Longrightarrow> r \<le> C + kept_slots h i"
  by (auto simp: kept_slots_def wants_slot_def min_def split: if_splits)

lemma jsem_inv_step:
  assumes "jsem_inv C D s" "jsem_step s t"
  shows "jsem_inv C D t"
  using assms(2)
proof cases
  case (satisfied i n)
  with assms(1) kept_enough(1) [of "held s" i "running s" C] kept_slots_le [of "held s" i] show ?thesis
    by (auto simp: jsem_inv_def slots_inv_def tokens_inv_def freed_order_def split: if_splits)
next
  case (ordered i n)
  with assms(1) kept_enough(2) [of "held s" i "running s" C] kept_slots_le [of "held s" i] show ?thesis
    by (auto simp: jsem_inv_def slots_inv_def tokens_inv_def freed_order_def split: if_splits)
next
  case (got i n)
  with assms(1) kept_enough(2) [of "held s" i "running s" C] kept_slots_le [of "held s" i] show ?thesis
    by (auto simp: jsem_inv_def slots_inv_def tokens_inv_def freed_order_def split: if_splits)
qed (use assms(1) in \<open>auto simp: jsem_inv_def slots_inv_def tokens_inv_def freed_order_def split: broker_pc.splits if_splits\<close>)

interpretation broker: invariant_system "jsem_init C D" jsem_step "jsem_inv C D" for C D
  by unfold_locales
     (simp add: jsem_init_def jsem_inv_def slots_inv_def tokens_inv_def freed_order_def, rule jsem_inv_step)

text \<open>C3. However the broker's calls and the ghc processes interleave, no capability is used or on offer that
  cabal's own tokens or a slot the broker holds does not back, and slots are neither made nor lost: those held,
  those free and the one granted to the order in flight are always the daemon's.\<close>

theorem no_over_admission:
  assumes "jsem_init C D s" and "jsem_step\<^sup>*\<^sup>* s t"
  shows "sem t + running t \<le> C + held t \<and> held t + free t + (if order t = Granted then 1 else 0) = D"
proof -
  from broker.inv_reachable [OF assms] have "jsem_inv C D t" .
  then show ?thesis
    by (auto simp: jsem_inv_def slots_inv_def tokens_inv_def freed_order_def split: broker_pc.splits)
qed

lemma spare_taken_reachable:
  "jsem_step\<^sup>*\<^sup>* \<lparr>sem = 1, running = 0, held = 0, free = 1, order = NoOrder, alive = True, pc = Ready\<rparr>
     \<lparr>sem = 0, running = 1, held = 0, free = 1, order = NoOrder, alive = True, pc = Ready\<rparr>"
proof -
  let ?s = "\<lparr>sem = 1, running = 0, held = 0, free = 1, order = NoOrder, alive = True, pc = Ready\<rparr>"
  have "jsem_step ?s (?s\<lparr>sem := sem ?s - 1, running := running ?s + 1\<rparr>)" by (rule jsem_step.acquire) simp_all
  then show ?thesis by simp
qed

theorem no_over_admission_witness:
  "let t = \<lparr>sem = 0, running = 1, held = 0, free = 1, order = NoOrder, alive = True, pc = Ready\<rparr>
   in sem t + running t \<le> 1 + held t"
  using no_over_admission [OF _ spare_taken_reachable, of 1 1] by (simp add: jsem_init_def Let_def)



section \<open>The end of the broker\<close>

lemma Broker_destroy_takes: "Broker_destroy n hs = n - length hs"
  by (simp add: Broker_destroy_def finish_loop_eq)

lemma RunBroker_goes_on:
  assumes "\<And>t. i \<le> t \<Longrightarrow> t < j \<Longrightarrow> \<not> (t mod kAliveEvery = 0 \<and> \<not> linked t)" "i \<le> j"
  shows "\<exists>s'. RunBroker linked tick_at i s = RunBroker linked tick_at j s'"
  using assms
proof (induction "j - i" arbitrary: i s)
  case (Suc n)
  have "\<not> (i mod kAliveEvery = 0 \<and> \<not> linked i)" using Suc.prems(1) [of i] Suc.hyps(2) by simp
  then have "RunBroker linked tick_at i s = RunBroker linked tick_at (i + 1) (tick_at i s)"
    by (subst RunBroker.simps) (simp only: if_False)
  with Suc.hyps(1) [of "i + 1" "tick_at i s"] Suc.hyps(2) Suc.prems show ?case by auto
qed auto

text \<open>C24. The broker does not outlive the build: when the semaphore is unlinked at some tick, its loop ends,
  and no more than fifty ticks later.\<close>

theorem broker_loop_ends:
  assumes "\<forall>t \<ge> k. \<not> linked t"
  shows "\<exists>t s'. RunBroker linked tick_at 0 s = Some (t, s') \<and> t < k + kAliveEvery"
proof -
  define e where "e = (LEAST t. t mod kAliveEvery = 0 \<and> \<not> linked t)"
  define m where "m = k + (kAliveEvery - 1) - (k + (kAliveEvery - 1)) mod kAliveEvery"
  have m: "m mod kAliveEvery = 0" "k \<le> m" "m < k + kAliveEvery"
    by (auto simp: m_def minus_mod_eq_mult_div kAliveEvery_def)
  then have pm: "m mod kAliveEvery = 0 \<and> \<not> linked m" using assms by blast
  have em: "e mod kAliveEvery = 0 \<and> \<not> linked e" unfolding e_def by (rule LeastI [of "\<lambda>t. t mod kAliveEvery = 0 \<and> \<not> linked t", OF pm])
  have el: "e \<le> m" unfolding e_def by (rule Least_le [of "\<lambda>t. t mod kAliveEvery = 0 \<and> \<not> linked t", OF pm])
  have "\<not> (t mod kAliveEvery = 0 \<and> \<not> linked t)" if "t < e" for t
    using not_less_Least [of t "\<lambda>t. t mod kAliveEvery = 0 \<and> \<not> linked t"] that by (simp only: e_def simp_thms)
  from RunBroker_goes_on [OF this le0, of e tick_at s] obtain s' where "RunBroker linked tick_at 0 s = RunBroker linked tick_at e s'" by blast
  also have "\<dots> = Some (e, s')" using em by (subst RunBroker.simps) (simp only: if_True simp_thms)
  finally show ?thesis using el m(3) by auto
qed

theorem broker_loop_ends_witness:
  "\<exists>t s'. RunBroker (\<lambda>t. t < 3) (\<lambda>_ s. s) 0 (0 :: nat) = Some (t, s') \<and> t < 3 + kAliveEvery"
  using broker_loop_ends [of 3 "\<lambda>t. t < 3" "\<lambda>_ s. s" "0 :: nat"] by simp

end
