(* ===== verification/Spec2Isabelle.thy ===== *)
theory Spec2Isabelle
  imports Jig_Main Launch Dl_Audit Crt_Interp Reloc_Path Gcc_Shim Jsem_Broker
begin

text \<open>
  Verification of the C and C++ programs of the core package set.

  \<^bold>\<open>The programs and how they work together.\<close>  Every package is built through \<^verbatim>\<open>jig\<close>
  (\<^verbatim>\<open>pkgs/ji/jig/src\<close>): under the names \<^verbatim>\<open>cc\<close>, \<^verbatim>\<open>c++\<close>, \<^verbatim>\<open>rustcwrap\<close>, \<^verbatim>\<open>gocacheprog\<close> it runs a compiler or answers from a
  cache kept by a daemon; as \<^verbatim>\<open>reloc-fixup\<close> it rewrites the store references of an output tree; as
  \<^verbatim>\<open>nix-store\<close> it talks to the store daemon; as \<^verbatim>\<open>cache\<close> and \<^verbatim>\<open>slot\<close> it serves scripts.  \<^verbatim>\<open>jsem\<close>
  (\<^verbatim>\<open>pkgs/js/jsem/src\<close>) brokers the daemon's job slots to GHC's semaphore.  At run time \<^verbatim>\<open>launch\<close>
  (\<^verbatim>\<open>pkgs/la/launch/src\<close>) starts every wrapped program from its record, the entry stub of
  \<^verbatim>\<open>pkgs/cr/crt-interp/src\<close> finds the dynamic linker beside the program, \<^verbatim>\<open>reloc.h\<close> there finds a package's own files, and
  \<^verbatim>\<open>dlaudit\<close> (\<^verbatim>\<open>pkgs/dl/dlaudit/src\<close>) names the libraries a program asked for in vain.

  \<^bold>\<open>How code is represented.\<close>  Strings and files are lists of characters, \<^verbatim>\<open>npos\<close> is \<^term>\<open>None\<close>; 32 and 64 bit numbers
  are words where the code relies on their width and natural numbers where a bound is proved or checked.  State
  is a record that is passed on: the memory of an object, the disk as a map from paths to contents, the bytes sent and
  still to be read on a socket.  An exit with a message, an exception and an abort are values.  Code that is not
  of the repository is a parameter: BLAKE3, zstd, the JSON parser, the compilers, the daemons, directory walks, the
  system calls and their failures.  What a theorem needs of such code is a named hypothesis of it.

  \<^bold>\<open>Foundations.\<close>
  \<^item> \<open>Cpp_String\<close>, \<open>Cpp_Number\<close>, \<open>Cpp_Path\<close>: what the code uses of \<^verbatim>\<open>std::string\<close>, \<^verbatim>\<open>std::to_string\<close>,
    \<^verbatim>\<open>std::from_chars\<close> and \<^verbatim>\<open>std::filesystem::path\<close>; the contracts \<open>framing\<close>, \<open>nonempty_framing\<close>, \<open>invariant_system\<close> and
    \<open>message_source\<close>, each interpreted by the components that keep it.
  \<^item> \<open>Jig_Base\<close>, \<open>Jig_Files\<close>: \<^verbatim>\<open>base.cc\<close>.  Length-prefixed hashing is injective, quoted words are read back, a descriptor is
    closed once, a file is replaced in one step.

  \<^bold>\<open>The compile cache.\<close>
  \<^item> \<open>Jig_Store\<close>: \<^verbatim>\<open>store.cc\<close>, the masking of store hashes and of the own output path.
  \<^item> \<open>Cache_Client\<close>: \<^verbatim>\<open>cache_client.cc\<close>, the protocol over a socket that cuts the stream anywhere.
  \<^item> \<open>Jig_Manifest\<close>: \<^verbatim>\<open>manifest.cc\<close> and \<^verbatim>\<open>keys.h\<close>; validation decides, and a result key determines its manifest.
  \<^item> \<open>Jig_Depfile\<close>, \<open>Cc_Parse\<close>, \<open>Cc_Depfile\<close>, \<open>Cc_Run\<close>, \<open>Cc_Cache\<close>: \<^verbatim>\<open>cc_mode.cc\<close> from the command line to the stored result.
    Equal request keys mean the same run up to masked hashes, a hit gives back the stored run, uncertain failures
    are never stored, an observed run cleans up.
  \<^item> \<open>Jig_Driver\<close>: \<^verbatim>\<open>driver.cc\<close>, the configuration, the link policy of the three binary formats, the RUNPATH.
  \<^item> \<open>Jig_Process\<close>: \<^verbatim>\<open>process.cc\<close>, children and job slots.
  \<^item> \<open>Rustc_Mode\<close>, \<open>Go_Cache\<close>, \<open>Dir_Mode\<close>: \<^verbatim>\<open>rustc_mode.cc\<close>, \<^verbatim>\<open>gocache_mode.cc\<close>, \<^verbatim>\<open>dir_mode.cc\<close>.  Artifacts and trees are restored as
    they were stored, a torn upload stores nothing, a restored tree is whole or gone, base 64 is that of RFC 4648.
  \<^item> \<open>Jig_Main\<close>: \<^verbatim>\<open>main.cc\<close>, the choice of the mode and all modes composed.

  \<^bold>\<open>Store and binaries.\<close>
  \<^item> \<open>Nix_Hash\<close>, \<open>Nix_ATerm\<close>, \<open>Nix_Daemon\<close>: \<^verbatim>\<open>nix_store_mode.cc\<close>.  SHA-256 is the fold over the padded message of
    FIPS 180-4, base 32 and ATerm texts determine what they stand for, requests and answers are those of the
    worker protocol.
  \<^item> \<open>Bin_Image\<close>, \<open>Elf_Fixup\<close>, \<open>Macho_Fixup\<close>, \<open>Fixup_Mode\<close>: \<^verbatim>\<open>fixup_mode.h\<close>, \<^verbatim>\<open>elf_fixup.cc\<close>, \<^verbatim>\<open>macho_fixup.cc\<close>, \<^verbatim>\<open>fixup_mode.cc\<close>.  What is
    rewritten reads back as planned, nothing else in a file changes, and status 0 means that no denied path is left.

  \<^bold>\<open>Run time.\<close>
  \<^item> \<open>Jsem_Broker\<close>: \<^verbatim>\<open>broker.cc\<close> against \<^verbatim>\<open>broker.qnt\<close>.  The step relation interleaves the broker with the processes it
    serves; no process runs without a token or a slot, a tick refines the specified action, a waiting process is
    served, the loop ends.
  \<^item> \<open>Launch\<close>: \<^verbatim>\<open>launch.cc\<close>, POSIX and Windows.  The contract \<open>environment\<close> of the variables is interpreted for both.  The
    program started is that of the record, a Windows command line is read back as meant.
  \<^item> \<open>Dl_Audit\<close>: \<^verbatim>\<open>dlaudit.cc\<close>; the lines written are the failed lookups of the sequence of callbacks.
  \<^item> \<open>Crt_Interp\<close>: \<^verbatim>\<open>crt_interp.c\<close> on 64 bit words that wrap; the linker is in place when it is entered.
  \<^item> \<open>Reloc_Path\<close>: \<^verbatim>\<open>reloc.h\<close> and \<^verbatim>\<open>reloc_self_*.h\<close>; a path is found beside the file the code is mapped from.
  \<^item> \<open>Gcc_Shim\<close>: \<^verbatim>\<open>gcc_s.c\<close>, the bit counting routines of \<^verbatim>\<open>libgcc\<close>.

  \<^bold>\<open>Loops and bounds.\<close>  Loops are recursive functions with a termination proof.  The bounds are those of the code:
  32 hops of a launcher link, 50 ticks of the broker after its semaphore is gone, batches of files, 32 remembered
  paths, buffers of 4096 bytes.  The length of a C string in memory is a partial function, proved to return when the string
  ends.  Where a model reads answers of the kernel from a list, the list may have any length; running out of
  answers is an error answer, and a theorem that promises success says how many answers it needs.

  \<^bold>\<open>Not modelled.\<close>  The daemons \<^verbatim>\<open>jigd\<close> and \<^verbatim>\<open>nix-daemon\<close>, the build descriptions and the builder (in other languages, seen
  here only through the bytes they exchange with the programs); the system call stubs and entry code of \<^verbatim>\<open>crt_interp.c\<close>
  (assembly); the path of the executable on Windows in \<^verbatim>\<open>launch.cc\<close> (its path syntax is not the one modelled); elapsed times in
  log lines; \<^verbatim>\<open>systre.c\<close>, whose functions only call those of another library; patches to third-party packages.
\<close>

end
